(* ===== verification/Prelude.thy ===== *)
theory Prelude
  imports Main "HOL-Library.Word"
begin

text \<open>
  Shared vocabulary of the development: the machine integer types of the Rust code, the
  outcome of a Rust call (a value, an error value, a panic, or the reset of the board that
  \<^verbatim>\<open>memlog_flush_and_reset!\<close> performs), the byte encodings of integers, and the list
  facts that several components use.
\<close>

unbundle bit_operations_syntax

section \<open>Machine integers\<close>

type_synonym u8 = "8 word"
type_synonym u16 = "16 word"
type_synonym u32 = "32 word"
type_synonym u64 = "64 word"
type_synonym bytes = "8 word list"

text \<open>\<^verbatim>\<open>u64::from\<close>, \<^verbatim>\<open>usize::from\<close> and the other widening conversions keep the value.\<close>

lemma unat_less_exp: "unat (w :: 'a::len word) < 2 ^ LENGTH('a)"
  by (rule unsigned_less)

lemma unat_widen:
  assumes "LENGTH('a::len) \<le> LENGTH('b::len)"
  shows "unat (ucast (w :: 'a word) :: 'b word) = unat w"
proof -
  have "(2::nat) ^ LENGTH('a) \<le> 2 ^ LENGTH('b)"
    using assms by (rule power_increasing) simp
  then have "unat w < 2 ^ LENGTH('b)"
    using unat_less_exp [of w] by (rule order.strict_trans2 [rotated])
  then show ?thesis
    by (simp add: unsigned_ucast_eq take_bit_nat_eq_self_iff)
qed

lemma unat_widen_simps [simp]:
  "unat (ucast (a :: u8) :: u16) = unat a" "unat (ucast (a :: u8) :: u32) = unat a"
  "unat (ucast (a :: u8) :: u64) = unat a" "unat (ucast (b :: u16) :: u32) = unat b"
  "unat (ucast (b :: u16) :: u64) = unat b" "unat (ucast (c :: u32) :: u64) = unat c"
  by (simp_all add: unat_widen)

lemma unat_of_nat_small: "n < 2 ^ LENGTH('a) \<Longrightarrow> unat (of_nat n :: 'a::len word) = n"
  by (simp add: unat_of_nat take_bit_nat_eq_self)

lemma unat_add_small: "unat a + unat b < 2 ^ LENGTH('a) \<Longrightarrow> unat (a + b :: 'a::len word) = unat a + unat b"
  by (simp add: unat_add_lem)

text \<open>Testing a bit with a mask.\<close>

lemma and_push_bit_test: "(w :: 'a::len word) AND push_bit n 1 \<noteq> 0 \<longleftrightarrow> bit w n"
  by (simp add: bit_iff_and_push_bit_not_eq_0)

lemma and_mask_test:
  "(w :: 'a::len word) AND 1 \<noteq> 0 \<longleftrightarrow> bit w 0" "w AND 2 \<noteq> 0 \<longleftrightarrow> bit w 1"
  using and_push_bit_test [of w 0] and_push_bit_test [of w 1] by simp_all

named_theorems byte_codec "encoding and decoding of integers as bytes"

section \<open>Outcomes of a call\<close>

text \<open>
  \<open>Ok\<close> and \<open>Err\<close> are the two constructors of Rust's \<^verbatim>\<open>Result\<close>; \<open>Panic\<close> is a panic
  (failed \<^verbatim>\<open>assert!\<close>, \<^verbatim>\<open>expect\<close>, slice index out of range, \<^verbatim>\<open>todo!\<close>); \<open>Reset\<close> is a call of
  \<^verbatim>\<open>memlog_flush_and_reset!\<close>, which never returns; \<open>Hang\<close> is a busy-wait loop that never ends.
\<close>

datatype ('e, 'a) outcome = Ok 'a | Err 'e | Panic | Reset | Hang

fun obind :: "('e, 'a) outcome \<Rightarrow> ('a \<Rightarrow> ('e, 'b) outcome) \<Rightarrow> ('e, 'b) outcome" where
  "obind (Ok a) f = f a"
| "obind (Err e) f = Err e"
| "obind Panic f = Panic"
| "obind Reset f = Reset"
| "obind Hang f = Hang"

text \<open>The \<^verbatim>\<open>.map_err(g)\<close> of a result.\<close>

fun omap_err :: "('e \<Rightarrow> 'f) \<Rightarrow> ('e, 'a) outcome \<Rightarrow> ('f, 'a) outcome" where
  "omap_err g (Ok a) = Ok a"
| "omap_err g (Err e) = Err (g e)"
| "omap_err g Panic = Panic"
| "omap_err g Reset = Reset"
| "omap_err g Hang = Hang"

text \<open>\<^verbatim>\<open>.expect(..)\<close> and \<^verbatim>\<open>.unwrap()\<close> on an option.\<close>

definition oexpect :: "'a option \<Rightarrow> ('e, 'a) outcome" where
  "oexpect x = (case x of None \<Rightarrow> Panic | Some a \<Rightarrow> Ok a)"

text \<open>\<^verbatim>\<open>assert!(c)\<close>.\<close>

definition oassert :: "bool \<Rightarrow> ('e, unit) outcome" where
  "oassert c = (if c then Ok () else Panic)"

lemma oexpect_simps [simp]: "oexpect (Some a) = Ok a" "oexpect None = Panic"
  by (simp_all add: oexpect_def)

lemma oassert_simps [simp]: "oassert True = Ok ()" "oassert False = Panic"
  by (simp_all add: oassert_def)

lemma obind_Ok_iff: "obind m f = Ok b \<longleftrightarrow> (\<exists>a. m = Ok a \<and> f a = Ok b)"
  by (cases m) auto

lemma obind_OkE:
  assumes "obind m f = Ok b"
  obtains a where "m = Ok a" "f a = Ok b"
  using assms by (cases m) auto

lemma obind_assoc: "obind (obind m f) g = obind m (\<lambda>x. obind (f x) g)"
  by (cases m) auto

lemma omap_err_Ok_iff [simp]: "omap_err g m = Ok a \<longleftrightarrow> m = Ok a"
  by (cases m) auto

text \<open>A call that returns or panics: no reset and no endless loop.\<close>

definition settles :: "('e, 'a) outcome \<Rightarrow> bool" where
  "settles r \<longleftrightarrow> r \<noteq> Reset \<and> r \<noteq> Hang"

named_theorems settled "calls that return or panic"

lemma settles_simps [simp]:
  "settles (Ok a)" "settles (Err e)" "settles Panic" "\<not> settles Reset" "\<not> settles Hang"
  by (simp_all add: settles_def)

lemma settles_obind [settled]:
  "settles m \<Longrightarrow> (\<And>a. m = Ok a \<Longrightarrow> settles (f a)) \<Longrightarrow> settles (obind m f)"
  by (cases m) auto

lemma settles_omap_err [simp]: "settles (omap_err g m) = settles m"
  by (cases m) auto

lemma settles_oexpect [simp]: "settles (oexpect x)"
  by (cases x) auto

section \<open>Actions: calls that change state\<close>

text \<open>
  A call on a state (a device, the registers) returns its outcome and the state it leaves,
  whatever the outcome is. \<open>abind\<close> is sequencing with the early return of \<^verbatim>\<open>?\<close>.
\<close>

type_synonym ('s, 'e, 'a) act = "'s \<Rightarrow> ('e, 'a) outcome \<times> 's"

definition aret :: "'a \<Rightarrow> ('s, 'e, 'a) act" where
  "aret a = (\<lambda>s. (Ok a, s))"

definition alift :: "('e, 'a) outcome \<Rightarrow> ('s, 'e, 'a) act" where
  "alift r = (\<lambda>s. (r, s))"

definition abind :: "('s, 'e, 'a) act \<Rightarrow> ('a \<Rightarrow> ('s, 'e, 'b) act) \<Rightarrow> ('s, 'e, 'b) act" where
  "abind m f = (\<lambda>s. case m s of
      (Ok a, s') \<Rightarrow> f a s'
    | (Err e, s') \<Rightarrow> (Err e, s')
    | (Panic, s') \<Rightarrow> (Panic, s')
    | (Reset, s') \<Rightarrow> (Reset, s')
    | (Hang, s') \<Rightarrow> (Hang, s'))"

definition amap_err :: "('e \<Rightarrow> 'f) \<Rightarrow> ('s, 'e, 'a) act \<Rightarrow> ('s, 'f, 'a) act" where
  "amap_err g m = (\<lambda>s. let (r, s') = m s in (omap_err g r, s'))"

text \<open>A loop over a list, stopping at the first outcome that is not \<open>Ok\<close>.\<close>

fun afor :: "'b list \<Rightarrow> ('b \<Rightarrow> ('s, 'e, unit) act) \<Rightarrow> ('s, 'e, unit) act" where
  "afor [] f = aret ()"
| "afor (x # xs) f = abind (f x) (\<lambda>_. afor xs f)"

lemma aret_simp [simp]: "aret a s = (Ok a, s)"
  by (simp add: aret_def)

lemma alift_simp [simp]: "alift r s = (r, s)"
  by (simp add: alift_def)

lemma abind_Ok [simp]: "m s = (Ok a, s') \<Longrightarrow> abind m f s = f a s'"
  by (simp add: abind_def)

lemma abind_aret [simp]: "abind (aret a) f = f a"
  by (simp add: abind_def aret_def)

lemma abind_alift [simp]:
  "abind (alift (Ok a)) f = f a" "abind (alift (Err e)) f = alift (Err e)"
  "abind (alift Panic) f = alift Panic" "abind (alift Reset) f = alift Reset"
  "abind (alift Hang) f = alift Hang"
  by (simp_all add: abind_def alift_def)

lemma abind_assoc: "abind (abind m f) g = abind m (\<lambda>a. abind (f a) g)"
  by (auto simp: abind_def fun_eq_iff split: prod.splits outcome.splits)

lemma abind_Ok_iff:
  "abind m f s = (Ok b, s'') \<longleftrightarrow> (\<exists>a s'. m s = (Ok a, s') \<and> f a s' = (Ok b, s''))"
  by (auto simp: abind_def split: prod.splits outcome.splits)

lemma abind_cases:
  assumes "abind m f s = (r, s'')"
  obtains (ok) a s' where "m s = (Ok a, s')" "f a s' = (r, s'')"
  | (stop) r' where "m s = (r', s'')" "\<And>a. r' \<noteq> Ok a" "\<And>b. r \<noteq> Ok b"
  using assms by (cases "m s"; cases "fst (m s)") (auto simp: abind_def)

lemma amap_err_Ok_iff [simp]: "amap_err g m s = (Ok a, s') \<longleftrightarrow> m s = (Ok a, s')"
  by (auto simp: amap_err_def split: prod.splits)

section \<open>Checked arithmetic of the Rust integer types\<close>

text \<open>\<^verbatim>\<open>checked_sub\<close> and \<^verbatim>\<open>checked_add\<close>: \<open>None\<close> when the result is not representable.\<close>

definition checked_sub :: "'a::len word \<Rightarrow> 'a word \<Rightarrow> 'a word option" where
  "checked_sub a b = (if b \<le> a then Some (a - b) else None)"

definition checked_add :: "'a::len word \<Rightarrow> 'a word \<Rightarrow> 'a word option" where
  "checked_add a b = (if unat a + unat b < 2 ^ LENGTH('a) then Some (a + b) else None)"

lemma checked_sub_Some: "checked_sub a b = Some c \<Longrightarrow> unat c = unat a - unat b \<and> b \<le> a"
  by (auto simp: checked_sub_def unat_sub split: if_splits)

lemma checked_add_Some: "checked_add a b = Some c \<Longrightarrow> unat c = unat a + unat b"
  by (auto simp: checked_add_def unat_add_lem split: if_splits)

text \<open>
  Plain \<^verbatim>\<open>+\<close>, \<^verbatim>\<open>-\<close> and \<^verbatim>\<open>*\<close>: \<^verbatim>\<open>firmware/Cargo.toml\<close> sets \<^verbatim>\<open>overflow-checks = true\<close> in the dev
  profile (an overflow panics) and \<^verbatim>\<open>false\<close> in the release profile (the result wraps);
  \<^verbatim>\<open>debug-assertions\<close> goes with it.
\<close>

datatype profile = Dev | Release

definition prof_add :: "profile \<Rightarrow> 'a::len word \<Rightarrow> 'a word \<Rightarrow> ('e, 'a word) outcome" where
  "prof_add p a b = (if p = Dev \<and> checked_add a b = None then Panic else Ok (a + b))"

definition prof_sub :: "profile \<Rightarrow> 'a::len word \<Rightarrow> 'a word \<Rightarrow> ('e, 'a word) outcome" where
  "prof_sub p a b = (if p = Dev \<and> checked_sub a b = None then Panic else Ok (a - b))"

definition prof_mul :: "profile \<Rightarrow> 'a::len word \<Rightarrow> 'a word \<Rightarrow> ('e, 'a word) outcome" where
  "prof_mul p a b = (if p = Dev \<and> 2 ^ LENGTH('a) \<le> unat a * unat b then Panic else Ok (a * b))"

definition odebug_assert :: "profile \<Rightarrow> bool \<Rightarrow> ('e, unit) outcome" where
  "odebug_assert p c = (if p = Dev \<and> \<not> c then Panic else Ok ())"

lemma prof_add_Ok: "prof_add p a b = Ok c \<Longrightarrow> c = a + b"
  by (auto simp: prof_add_def split: if_splits)

lemma prof_sub_Ok: "prof_sub p a b = Ok c \<Longrightarrow> c = a - b"
  by (auto simp: prof_sub_def split: if_splits)

lemma settles_prof [simp]:
  "settles (prof_add p a b)" "settles (prof_sub p a b)" "settles (prof_mul p a b)"
  by (simp_all add: prof_add_def prof_sub_def prof_mul_def)

lemma prof_Ok_iff:
  "prof_add p a b = Ok c \<longleftrightarrow> c = a + b \<and> (p = Dev \<longrightarrow> checked_add a b \<noteq> None)"
  "prof_sub p a b = Ok d \<longleftrightarrow> d = a - b \<and> (p = Dev \<longrightarrow> checked_sub a b \<noteq> None)"
  by (auto simp: prof_add_def prof_sub_def)

lemma prof_add_fits: "unat a + unat b < 2 ^ LENGTH('a) \<Longrightarrow> prof_add p (a :: 'a::len word) b = Ok (a + b)"
  by (simp add: prof_add_def checked_add_def)

lemma prof_mul_fits: "unat a * unat b < 2 ^ LENGTH('a) \<Longrightarrow> prof_mul p (a :: 'a::len word) b = Ok (a * b)"
  by (simp add: prof_mul_def)

lemma prof_sub_fits: "b \<le> a \<Longrightarrow> prof_sub p a b = Ok (a - b)"
  by (simp add: prof_sub_def checked_sub_def)

section \<open>Integers as bytes\<close>

text \<open>\<^verbatim>\<open>to_le_bytes\<close>, \<^verbatim>\<open>to_be_bytes\<close> and their inverses.\<close>

definition le32_bytes :: "u32 \<Rightarrow> bytes" where
  "le32_bytes w = [ucast w, ucast (drop_bit 8 w), ucast (drop_bit 16 w), ucast (drop_bit 24 w)]"

definition be32_bytes :: "u32 \<Rightarrow> bytes" where
  "be32_bytes w = rev (le32_bytes w)"

definition be16_bytes :: "u16 \<Rightarrow> bytes" where
  "be16_bytes w = [ucast (drop_bit 8 w), ucast w]"

definition le16_bytes :: "u16 \<Rightarrow> bytes" where
  "le16_bytes w = [ucast w, ucast (drop_bit 8 w)]"

definition le32_of :: "u8 \<Rightarrow> u8 \<Rightarrow> u8 \<Rightarrow> u8 \<Rightarrow> u32" where
  "le32_of a b c d =
     ucast a OR push_bit 8 (ucast b) OR push_bit 16 (ucast c) OR push_bit 24 (ucast d)"

definition be16_of :: "u8 \<Rightarrow> u8 \<Rightarrow> u16" where
  "be16_of a b = push_bit 8 (ucast a) OR ucast b"

lemma le32_of_bytes [byte_codec]:
  "le32_of (ucast w) (ucast (drop_bit 8 w)) (ucast (drop_bit 16 w)) (ucast (drop_bit 24 w)) = w"
  unfolding le32_of_def
proof (rule bit_word_eqI)
  fix n assume "n < LENGTH(32)"
  then consider "n < 8" | "8 \<le> n" "n < 16" | "16 \<le> n" "n < 24" | "24 \<le> n" "n < 32"
    by fastforce
  then show "bit (ucast (ucast w :: u8) OR push_bit 8 (ucast (ucast (drop_bit 8 w) :: u8)) OR
      push_bit 16 (ucast (ucast (drop_bit 16 w) :: u8)) OR
      push_bit 24 (ucast (ucast (drop_bit 24 w) :: u8)) :: u32) n \<longleftrightarrow> bit w n"
    by cases (auto simp: bit_simps le_add_diff_inverse)
qed

lemma be16_of_bytes [byte_codec]: "be16_of (ucast (drop_bit 8 w)) (ucast w) = w"
  unfolding be16_of_def
  by (rule bit_word_eqI) (auto simp: bit_simps)

lemma length_codec [simp]:
  "length (le32_bytes w) = 4" "length (be32_bytes w) = 4"
  "length (be16_bytes h) = 2" "length (le16_bytes h) = 2"
  by (simp_all add: le32_bytes_def be32_bytes_def be16_bytes_def le16_bytes_def)

lemma le32_of_nth [byte_codec]:
  "le32_of (le32_bytes w ! 0) (le32_bytes w ! 1) (le32_bytes w ! 2) (le32_bytes w ! 3) = w"
  by (simp add: le32_bytes_def le32_of_bytes)

lemma be16_of_nth [byte_codec]: "be16_of (le16_bytes w ! 1) (le16_bytes w ! 0) = w"
  by (simp add: le16_bytes_def be16_of_bytes)

lemma le32_bytes_inject [simp]: "le32_bytes v = le32_bytes w \<longleftrightarrow> v = w"
  by (metis le32_of_nth)

lemma be32_bytes_inject [simp]: "be32_bytes v = be32_bytes w \<longleftrightarrow> v = w"
  by (simp add: be32_bytes_def)

lemma le16_bytes_inject [simp]: "le16_bytes v = le16_bytes w \<longleftrightarrow> v = w"
  by (metis be16_of_nth)

section \<open>Slices\<close>

text \<open>The Rust slice \<^verbatim>\<open>xs[i..j]\<close>: a panic when \<open>i > j\<close> or \<open>j\<close> is out of range.\<close>

definition slice_get :: "'a list \<Rightarrow> nat \<Rightarrow> nat \<Rightarrow> 'a list option" where
  "slice_get xs i j = (if i \<le> j \<and> j \<le> length xs then Some (take (j - i) (drop i xs)) else None)"

text \<open>The effect of \<^verbatim>\<open>xs[i..i + ys.len()].copy_from_slice(ys)\<close> when the range exists.\<close>

definition put_slice :: "'a list \<Rightarrow> nat \<Rightarrow> 'a list \<Rightarrow> 'a list" where
  "put_slice xs i ys = take i xs @ ys @ drop (i + length ys) xs"

lemma length_put_slice [simp]: "i + length ys \<le> length xs \<Longrightarrow> length (put_slice xs i ys) = length xs"
  by (simp add: put_slice_def)

lemma nth_put_slice:
  assumes "i + length ys \<le> length xs" "k < length xs"
  shows "put_slice xs i ys ! k = (if i \<le> k \<and> k < i + length ys then ys ! (k - i) else xs ! k)"
  using assms by (auto simp: put_slice_def nth_append min_def)

lemma put_slice_read [simp]:
  "i + length ys \<le> length xs \<Longrightarrow> take (length ys) (drop i (put_slice xs i ys)) = ys"
  by (simp add: put_slice_def)

text \<open>\<^verbatim>\<open>chunks(n)\<close>: consecutive pieces of length \<open>n\<close>, the last one possibly shorter.\<close>

function chunks :: "nat \<Rightarrow> 'a list \<Rightarrow> 'a list list" where
  "chunks n xs = (if xs = [] \<or> n = 0 then [] else take n xs # chunks n (drop n xs))"
  by pat_completeness auto
termination
  by (relation "measure (\<lambda>(n, xs). length xs)") auto

declare chunks.simps [simp del]

lemma chunks_Nil [simp]: "chunks n [] = []"
  by (simp add: chunks.simps)

lemma chunks_short: "xs \<noteq> [] \<Longrightarrow> length xs \<le> n \<Longrightarrow> chunks n xs = [xs]"
  by (subst chunks.simps) (cases xs; simp)

lemma concat_chunks [simp]: "0 < n \<Longrightarrow> concat (chunks n xs) = xs"
proof (induction n xs rule: chunks.induct)
  case (1 n xs)
  then show ?case
    by (subst chunks.simps) auto
qed

lemma chunks_length_le: "c \<in> set (chunks n xs) \<Longrightarrow> 0 < length c \<and> length c \<le> n"
proof (induction n xs rule: chunks.induct)
  case (1 n xs)
  then show ?case
    by (subst (asm) chunks.simps) (auto split: if_splits)
qed

end
