(* ===== verification/Storage.thy ===== *)
theory Storage
  imports Prelude
begin

text \<open>
  Block devices and the MBR partition table of \<^verbatim>\<open>firmware/usbarmory/src/storage.rs\<close>: the
  trait \<^verbatim>\<open>ManagedBlockDevice\<close> as a record of operations on a device state, the partition
  table with its 512-byte encoding, \<^verbatim>\<open>MbrDevice::create\<close> and \<^verbatim>\<open>open\<close>, and the view of one
  partition as a block device again. The laws a device promises are the locale
  \<open>block_device\<close>; a partition is shown to keep them.
\<close>

section \<open>Block devices\<close>

text \<open>\<^verbatim>\<open>ManagedBlockDevice\<close>: \<open>dev_read\<close> returns the block it fills the caller's buffer with.\<close>

record ('d, 'e) blockdev =
  total_blocks :: "'d \<Rightarrow> u64"
  dev_read :: "u64 \<Rightarrow> ('d, 'e, bytes) act"
  dev_write :: "bytes \<Rightarrow> u64 \<Rightarrow> ('d, 'e, unit) act"
  dev_flush :: "('d, 'e, unit) act"

definition BLOCK_SIZE :: nat where
  "BLOCK_SIZE = 512"

text \<open>\<^verbatim>\<open>Block::zeroed\<close>.\<close>

definition block_zeroed :: bytes where
  "block_zeroed = replicate BLOCK_SIZE 0"

section \<open>Partition entries\<close>

record partition_entry =
  status :: u8
  start_chs :: "u8 \<times> u8 \<times> u8"
  part_type :: u8
  end_chs :: "u8 \<times> u8 \<times> u8"
  start_lba :: u32
  num_sectors :: u32

record part_extent =
  start :: u32
  sectors :: u32

text \<open>\<^verbatim>\<open>PartitionEntry::new\<close>, \<^verbatim>\<open>zeroed\<close> and \<^verbatim>\<open>extent\<close>.\<close>

definition partition_entry_new :: "u32 \<Rightarrow> u32 \<Rightarrow> partition_entry" where
  "partition_entry_new lba n =
     \<lparr>status = 0, start_chs = (0, 0, 0), part_type = 0x83, end_chs = (0, 0, 0),
      start_lba = lba, num_sectors = n\<rparr>"

definition partition_entry_zeroed :: partition_entry where
  "partition_entry_zeroed =
     \<lparr>status = 0, start_chs = (0, 0, 0), part_type = 0, end_chs = (0, 0, 0),
      start_lba = 0, num_sectors = 0\<rparr>"

definition extent :: "partition_entry \<Rightarrow> part_extent" where
  "extent e = \<lparr>start = start_lba e, sectors = num_sectors e\<rparr>"

text \<open>
  The \<^verbatim>\<open>#[repr(C)]\<close> layout of an entry on the little-endian target, which \<^verbatim>\<open>AsBytes\<close> and
  \<^verbatim>\<open>FromBytes\<close> expose: 16 bytes without padding.
\<close>

definition entry_bytes :: "partition_entry \<Rightarrow> bytes" where
  "entry_bytes e =
     [status e, fst (start_chs e), fst (snd (start_chs e)), snd (snd (start_chs e)),
      part_type e, fst (end_chs e), fst (snd (end_chs e)), snd (snd (end_chs e))]
     @ le32_bytes (start_lba e) @ le32_bytes (num_sectors e)"

definition entry_of_bytes :: "bytes \<Rightarrow> partition_entry" where
  "entry_of_bytes b =
     \<lparr>status = b ! 0, start_chs = (b ! 1, b ! 2, b ! 3), part_type = b ! 4,
      end_chs = (b ! 5, b ! 6, b ! 7),
      start_lba = le32_of (b ! 8) (b ! 9) (b ! 10) (b ! 11),
      num_sectors = le32_of (b ! 12) (b ! 13) (b ! 14) (b ! 15)\<rparr>"

section \<open>Partition tables\<close>

datatype part_error = PartitionCollision | TooManyPartitions

datatype 'e mbr_error = Device 'e | InvalidMagic | InvalidPartExtent | NoPartition | OutOfRangeAccess

record partition_table =
  entries :: "partition_entry list"
  index :: nat

definition partition_table_new :: partition_table where
  "partition_table_new = \<lparr>entries = replicate 4 partition_entry_zeroed, index = 0\<rparr>"

definition as_slice :: "partition_table \<Rightarrow> partition_entry list" where
  "as_slice t = take (index t) (entries t)"

text \<open>\<^verbatim>\<open>.last().map(..).unwrap_or(0)\<close>: where the last partition of the slice ends.\<close>

definition last_end :: "profile \<Rightarrow> partition_entry list \<Rightarrow> ('e, u32) outcome" where
  "last_end p es = (if es = [] then Ok 0 else prof_add p (start_lba (last es)) (num_sectors (last es)))"

text \<open>\<^verbatim>\<open>PartitionTable::add\<close>: the entry at \<open>index\<close> is set; \<open>index\<close> stays as it is.\<close>

definition add :: "profile \<Rightarrow> partition_table \<Rightarrow> partition_entry \<Rightarrow> (part_error, partition_table) outcome" where
  "add p t e =
     obind (last_end p (as_slice t)) (\<lambda>end.
       if start_lba e < end then Err PartitionCollision
       else if index t < length (entries t) then Ok (t\<lparr>entries := (entries t)[index t := e]\<rparr>)
       else Err TooManyPartitions)"

text \<open>\<^verbatim>\<open>to_block\<close>: the entries from offset 446 on, then the signature.\<close>

fun put_entries :: "bytes \<Rightarrow> nat \<Rightarrow> partition_entry list \<Rightarrow> bytes" where
  "put_entries b st [] = b"
| "put_entries b st (e # es) =
     put_entries (put_slice b st (entry_bytes e)) (st + length (entry_bytes e)) es"

definition to_block :: "partition_table \<Rightarrow> bytes" where
  "to_block t = (put_entries block_zeroed 446 (entries t))[510 := 0x55, 511 := 0xAA]"

section \<open>The MBR device\<close>

text \<open>\<^verbatim>\<open>MbrDevice\<close> without the raw device, which is the state of the actions.\<close>

type_synonym part_table = "partition_entry list"

definition create ::
  "profile \<Rightarrow> ('d, 'e) blockdev \<Rightarrow> partition_table \<Rightarrow> ('d, 'e mbr_error, part_table) act" where
  "create p D t = (\<lambda>d.
     (abind (alift (last_end p (as_slice t))) (\<lambda>end.
        if total_blocks D d < ucast end then alift (Err InvalidPartExtent)
        else abind (amap_err Device (dev_write D (to_block t) 0)) (\<lambda>_.
             aret (entries t)))) d)"

text \<open>The four entries read back from the block, and the checks \<^verbatim>\<open>open\<close> makes of each.\<close>

definition block_entries :: "bytes \<Rightarrow> part_table" where
  "block_entries b = map (\<lambda>i. entry_of_bytes (take 16 (drop (446 + 16 * i) b))) [0..<4]"

definition entry_valid :: "u64 \<Rightarrow> partition_entry \<Rightarrow> bool" where
  "entry_valid tot e \<longleftrightarrow>
     (part_type e \<noteq> 0 \<longrightarrow>
       (let st = start (extent e);
            end = (ucast (start (extent e)) :: u64) + ucast (sectors (extent e))
        in \<not> (st = 0 \<or> tot \<le> ucast st) \<and> \<not> (end = 0 \<or> tot \<le> end) \<and> \<not> (0xFFFFFFFF < end)))"

definition mbr_open :: "('d, 'e) blockdev \<Rightarrow> ('d, 'e mbr_error, part_table) act" where
  "mbr_open D =
     abind (amap_err Device (dev_read D 0)) (\<lambda>mbr.
       if drop (BLOCK_SIZE - 2) mbr \<noteq> [0x55, 0xAA] then alift (Err InvalidMagic)
       else (\<lambda>d. if list_all (entry_valid (total_blocks D d)) (block_entries mbr)
                 then aret (block_entries mbr) d
                 else alift (Err InvalidPartExtent) d))"

definition get_extent :: "part_table \<Rightarrow> u8 \<Rightarrow> ('e mbr_error, part_extent) outcome" where
  "get_extent pt part =
     (if 4 \<le> part then Err NoPartition
      else (let e = pt ! unat part in
            if part_type e = 0 then Err NoPartition else Ok (extent e)))"

section \<open>A partition as a block device\<close>

definition partition_dev :: "('d, 'e) blockdev \<Rightarrow> part_extent \<Rightarrow> ('d, 'e mbr_error) blockdev" where
  "partition_dev D x =
     \<lparr>total_blocks = (\<lambda>_. ucast (sectors x)),
      dev_read = (\<lambda>lba.
        if ucast (sectors x) \<le> lba then alift (Err OutOfRangeAccess)
        else amap_err Device (dev_read D (lba + ucast (start x)))),
      dev_write = (\<lambda>b lba.
        if ucast (sectors x) \<le> lba then alift (Err OutOfRangeAccess)
        else amap_err Device (dev_write D b (lba + ucast (start x)))),
      dev_flush = amap_err Device (dev_flush D)\<rparr>"

definition partition :: "('d, 'e) blockdev \<Rightarrow> part_table \<Rightarrow> u8 \<Rightarrow>
    ('e mbr_error, ('d, 'e mbr_error) blockdev) outcome" where
  "partition D pt part = obind (get_extent pt part) (\<lambda>x. Ok (partition_dev D x))"

section \<open>The contract of a block device\<close>

text \<open>
  \<open>blk d\<close> is what the device stores; \<open>inv\<close> is the device's own invariant. A successful read
  returns the stored block, a successful write stores the block, a failed write may spoil
  the addressed block only, and every call leaves the size alone.
\<close>

locale block_device =
  fixes D :: "('d, 'e) blockdev"
    and inv :: "'d \<Rightarrow> bool"
    and blk :: "'d \<Rightarrow> u64 \<Rightarrow> bytes"
  assumes read_law: "inv d \<Longrightarrow> dev_read D lba d = (r, d') \<Longrightarrow>
      inv d' \<and> blk d' = blk d \<and> total_blocks D d' = total_blocks D d \<and>
      (\<forall>b. r = Ok b \<longrightarrow> lba < total_blocks D d \<and> b = blk d lba \<and> length b = BLOCK_SIZE)"
    and write_law: "inv d \<Longrightarrow> length b = BLOCK_SIZE \<Longrightarrow> dev_write D b lba d = (w, d') \<Longrightarrow>
      inv d' \<and> total_blocks D d' = total_blocks D d \<and> (\<forall>k. k \<noteq> lba \<longrightarrow> blk d' k = blk d k) \<and>
      (w = Ok () \<longrightarrow> lba < total_blocks D d \<and> blk d' lba = b)"
    and flush_law: "inv d \<Longrightarrow> dev_flush D d = (u, d') \<Longrightarrow>
      inv d' \<and> blk d' = blk d \<and> total_blocks D d' = total_blocks D d"
begin

lemma read_Ok:
  assumes "inv d" "dev_read D lba d = (Ok b, d')"
  shows "b = blk d lba" "length b = BLOCK_SIZE" "lba < total_blocks D d" "inv d'" "blk d' = blk d"
    "total_blocks D d' = total_blocks D d"
  using read_law [OF assms] by auto

lemma write_Ok:
  assumes "inv d" "length b = BLOCK_SIZE" "dev_write D b lba d = (Ok (), d')"
  shows "blk d' = (blk d)(lba := b)" "lba < total_blocks D d" "inv d'"
    "total_blocks D d' = total_blocks D d"
  using write_law [OF assms] by (auto simp: fun_eq_iff)

end

text \<open>The trait's promise for an address out of range: an error, and nothing changes.\<close>

locale strict_block_device = block_device +
  assumes out_of_range: "inv d \<Longrightarrow> total_blocks D d \<le> lba \<Longrightarrow>
    (\<exists>e. dev_read D lba d = (Err e, d)) \<and> (\<exists>e. dev_write D b lba d = (Err e, d))"

section \<open>A partition keeps the contract\<close>

lemma shifted_lba:
  fixes lba :: u64
  assumes "lba < ucast (sectors x)"
  shows "unat (lba + ucast (start x)) = unat lba + unat (start x)"
proof -
  have "unat lba < 2 ^ 32"
    using assms unat_less_exp [of "sectors x"] by (simp add: word_less_nat_alt)
  then show ?thesis
    using unat_less_exp [of "start x"] by (simp add: unat_word_ariths)
qed

locale partition_of_device = block_device +
  fixes x :: part_extent
begin

sublocale part: strict_block_device "partition_dev D x" inv "\<lambda>d lba. blk d (lba + ucast (start x))"
proof unfold_locales
  fix d lba r d'
  assume "inv d" "dev_read (partition_dev D x) lba d = (r, d')"
  then show "inv d' \<and> (\<lambda>lba. blk d' (lba + ucast (start x))) = (\<lambda>lba. blk d (lba + ucast (start x))) \<and>
      total_blocks (partition_dev D x) d' = total_blocks (partition_dev D x) d \<and>
      (\<forall>b. r = Ok b \<longrightarrow> lba < total_blocks (partition_dev D x) d \<and>
         b = blk d (lba + ucast (start x)) \<and> length b = BLOCK_SIZE)"
    using read_law [of d "lba + ucast (start x)"]
    by (cases "dev_read D (lba + ucast (start x)) d")
      (auto simp: partition_dev_def amap_err_def split: if_splits)
next
  fix d b lba r d'
  assume "inv d" "length b = BLOCK_SIZE" "dev_write (partition_dev D x) b lba d = (r, d')"
  then show "inv d' \<and> total_blocks (partition_dev D x) d' = total_blocks (partition_dev D x) d \<and>
      (\<forall>k. k \<noteq> lba \<longrightarrow> blk d' (k + ucast (start x)) = blk d (k + ucast (start x))) \<and>
      (r = Ok () \<longrightarrow> lba < total_blocks (partition_dev D x) d \<and> blk d' (lba + ucast (start x)) = b)"
    using write_law [of d b "lba + ucast (start x)"]
    by (cases "dev_write D b (lba + ucast (start x)) d")
      (auto simp: partition_dev_def amap_err_def split: if_splits)
next
  fix d r d'
  assume "inv d" "dev_flush (partition_dev D x) d = (r, d')"
  then show "inv d' \<and> (\<lambda>lba. blk d' (lba + ucast (start x))) = (\<lambda>lba. blk d (lba + ucast (start x))) \<and>
      total_blocks (partition_dev D x) d' = total_blocks (partition_dev D x) d"
    using flush_law [of d] by (cases "dev_flush D d") (auto simp: partition_dev_def amap_err_def)
next
  fix d lba b
  assume "inv d" "total_blocks (partition_dev D x) d \<le> lba"
  then show "(\<exists>e. dev_read (partition_dev D x) lba d = (Err e, d)) \<and>
      (\<exists>e. dev_write (partition_dev D x) b lba d = (Err e, d))"
    by (simp add: partition_dev_def)
qed

lemma part_is_block_device:
  "block_device (partition_dev D x) inv (\<lambda>d lba. blk d (lba + ucast (start x)))"
  by unfold_locales

text \<open>A write through the partition, whatever its outcome, touches no block outside it.\<close>

lemma partition_write_frame:
  assumes "inv d" "length b = BLOCK_SIZE" "dev_write (partition_dev D x) b lba d = (r, d')"
    and k: "unat k < unat (start x) \<or> unat (start x) + unat (sectors x) \<le> unat k"
  shows "blk d' k = blk d k"
proof (cases "ucast (sectors x) \<le> lba")
  case True
  then show ?thesis using assms(3) by (auto simp: partition_dev_def)
next
  case False
  then have lba: "unat lba < unat (sectors x)"
    by (simp add: not_le word_less_nat_alt)
  have "unat (lba + ucast (start x)) = unat lba + unat (start x)"
    using False by (intro shifted_lba) simp
  then have "k \<noteq> lba + ucast (start x)" using k lba by auto
  then show ?thesis
    using False assms write_law [of d b "lba + ucast (start x)"]
    by (cases "dev_write D b (lba + ucast (start x)) d")
      (auto simp: partition_dev_def amap_err_def)
qed

end

section \<open>Encoding of the partition table\<close>

lemma length_entry_bytes [simp]: "length (entry_bytes e) = 16"
  by (simp add: entry_bytes_def)

lemma entry_of_entry_bytes [simp]: "entry_of_bytes (entry_bytes e) = e"
  by (simp add: entry_of_bytes_def entry_bytes_def le32_bytes_def byte_codec)

lemma put_entries_frame:
  assumes "st + 16 * length es \<le> length b"
  shows "length (put_entries b st es) = length b \<and> take st (put_entries b st es) = take st b"
  using assms
proof (induction es arbitrary: b st)
  case (Cons e es)
  let ?b = "put_slice b st (entry_bytes e)"
  have len: "length ?b = length b"
    using Cons.prems by (intro length_put_slice) simp
  then have IH: "length (put_entries ?b (st + 16) es) = length b"
      "take (st + 16) (put_entries ?b (st + 16) es) = take (st + 16) ?b"
    using Cons.IH [of "st + 16" ?b] Cons.prems by auto
  have "take st (put_entries ?b (st + 16) es) = take st (take (st + 16) (put_entries ?b (st + 16) es))"
    by (simp add: min_def)
  also have "\<dots> = take st b"
    unfolding IH(2) using Cons.prems by (simp add: put_slice_def min_def)
  finally show ?case using IH(1) by simp
qed simp

lemma put_entries_nth:
  assumes "st + 16 * length es \<le> length b" "i < length es"
  shows "take 16 (drop (st + 16 * i) (put_entries b st es)) = entry_bytes (es ! i)"
  using assms
proof (induction es arbitrary: b st i)
  case (Cons e es)
  let ?b = "put_slice b st (entry_bytes e)"
  have len: "length ?b = length b"
    using Cons.prems by (intro length_put_slice) simp
  show ?case
  proof (cases i)
    case 0
    have "take (st + 16) (put_entries ?b (st + 16) es) = take (st + 16) ?b"
      using Cons.prems put_entries_frame [of "st + 16" es ?b] len by simp
    then have "take 16 (drop st (put_entries ?b (st + 16) es)) = take 16 (drop st ?b)"
      by (metis add.commute take_drop)
    with 0 Cons.prems show ?thesis using put_slice_read [of st "entry_bytes e" b] by simp
  next
    case (Suc j)
    have eq: "st + 16 * i = st + 16 + 16 * j" using Suc by simp
    have "take 16 (drop (st + 16 + 16 * j) (put_entries ?b (st + 16) es)) = entry_bytes (es ! j)"
      using Suc Cons.prems len by (intro Cons.IH) auto
    then show ?thesis unfolding eq using Suc by simp
  qed
qed simp

lemma length_put_entries_zeroed [simp]:
  "length (entries t) = 4 \<Longrightarrow> length (put_entries block_zeroed 446 (entries t)) = 512"
  using put_entries_frame [of 446 "entries t" block_zeroed] by (simp add: block_zeroed_def BLOCK_SIZE_def)

lemma length_to_block [simp]: "length (entries t) = 4 \<Longrightarrow> length (to_block t) = BLOCK_SIZE"
  by (simp add: to_block_def BLOCK_SIZE_def)

lemma to_block_signature:
  assumes "length (entries t) = 4"
  shows "drop (BLOCK_SIZE - 2) (to_block t) = [0x55, 0xAA]"
proof (rule nth_equalityI)
  fix i assume "i < length (drop (BLOCK_SIZE - 2) (to_block t))"
  then have "i = 0 \<or> i = 1" using assms by (auto simp: BLOCK_SIZE_def)
  then show "drop (BLOCK_SIZE - 2) (to_block t) ! i = [0x55, 0xAA] ! i"
    using assms by (auto simp: to_block_def BLOCK_SIZE_def nth_list_update)
qed (use assms in \<open>simp add: BLOCK_SIZE_def\<close>)

lemma block_entries_to_block [simp]:
  assumes "length (entries t) = 4"
  shows "block_entries (to_block t) = entries t"
proof (rule nth_equalityI)
  fix i assume "i < length (block_entries (to_block t))"
  then have i: "i < 4" by (simp add: block_entries_def)
  have "take (446 + 16 * i + 16) (to_block t)
      = take (446 + 16 * i + 16) (put_entries block_zeroed 446 (entries t))"
    using i unfolding to_block_def by (simp add: take_update_cancel)
  then have "take 16 (drop (446 + 16 * i) (to_block t))
      = take 16 (drop (446 + 16 * i) (put_entries block_zeroed 446 (entries t)))"
    by (metis add.commute take_drop)
  also have "\<dots> = entry_bytes (entries t ! i)"
    using assms i by (intro put_entries_nth) (auto simp: block_zeroed_def BLOCK_SIZE_def)
  finally show "block_entries (to_block t) ! i = entries t ! i"
    using i by (simp add: block_entries_def)
qed (simp add: block_entries_def assms)

section \<open>Opening a device\<close>

lemma entry_valid_alloc:
  assumes "entry_valid tot e" "part_type e \<noteq> 0"
  shows "0 < unat (start_lba e)"
    and "unat (start_lba e) + unat (num_sectors e) < unat tot"
    and "unat (start_lba e) + unat (num_sectors e) < 2 ^ 32"
proof -
  have sum: "unat ((ucast (start_lba e) :: u64) + ucast (num_sectors e))
      = unat (start_lba e) + unat (num_sectors e)"
    using unat_less_exp [of "start_lba e"] unat_less_exp [of "num_sectors e"]
    by (simp add: unat_word_ariths)
  show "0 < unat (start_lba e)"
    using assms by (auto simp: entry_valid_def extent_def Let_def unat_gt_0)
  show "unat (start_lba e) + unat (num_sectors e) < unat tot"
    using assms sum by (simp add: entry_valid_def extent_def Let_def not_le word_less_nat_alt)
  show "unat (start_lba e) + unat (num_sectors e) < 2 ^ 32"
    using assms sum by (simp add: entry_valid_def extent_def Let_def not_less word_le_nat_alt)
qed

lemma mbr_open_Ok:
  assumes "mbr_open D d = (Ok pt, d')"
  obtains mbr where "dev_read D 0 d = (Ok mbr, d')" "pt = block_entries mbr"
    "drop (BLOCK_SIZE - 2) mbr = [0x55, 0xAA]" "list_all (entry_valid (total_blocks D d')) pt"
  using assms by (auto simp: mbr_open_def abind_Ok_iff split: if_splits)

lemma get_extent_Ok:
  assumes "get_extent pt part = Ok x" "length pt = 4"
  shows "x = extent (pt ! unat part)" "pt ! unat part \<in> set pt" "part_type (pt ! unat part) \<noteq> 0"
  using assms by (auto simp: get_extent_def Let_def word_le_nat_alt not_le split: if_splits)

text \<open>Opening what \<open>create\<close> wrote: the entries decide, as the signature is there.\<close>

lemma mbr_open_of_table:
  assumes "dev_read D 0 d = (Ok (to_block t), d')" "length (entries t) = 4"
  shows "mbr_open D d = (if list_all (entry_valid (total_blocks D d')) (entries t)
                         then (Ok (entries t), d') else (Err InvalidPartExtent, d'))"
  using assms by (simp add: mbr_open_def amap_err_def abind_def to_block_signature)

lemma create_Ok_write:
  assumes "create p D t d = (Ok pt, d')"
  shows "dev_write D (to_block t) 0 d = (Ok (), d')" "pt = entries t"
    "as_slice t = [] \<or> ucast (start_lba (last (as_slice t)) + num_sectors (last (as_slice t)))
       \<le> total_blocks D d"
  using assms by (auto simp: create_def last_end_def abind_Ok_iff alift_def aret_def not_less prof_add_def
      split: if_splits dest: prof_add_Ok)

lemma length_block_entries [simp]: "length (block_entries b) = 4"
  by (simp add: block_entries_def)

lemma mbr_open_length: "mbr_open D d = (Ok pt, d') \<Longrightarrow> length pt = 4"
  by (erule mbr_open_Ok) simp

text \<open>What \<open>open\<close> followed by \<open>partition\<close> establishes of the extent.\<close>

lemma opened_extent:
  assumes "mbr_open D d = (Ok pt, d')" "get_extent pt part = Ok x"
  shows "0 < unat (start x)" "unat (start x) + unat (sectors x) < unat (total_blocks D d')"
    "unat (start x) + unat (sectors x) < 2 ^ 32"
proof -
  note e = get_extent_Ok [OF assms(2) mbr_open_length [OF assms(1)]]
  have "entry_valid (total_blocks D d') (pt ! unat part)"
    using assms(1) e(2) by (auto elim!: mbr_open_Ok simp: list_all_iff)
  note v = entry_valid_alloc [OF this e(3)]
  show "0 < unat (start x)" "unat (start x) + unat (sectors x) < unat (total_blocks D d')"
    "unat (start x) + unat (sectors x) < 2 ^ 32"
    using v e(1) by (simp_all add: extent_def)
qed

section \<open>Errors as text\<close>

fun mbr_error_display :: "('e \<Rightarrow> string) \<Rightarrow> 'e mbr_error \<Rightarrow> string" where
  "mbr_error_display show_err (Device err) = ''I/O error: '' @ show_err err"
| "mbr_error_display show_err InvalidMagic = ''MBR signature invalid''"
| "mbr_error_display show_err InvalidPartExtent = ''invalid partition entry (corrupted MBR?)''"
| "mbr_error_display show_err NoPartition = ''invalid partition index''"
| "mbr_error_display show_err OutOfRangeAccess = ''block access outside of valid range''"

section \<open>A device in memory\<close>

text \<open>
  A list of blocks, for the examples below: reads and writes out of range are errors. It is
  not part of the firmware; the eMMC card is the device the firmware uses.
\<close>

definition ram_dev :: "(bytes list, unit) blockdev" where
  "ram_dev = \<lparr>total_blocks = (\<lambda>d. of_nat (length d)),
     dev_read = (\<lambda>lba d. if unat lba < length d then (Ok (d ! unat lba), d) else (Err (), d)),
     dev_write = (\<lambda>b lba d. if unat lba < length d then (Ok (), d[unat lba := b]) else (Err (), d)),
     dev_flush = (\<lambda>d. (Ok (), d))\<rparr>"

definition ram_inv :: "bytes list \<Rightarrow> bool" where
  "ram_inv d \<longleftrightarrow> length d < 2 ^ 64 \<and> (\<forall>b \<in> set d. length b = BLOCK_SIZE)"

definition ram_blk :: "bytes list \<Rightarrow> u64 \<Rightarrow> bytes" where
  "ram_blk d lba = (if unat lba < length d then d ! unat lba else [])"

lemma ram_total: "length d < 2 ^ 64 \<Longrightarrow> lba < (of_nat (length d) :: u64) \<longleftrightarrow> unat lba < length d"
  by (simp add: word_less_nat_alt unat_of_nat take_bit_nat_eq_self)

interpretation ram: strict_block_device ram_dev ram_inv ram_blk
proof unfold_locales
  fix d lba r d' assume "ram_inv d" "dev_read ram_dev lba d = (r, d')"
  then show "ram_inv d' \<and> ram_blk d' = ram_blk d \<and> total_blocks ram_dev d' = total_blocks ram_dev d \<and>
      (\<forall>b. r = Ok b \<longrightarrow> lba < total_blocks ram_dev d \<and> b = ram_blk d lba \<and> length b = BLOCK_SIZE)"
    by (auto simp: ram_dev_def ram_inv_def ram_blk_def ram_total split: if_splits)
next
  fix d b lba r d' assume "ram_inv d" "length b = BLOCK_SIZE" "dev_write ram_dev b lba d = (r, d')"
  then show "ram_inv d' \<and> total_blocks ram_dev d' = total_blocks ram_dev d \<and>
      (\<forall>k. k \<noteq> lba \<longrightarrow> ram_blk d' k = ram_blk d k) \<and>
      (r = Ok () \<longrightarrow> lba < total_blocks ram_dev d \<and> ram_blk d' lba = b)"
    by (auto simp: ram_dev_def ram_inv_def ram_blk_def ram_total nth_list_update word_unat_eq_iff
        dest: set_update_subset_insert [THEN subsetD] split: if_splits)
next
  fix d r d' assume "ram_inv d" "dev_flush ram_dev d = (r, d')"
  then show "ram_inv d' \<and> ram_blk d' = ram_blk d \<and> total_blocks ram_dev d' = total_blocks ram_dev d"
    by (auto simp: ram_dev_def)
next
  fix d lba b assume "ram_inv d" "total_blocks ram_dev d \<le> lba"
  then show "(\<exists>e. dev_read ram_dev lba d = (Err e, d)) \<and> (\<exists>e. dev_write ram_dev b lba d = (Err e, d))"
    using ram_total [of d lba] by (auto simp: ram_dev_def ram_inv_def)
qed

section \<open>Properties\<close>


definition example_table :: partition_table where
  "example_table = \<lparr>entries = [partition_entry_new 1 2, partition_entry_zeroed,
     partition_entry_zeroed, partition_entry_zeroed], index = 0\<rparr>"

definition example_disk :: "bytes list" where
  "example_disk = replicate 8 block_zeroed"

lemma example_ok:
  "ram_inv example_disk" "length (entries example_table) = 4"
  "total_blocks ram_dev example_disk = 8"
  "create p ram_dev example_table example_disk
     = (Ok (entries example_table), example_disk[0 := to_block example_table])"
  "dev_read ram_dev 0 (example_disk[0 := to_block example_table])
     = (Ok (to_block example_table), example_disk[0 := to_block example_table])"
  "list_all (entry_valid 8) (entries example_table)"
  by (simp_all add: ram_inv_def example_disk_def example_table_def block_zeroed_def ram_dev_def
      create_def as_slice_def last_end_def amap_err_def abind_def entry_valid_def extent_def
      partition_entry_new_def partition_entry_zeroed_def word_le_nat_alt)


text \<open>
  Isolation of partitions. On a device that was opened successfully, a write through a
  partition obtained from its table, whatever its outcome, changes no block outside the
  extent of the partition; the extent lies after the MBR and ends before the device does.
\<close>

lemma partition_isolated:
  assumes "block_device D I blk" "I d" "mbr_open D d = (Ok pt, d1)"
    and "get_extent pt part = Ok x" "length b = BLOCK_SIZE"
    and "dev_write (partition_dev D x) b lba d1 = (r, d2)"
  shows "blk d2 0 = blk d1 0 \<and>
    (\<forall>k. unat k < unat (start x) \<or> unat (start x) + unat (sectors x) \<le> unat k \<longrightarrow> blk d2 k = blk d1 k) \<and>
    0 < unat (start x) \<and> unat (start x) + unat (sectors x) < unat (total_blocks D d1)"
proof -
  have part: "partition_of_device D I blk"
    using assms(1) by (simp add: partition_of_device_def)
  note x = opened_extent [OF assms(3,4)]
  from assms(3) obtain mbr where "dev_read D 0 d = (Ok mbr, d1)" by (rule mbr_open_Ok)
  then have "I d1" by (rule block_device.read_Ok(4) [OF assms(1,2)])
  note frame = partition_of_device.partition_write_frame [OF part this assms(5,6)]
  show ?thesis
    using x(1,2) frame [of 0] frame by auto
qed

definition opened_disk :: "bytes list" where
  "opened_disk = example_disk[0 := to_block example_table]"

lemma opened_disk:
  "ram_inv opened_disk" "mbr_open ram_dev opened_disk = (Ok (entries example_table), opened_disk)"
  "get_extent (entries example_table) 0 = Ok \<lparr>start = 1, sectors = 2\<rparr>"
  "length block_zeroed = BLOCK_SIZE"
  "dev_write (partition_dev ram_dev \<lparr>start = 1, sectors = 2\<rparr>) block_zeroed 1 opened_disk
     = (Ok (), opened_disk[2 := block_zeroed])"
proof -
  show "length block_zeroed = BLOCK_SIZE" by (simp add: block_zeroed_def)
  then show "ram_inv opened_disk"
    using example_ok(1,2) by (auto simp: ram_inv_def opened_disk_def example_disk_def
        dest: set_update_subset_insert [THEN subsetD])
  show "mbr_open ram_dev opened_disk = (Ok (entries example_table), opened_disk)"
    unfolding opened_disk_def using mbr_open_of_table [OF example_ok(5,2)]
    example_ok(3,6) by (simp add: ram_dev_def example_disk_def)
  show "get_extent (entries example_table) 0 = Ok \<lparr>start = 1, sectors = 2\<rparr>"
    by (simp add: get_extent_def example_table_def partition_entry_new_def extent_def word_le_nat_alt)
  show "dev_write (partition_dev ram_dev \<lparr>start = 1, sectors = 2\<rparr>) block_zeroed 1 opened_disk
     = (Ok (), opened_disk[2 := block_zeroed])"
    by (simp add: ram_dev_def partition_dev_def amap_err_def opened_disk_def example_disk_def word_le_nat_alt)
qed

lemma partition_isolated_witness:
  "ram_blk (opened_disk[2 := block_zeroed]) 0 = ram_blk opened_disk 0"
  using partition_isolated [OF ram.block_device_axioms opened_disk] by simp

text \<open>
  C7. A partition is a block device that keeps the full contract: an address at or after its
  number of sectors is an error and changes nothing, and what was written in range is read
  back, at an address of the underlying device that never wraps around.
\<close>

theorem partition_contract:
  assumes "block_device D I blk" "I d"
    and "length b = BLOCK_SIZE" "dev_write (partition_dev D x) b lba d = (w, d1)"
    and "dev_read (partition_dev D x) lba d1 = (r, d2)"
  shows "(if unat (sectors x) \<le> unat lba
          then w = Err OutOfRangeAccess \<and> r = Err OutOfRangeAccess \<and> d2 = d
          else w = Ok () \<longrightarrow> (\<forall>c. r = Ok c \<longrightarrow> c = b) \<and> blk d2 (lba + ucast (start x)) = b \<and>
               unat (lba + ucast (start x)) = unat lba + unat (start x))"
proof (cases "unat (sectors x) \<le> unat lba")
  case True
  then show ?thesis using assms(4,5) by (auto simp: partition_dev_def word_le_nat_alt)
next
  case False
  then have lba: "lba < ucast (sectors x)" by (simp add: word_less_nat_alt)
  have part: "block_device (partition_dev D x) I (\<lambda>d lba. blk d (lba + ucast (start x)))"
    using partition_of_device.part_is_block_device [of D I blk x] assms(1)
    by (simp add: partition_of_device_def)
  note w = block_device.write_law [OF part assms(2,3,4)]
  note r = block_device.read_law [OF part conjunct1 [OF w] assms(5)]
  show ?thesis
    using False shifted_lba [OF lba] w r by (auto simp: fun_eq_iff)
qed

theorem partition_contract_witness:
  "ram_blk (opened_disk[2 := block_zeroed]) 2 = block_zeroed"
proof -
  have "dev_read (partition_dev ram_dev \<lparr>start = 1, sectors = 2\<rparr>) 1 (opened_disk[2 := block_zeroed])
      = (Ok block_zeroed, opened_disk[2 := block_zeroed])"
    by (simp add: ram_dev_def partition_dev_def amap_err_def opened_disk_def example_disk_def word_le_nat_alt)
  from partition_contract [OF ram.block_device_axioms opened_disk(1,4,5) this] show ?thesis
    by simp
qed

text \<open>The checks of an entry, without the wrap-around of its 32-bit and 64-bit sums.\<close>

definition entry_inside :: "u64 \<Rightarrow> partition_entry \<Rightarrow> bool" where
  "entry_inside tot e \<longleftrightarrow>
     (let first = unat (start_lba e); after = first + unat (num_sectors e)
      in part_type e = 0 \<or> 0 < first \<and> after < unat tot \<and> after < 2 ^ 32)"

lemma entry_valid_inside: "entry_valid tot e = entry_inside tot e"
proof -
  let ?s = "ucast (start_lba e) :: u64" and ?n = "ucast (num_sectors e) :: u64"
  have sum: "unat (?s + ?n) = unat (start_lba e) + unat (num_sectors e)"
    using unat_less_exp [of "start_lba e"] unat_less_exp [of "num_sectors e"] by (simp add: unat_word_ariths)
  have "start_lba e = 0 \<longleftrightarrow> unat (start_lba e) = 0" "?s + ?n = 0 \<longleftrightarrow> unat (?s + ?n) = 0"
    by (simp_all only: unat_eq_0)
  then show ?thesis
    using sum by (auto simp: entry_valid_def entry_inside_def extent_def Let_def word_le_nat_alt word_less_nat_alt)
qed

text \<open>
  C13. Opening a disk whose first block can be read, whatever is on it: the result is \<^verbatim>\<open>InvalidMagic\<close> without the signature,
  \<^verbatim>\<open>InvalidPartExtent\<close> if an allocated partition starts at block 0 or does not end before the last block (sums that overflow
  included), and otherwise the four entries; it never panics, changes no block, and every partition it allows is
  inside of the disk and leaves the partition table alone.
\<close>

theorem mbr_open_untrusted:
  fixes D :: "('d, 'e) blockdev"
  assumes "block_device D I blk" "I d" "dev_read D 0 d = (Ok mbr, d1)"
  shows "mbr_open D d =
      (if drop 510 mbr \<noteq> [0x55, 0xAA] then Err InvalidMagic
       else if \<exists>e \<in> set (block_entries mbr). \<not> entry_inside (total_blocks D d) e then Err InvalidPartExtent
       else Ok (block_entries mbr), d1) \<and> blk d1 = blk d \<and>
    (\<forall>pt part x. mbr_open D d = (Ok pt, d1) \<and> get_extent pt part = (Ok x :: ('e mbr_error, part_extent) outcome) \<longrightarrow>
       0 < unat (start x) \<and> unat (start x) + unat (sectors x) < unat (total_blocks D d))"
proof -
  note R = block_device.read_Ok [OF assms]
  have "list_all (entry_valid (total_blocks D d1)) (block_entries mbr) \<longleftrightarrow>
      \<not> (\<exists>e \<in> set (block_entries mbr). \<not> entry_inside (total_blocks D d) e)"
    using R(6) by (auto simp: list_all_iff entry_valid_inside)
  then have "mbr_open D d = (if drop 510 mbr \<noteq> [0x55, 0xAA] then Err InvalidMagic
       else if \<exists>e \<in> set (block_entries mbr). \<not> entry_inside (total_blocks D d) e then Err InvalidPartExtent
       else Ok (block_entries mbr), d1)"
    using assms(3) by (simp add: mbr_open_def amap_err_def abind_def BLOCK_SIZE_def)
  moreover have "0 < unat (start x) \<and> unat (start x) + unat (sectors x) < unat (total_blocks D d)"
    if "mbr_open D d = (Ok pt, d1)" "get_extent pt part = (Ok x :: ('e mbr_error, part_extent) outcome)" for pt part x
    using opened_extent [OF that] R(6) by simp
  ultimately show ?thesis using R(5) by blast
qed

text \<open>A disk that was never partitioned.\<close>

theorem mbr_open_untrusted_witness:
  "mbr_open ram_dev [block_zeroed, block_zeroed] = (Err InvalidMagic, [block_zeroed, block_zeroed])"
proof -
  have i: "ram_inv [block_zeroed, block_zeroed]" by (simp add: ram_inv_def block_zeroed_def BLOCK_SIZE_def)
  have r: "dev_read ram_dev 0 [block_zeroed, block_zeroed] = (Ok block_zeroed, [block_zeroed, block_zeroed])"
    by (simp add: ram_dev_def)
  have "hd (drop 510 block_zeroed) = 0" by (simp add: block_zeroed_def BLOCK_SIZE_def)
  then have "drop 510 block_zeroed \<noteq> [0x55, 0xAA]" by auto
  then show ?thesis
    using conjunct1 [OF mbr_open_untrusted [OF ram.block_device_axioms i r]] by (simp only: if_True not_False_eq_True)
qed

fun add_all :: "profile \<Rightarrow> partition_table \<Rightarrow> partition_entry list \<Rightarrow>
    (part_error, partition_table) outcome" where
  "add_all p t [] = Ok t"
| "add_all p t (e # es) = obind (add p t e) (\<lambda>t'. add_all p t' es)"

lemma add_at_0: "index t = 0 \<Longrightarrow> length (entries t) = 4 \<Longrightarrow>
    add p t e = Ok (t\<lparr>entries := (entries t)[0 := e]\<rparr>)"
  by (simp add: add_def as_slice_def last_end_def)

lemma add_all_at_0:
  assumes "index t = 0" "length (entries t) = 4" "es \<noteq> []"
  shows "add_all p t es = Ok (t\<lparr>entries := (entries t)[0 := last es]\<rparr>)"
  using assms by (induction es arbitrary: t) (auto simp: add_at_0)

text \<open>
  \<^verbatim>\<open>PartitionTable::add\<close> never advances \<^verbatim>\<open>index\<close>: however many partitions are added to a
  new table, no call reports a collision or a full table, and only the last of them is kept,
  in the first entry.
\<close>

lemma add_keeps_last_only:
  "add_all p partition_table_new es = Ok
     (if es = [] then partition_table_new
      else \<lparr>entries = last es # replicate 3 partition_entry_zeroed, index = 0\<rparr>)"
  using add_all_at_0 [of partition_table_new es p]
  by (auto simp: partition_table_new_def numeral_eq_Suc)

text \<open>
  \<^verbatim>\<open>create\<close> does not check the extents of a table built with \<^verbatim>\<open>add\<close>: a partition that ends at
  or after the last block is written without an error, and opening the device fails.
\<close>

lemma create_accepts_what_open_rejects:
  assumes "block_device D I blk" "I d"
    and "add p partition_table_new (partition_entry_new st n) = Ok t"
    and "unat (total_blocks D d) \<le> unat st + unat n"
    and "create p D t d = (r, d1)" "dev_write D (to_block t) 0 d = (Ok (), d1)"
    and "dev_read D 0 d1 = (Ok b, d2)"
  shows "r = Ok (entries t) \<and> mbr_open D d1 = (Err InvalidPartExtent, d2)"
proof -
  have t: "t = \<lparr>entries = partition_entry_new st n # replicate 3 partition_entry_zeroed, index = 0\<rparr>"
    using assms(3) by (auto simp: partition_table_new_def add_at_0 numeral_eq_Suc)
  have r: "r = Ok (entries t)"
    using assms(5,6) t by (simp add: create_def as_slice_def last_end_def amap_err_def abind_def)
  have len: "length (to_block t) = BLOCK_SIZE" using t by simp
  note v = block_device.write_Ok [OF assms(1,2) len assms(6)]
  note rd = block_device.read_Ok [OF assms(1) v(3) assms(7)]
  have b: "b = to_block t" using rd(1) v(1) by simp
  have "unat ((ucast st :: u64) + ucast n) = unat st + unat n"
    using unat_less_exp [of st] unat_less_exp [of n] by (simp add: unat_word_ariths)
  then have "\<not> entry_valid (total_blocks D d2) (partition_entry_new st n)"
    using assms(4) rd(6) v(4)
    by (simp add: entry_valid_def partition_entry_new_def extent_def word_le_nat_alt)
  then have "\<not> list_all (entry_valid (total_blocks D d2)) (entries t)"
    using t by simp
  then show ?thesis
    using r t mbr_open_of_table [of D d1 t d2] assms(7) b by simp
qed

definition late_table :: partition_table where
  "late_table = \<lparr>entries = [partition_entry_new 4 4, partition_entry_zeroed,
     partition_entry_zeroed, partition_entry_zeroed], index = 0\<rparr>"

lemma create_accepts_what_open_rejects_witness:
  "mbr_open ram_dev (example_disk[0 := to_block late_table])
     = (Err InvalidPartExtent, example_disk[0 := to_block late_table])"
proof -
  have len: "length (to_block late_table) = BLOCK_SIZE" by (simp add: late_table_def)
  have added: "add Dev partition_table_new (partition_entry_new 4 4) = Ok late_table"
    by (simp add: add_at_0 partition_table_new_def late_table_def numeral_eq_Suc)
  have created: "create Dev ram_dev late_table example_disk
      = (Ok (entries late_table), example_disk[0 := to_block late_table])"
    by (simp add: create_def late_table_def as_slice_def last_end_def amap_err_def abind_def
        ram_dev_def example_disk_def)
  have "dev_write ram_dev (to_block late_table) 0 example_disk
        = (Ok (), example_disk[0 := to_block late_table])"
    and "dev_read ram_dev 0 (example_disk[0 := to_block late_table])
        = (Ok (to_block late_table), example_disk[0 := to_block late_table])"
    and "unat (total_blocks ram_dev example_disk) \<le> unat (4 :: u32) + unat (4 :: u32)"
    by (simp_all add: ram_dev_def example_disk_def)
  then show ?thesis
    using create_accepts_what_open_rejects
      [OF ram.block_device_axioms example_ok(1) added _ created] by blast
qed

end
