(* ===== verification/Lfs.thy ===== *)
theory Lfs
  imports Storage
begin

text \<open>
  \<^verbatim>\<open>firmware/usbarmory/src/fs.rs\<close>: a block device as the storage of littlefs2, and the file system and
  file handles around it. littlefs2 itself is not part of the repository: its calls are the
  parameter \<open>ops\<close>, a record of operations on a state (the file system and its storage).
\<close>

section \<open>The storage driver\<close>

text \<open>\<open>Lfs_code\<close> stands for the errors of \<^verbatim>\<open>littlefs2::io::Error\<close> that this code does not name.\<close>

datatype lfs_error = Io | NoSpace | Lfs_code int

definition BLOCK_COUNT :: nat where "BLOCK_COUNT = 131072"

fun read_blocks :: "('d, 'e) blockdev \<Rightarrow> nat \<Rightarrow> bytes list \<Rightarrow> ('d, lfs_error, bytes) act" where
  "read_blocks D lba [] = aret []"
| "read_blocks D lba (c # cs) =
     abind (amap_err (\<lambda>_. Io) (dev_read D (of_nat lba))) (\<lambda>b.
     abind (alift (oassert (length c = length b))) (\<lambda>_.
     abind (read_blocks D (lba + 1) cs) (\<lambda>bs.
     aret (b @ bs))))"

text \<open>The caller's buffer \<open>buf\<close>; the result is what it holds afterwards, and its length.\<close>

definition lfs_read :: "('d, 'e) blockdev \<Rightarrow> nat \<Rightarrow> bytes \<Rightarrow> ('d, lfs_error, bytes \<times> nat) act" where
  "lfs_read D off buf =
     abind (read_blocks D (off div BLOCK_SIZE) (chunks BLOCK_SIZE buf)) (\<lambda>b. aret (b, length buf))"

fun write_blocks :: "('d, 'e) blockdev \<Rightarrow> nat \<Rightarrow> bytes list \<Rightarrow> ('d, lfs_error, unit) act" where
  "write_blocks D lba [] = aret ()"
| "write_blocks D lba (c # cs) =
     abind (alift (oassert (length c = BLOCK_SIZE))) (\<lambda>_.
     abind (amap_err (\<lambda>_. Io) (dev_write D c (of_nat lba))) (\<lambda>_.
     write_blocks D (lba + 1) cs))"

definition lfs_write :: "('d, 'e) blockdev \<Rightarrow> nat \<Rightarrow> bytes \<Rightarrow> ('d, lfs_error, nat) act" where
  "lfs_write D off data =
     abind (write_blocks D (off div BLOCK_SIZE) (chunks BLOCK_SIZE data)) (\<lambda>_.
     abind (amap_err (\<lambda>_. Io) (dev_flush D)) (\<lambda>_.
     aret (length data)))"

definition lfs_erase :: "nat \<Rightarrow> nat \<Rightarrow> ('d, lfs_error, nat) act" where
  "lfs_erase off len = aret len"

section \<open>File system and files\<close>

record ('f, 'r, 's) lfs_ops =
  fs_mount :: "('s, lfs_error, unit) act"
  fs_format :: "('s, lfs_error, unit) act"
  fs_available_space :: "('s, lfs_error, nat) act"
  fs_create_dir :: "bytes \<Rightarrow> ('s, lfs_error, unit) act"
  fs_remove :: "bytes \<Rightarrow> ('s, lfs_error, unit) act"
  fs_read_dir :: "bytes \<Rightarrow> ('s, lfs_error, 'r) act"
  fs_open :: "bytes \<Rightarrow> ('s, lfs_error, 'f) act"
  fs_create :: "bytes \<Rightarrow> ('s, lfs_error, 'f) act"
  fs_seek :: "'f \<Rightarrow> nat \<Rightarrow> ('s, lfs_error, unit) act"
  fs_close :: "'f \<Rightarrow> ('s, lfs_error, unit) act"
  fs_len :: "'f \<Rightarrow> ('s, lfs_error, nat) act"
  fs_read :: "'f \<Rightarrow> nat \<Rightarrow> ('s, lfs_error, bytes) act"
  fs_write :: "'f \<Rightarrow> bytes \<Rightarrow> ('s, lfs_error, nat) act"
  fs_sync :: "'f \<Rightarrow> ('s, lfs_error, unit) act"

text \<open>\<^verbatim>\<open>mount\<close> refuses a device smaller than the file system it will use.\<close>

definition lfs_mount :: "('f, 'r, 's) lfs_ops \<Rightarrow> u64 \<Rightarrow> ('s, lfs_error, unit) act" where
  "lfs_mount ops blocks = (if blocks < of_nat BLOCK_COUNT then alift (Err NoSpace) else fs_mount ops)"

definition mount_and_then :: "('f, 'r, 's) lfs_ops \<Rightarrow> u64 \<Rightarrow> ('s, lfs_error, 'a) act \<Rightarrow> ('s, lfs_error, 'a) act" where
  "mount_and_then ops blocks f = abind (lfs_mount ops blocks) (\<lambda>_. f)"

definition file_open :: "('f, 'r, 's) lfs_ops \<Rightarrow> bytes \<Rightarrow> ('s, lfs_error, 'f) act" where
  "file_open ops path =
     abind (fs_open ops path) (\<lambda>inner.
     abind (fs_seek ops inner 0) (\<lambda>_.
     aret inner))"

definition file_create :: "('f, 'r, 's) lfs_ops \<Rightarrow> bytes \<Rightarrow> ('s, lfs_error, 'f) act" where
  "file_create ops path = fs_create ops path"

definition file_close :: "('f, 'r, 's) lfs_ops \<Rightarrow> 'f \<Rightarrow> ('s, lfs_error, unit) act" where
  "file_close ops f = fs_close ops f"

text \<open>Dropping a file that was not closed: an error is a panic.\<close>

definition file_drop :: "('f, 'r, 's) lfs_ops \<Rightarrow> 'f \<Rightarrow> ('s, lfs_error, unit) act" where
  "file_drop ops f = (\<lambda>s. case fs_close ops f s of
     (Err e, s') \<Rightarrow> (Panic, s')
   | (r, s') \<Rightarrow> (r, s'))"

text \<open>\<^verbatim>\<open>open_and_then\<close>: an error of the close takes precedence over the closure's result.\<close>

definition open_and_then :: "('f, 'r, 's) lfs_ops \<Rightarrow> bytes \<Rightarrow> ('f \<Rightarrow> ('s, lfs_error, 'a) act) \<Rightarrow> ('s, lfs_error, 'a) act" where
  "open_and_then ops path f =
     abind (file_open ops path) (\<lambda>file. \<lambda>s. case f file s of
       (Ok a, s') \<Rightarrow> abind (file_close ops file) (\<lambda>_. aret a) s'
     | (Err e, s') \<Rightarrow> abind (file_close ops file) (\<lambda>_. alift (Err e)) s'
     | (r, s') \<Rightarrow> (r, s'))"

text \<open>\<^verbatim>\<open>create_and_then\<close>: an error of the closure returns at once, which drops the file.\<close>

definition create_and_then :: "('f, 'r, 's) lfs_ops \<Rightarrow> bytes \<Rightarrow> ('f \<Rightarrow> ('s, lfs_error, 'a) act) \<Rightarrow> ('s, lfs_error, 'a) act" where
  "create_and_then ops path f =
     abind (file_create ops path) (\<lambda>file. \<lambda>s. case f file s of
       (Ok a, s') \<Rightarrow> abind (file_close ops file) (\<lambda>_. aret a) s'
     | (Err e, s') \<Rightarrow> abind (file_drop ops file) (\<lambda>_. alift (Err e)) s'
     | (r, s') \<Rightarrow> (r, s'))"

text \<open>The other calls take the borrow of the file system and of its storage and pass on their arguments.\<close>

definition lfs_format :: "('f, 'r, 's) lfs_ops \<Rightarrow> ('s, lfs_error, unit) act" where
  "lfs_format ops = fs_format ops"

definition available_space :: "('f, 'r, 's) lfs_ops \<Rightarrow> ('s, lfs_error, u64) act" where
  "available_space ops = abind (fs_available_space ops) (\<lambda>space. aret (of_nat space))"

definition create_dir :: "('f, 'r, 's) lfs_ops \<Rightarrow> bytes \<Rightarrow> ('s, lfs_error, unit) act" where
  "create_dir ops path = fs_create_dir ops path"

definition remove_path :: "('f, 'r, 's) lfs_ops \<Rightarrow> bytes \<Rightarrow> ('s, lfs_error, unit) act" where
  "remove_path ops path = fs_remove ops path"

definition read_dir :: "('f, 'r, 's) lfs_ops \<Rightarrow> bytes \<Rightarrow> ('s, lfs_error, 'r) act" where
  "read_dir ops path = fs_read_dir ops path"

definition file_len :: "('f, 'r, 's) lfs_ops \<Rightarrow> 'f \<Rightarrow> ('s, lfs_error, nat) act" where
  "file_len ops f = fs_len ops f"

definition file_read :: "('f, 'r, 's) lfs_ops \<Rightarrow> 'f \<Rightarrow> nat \<Rightarrow> ('s, lfs_error, bytes) act" where
  "file_read ops f n = fs_read ops f n"

definition file_write :: "('f, 'r, 's) lfs_ops \<Rightarrow> 'f \<Rightarrow> bytes \<Rightarrow> ('s, lfs_error, nat) act" where
  "file_write ops f buf = fs_write ops f buf"

definition file_sync :: "('f, 'r, 's) lfs_ops \<Rightarrow> 'f \<Rightarrow> ('s, lfs_error, unit) act" where
  "file_sync ops f = fs_sync ops f"

text \<open>
  \<^verbatim>\<open>open_and_then\<close> and \<^verbatim>\<open>create_and_then\<close> differ when both the closure and the close fail: the first
  returns the error of the close, the second panics.
\<close>

lemma both_fail:
  assumes "f file s = (Err e, s1)" "fs_close ops file s1 = (Err e', s2)"
  shows "fs_open ops path s0 = (Ok file, s') \<Longrightarrow> fs_seek ops file 0 s' = (Ok (), s) \<Longrightarrow>
      open_and_then ops path f s0 = (Err e', s2)"
    and "fs_create ops path s0 = (Ok file, s) \<Longrightarrow> create_and_then ops path f s0 = (Panic, s2)"
  using assms
  by (simp_all add: open_and_then_def create_and_then_def file_open_def file_create_def file_close_def
      file_drop_def abind_def)

section \<open>What was written is read back\<close>

lemma length_chunks_le: "length (chunks n xs) \<le> length xs"
proof (induction n xs rule: chunks.induct)
  case (1 n xs)
  then show ?case by (subst chunks.simps) (cases xs; cases n; auto)
qed

context block_device
begin

definition region :: "'d \<Rightarrow> nat \<Rightarrow> nat \<Rightarrow> bytes" where
  "region d lba n = concat (map (\<lambda>i. blk d (of_nat (lba + i))) [0..<n])"

lemma region_Suc: "region d lba (Suc n) = blk d (of_nat lba) @ region d (lba + 1) n"
proof -
  have "map (\<lambda>i. blk d (of_nat (lba + i))) [0..<Suc n] =
      blk d (of_nat lba) # map (\<lambda>i. blk d (of_nat (lba + 1 + i))) [0..<n]"
    unfolding upt_conv_Cons [OF zero_less_Suc] map_Suc_upt [symmetric] by (simp add: ac_simps)
  then show ?thesis by (simp only: region_def concat.simps)
qed

lemma read_blocks_Ok:
  assumes "inv d" "read_blocks D lba cs d = (Ok b, d')"
  shows "inv d' \<and> blk d' = blk d \<and> b = region d lba (length cs) \<and> (\<forall>c \<in> set cs. length c = BLOCK_SIZE)"
  using assms
proof (induction cs arbitrary: lba d b)
  case Nil
  then show ?case by (simp add: region_def)
next
  case (Cons c cs)
  then obtain x y d1 where x: "dev_read D (of_nat lba) d = (Ok x, d1)" "length c = length x"
      and y: "read_blocks D (lba + 1) cs d1 = (Ok y, d')" and b: "b = x @ y"
    by (auto simp: abind_Ok_iff oassert_def split: if_splits)
  note r = read_Ok [OF Cons.prems(1) x(1)]
  from Cons.IH [OF r(4) y] show ?case
    using r x(2) b region_Suc [of d] by (simp add: region_def)
qed

lemma write_blocks_Ok:
  assumes "inv d" "lba + length cs \<le> 2 ^ 64" "write_blocks D lba cs d = (Ok (), d')"
  shows "inv d' \<and> total_blocks D d' = total_blocks D d \<and> (\<forall>c \<in> set cs. length c = BLOCK_SIZE) \<and>
    region d' lba (length cs) = concat cs \<and>
    (\<forall>k. unat k < lba \<or> lba + length cs \<le> unat k \<longrightarrow> blk d' k = blk d k) \<and>
    (cs \<noteq> [] \<longrightarrow> lba + length cs \<le> unat (total_blocks D d))"
  using assms
proof (induction cs arbitrary: lba d)
  case Nil
  then show ?case by (simp add: region_def)
next
  case (Cons c cs)
  then obtain d1 where c: "length c = BLOCK_SIZE" and w: "dev_write D c (of_nat lba) d = (Ok (), d1)"
      and r: "write_blocks D (lba + 1) cs d1 = (Ok (), d')"
    by (auto simp: abind_Ok_iff oassert_def split: if_splits)
  note 1 = write_Ok [OF Cons.prems(1) c w]
  have n: "unat (of_nat lba :: u64) = lba"
    using Cons.prems(2) unat_of_nat_small [of lba, where 'a = 64] by simp
  have 2: "inv d' \<and> total_blocks D d' = total_blocks D d1 \<and> (\<forall>c \<in> set cs. length c = BLOCK_SIZE) \<and>
    region d' (lba + 1) (length cs) = concat cs \<and>
    (\<forall>k. unat k < lba + 1 \<or> lba + 1 + length cs \<le> unat k \<longrightarrow> blk d' k = blk d1 k) \<and>
    (cs \<noteq> [] \<longrightarrow> lba + 1 + length cs \<le> unat (total_blocks D d1))"
    by (rule Cons.IH [OF 1(3) _ r]) (use Cons.prems(2) in simp)
  have "blk d' (of_nat lba) = c" using 1(1) 2 n by simp
  then have region: "region d' lba (length (c # cs)) = concat (c # cs)"
    using region_Suc [of d' lba] 2 by simp
  have "lba < unat (total_blocks D d)" using 1(2) n by (simp add: word_less_nat_alt)
  then show ?case
    using 1 2 c n region by (auto simp: word_unat_eq_iff)
qed

lemma length_whole_chunks:
  assumes "\<forall>c \<in> set (chunks BLOCK_SIZE xs). length c = BLOCK_SIZE"
  shows "length (xs :: bytes) = BLOCK_SIZE * length (chunks BLOCK_SIZE xs)"
proof -
  have "length (concat cs) = k * length cs" if "\<forall>c \<in> set cs. length c = k" for k and cs :: "bytes list"
    using that by (induction cs) auto
  then show ?thesis using assms concat_chunks [of BLOCK_SIZE xs] by (metis BLOCK_SIZE_def zero_less_numeral)
qed

text \<open>A \<^verbatim>\<open>write\<close> that succeeds puts the data in its blocks, which are all on the device, and in no other.\<close>

lemma lfs_write_Ok:
  assumes "inv d" "off + length data \<le> 2 ^ 32" "lfs_write D off data d = (Ok n, d1)"
  shows "inv d1" "n = length data" "length data = BLOCK_SIZE * length (chunks BLOCK_SIZE data)"
    "region d1 (off div BLOCK_SIZE) (length (chunks BLOCK_SIZE data)) = data"
    "unat k < off div BLOCK_SIZE \<or> off div BLOCK_SIZE + length (chunks BLOCK_SIZE data) \<le> unat k \<Longrightarrow> blk d1 k = blk d k"
    "data \<noteq> [] \<Longrightarrow> off div BLOCK_SIZE + length (chunks BLOCK_SIZE data) \<le> unat (total_blocks D d)"
proof -
  let ?cs = "chunks BLOCK_SIZE data" and ?lba = "off div BLOCK_SIZE"
  from assms(3) obtain d' where w: "write_blocks D ?lba ?cs d = (Ok (), d')" and f: "dev_flush D d' = (Ok (), d1)"
      and n: "n = length data"
    by (auto simp: lfs_write_def abind_Ok_iff)
  have "?lba + length ?cs \<le> 2 ^ 64" using assms(2) length_chunks_le [of BLOCK_SIZE data] by (simp add: BLOCK_SIZE_def)
  note W = write_blocks_Ok [OF assms(1) this w]
  have F: "inv d1" "blk d1 = blk d'" using flush_law [OF _ f] W by auto
  have l: "length data = BLOCK_SIZE * length ?cs" using length_whole_chunks W by blast
  have cat: "concat ?cs = data" by (simp add: BLOCK_SIZE_def)
  show "inv d1" "n = length data" "length data = BLOCK_SIZE * length ?cs" using F n l by simp_all
  show "region d1 ?lba (length ?cs) = data" using W F(2) cat by (simp add: region_def)
  show "unat k < ?lba \<or> ?lba + length ?cs \<le> unat k \<Longrightarrow> blk d1 k = blk d k" using W F(2) by auto
  have "?cs \<noteq> []" if "data \<noteq> []" using that l by auto
  then show "data \<noteq> [] \<Longrightarrow> ?lba + length ?cs \<le> unat (total_blocks D d)" using W by blast
qed

lemma lfs_write_then_read:
  assumes "inv d" "off + length data \<le> 2 ^ 32" "length buf = length data"
    and "lfs_write D off data d = (Ok n, d1)" "lfs_read D off buf d1 = (Ok (b, m), d2)"
  shows "b = data \<and> n = length data \<and> m = length data \<and> 512 dvd length data \<and>
    (\<forall>k. unat k < off div 512 \<or> off div 512 + length data div 512 \<le> unat k \<longrightarrow> blk d2 k = blk d k) \<and>
    (data \<noteq> [] \<longrightarrow> off div 512 + length data div 512 \<le> unat (total_blocks D d))"
proof -
  let ?cs = "chunks BLOCK_SIZE data" and ?lba = "off div BLOCK_SIZE"
  note W = lfs_write_Ok [OF assms(1,2,4)]
  from assms(5) obtain r: "read_blocks D ?lba (chunks BLOCK_SIZE buf) d1 = (Ok b, d2)" and m: "m = length buf"
    by (auto simp: lfs_read_def abind_Ok_iff)
  note R = read_blocks_Ok [OF W(1) r]
  have "length buf = BLOCK_SIZE * length (chunks BLOCK_SIZE buf)" using length_whole_chunks R by blast
  then have "length (chunks BLOCK_SIZE buf) = length ?cs" using assms(3) W(3) by (simp add: BLOCK_SIZE_def)
  then have "b = data" using R W(4) by (simp add: region_def)
  moreover have "length data div 512 = length ?cs" "512 dvd length data" using W(3) by (simp_all add: BLOCK_SIZE_def)
  ultimately show ?thesis
    using m assms(3) W(2,5,6) R by (auto simp: BLOCK_SIZE_def)
qed

end

text \<open>
  C21. What littlefs writes is read back: after a \<^verbatim>\<open>write\<close> at an offset that succeeds, a \<^verbatim>\<open>read\<close> at the
  same offset that succeeds gives the data, on any device that keeps the contract of a block device (a
  partition of the eMMC is one); both report the full length; the write was of whole blocks within the
  device and changed no other block.
\<close>

theorem lfs_write_read_roundtrip:
  assumes "block_device D dinv blk" "dinv d" "off + length data \<le> 2 ^ 32" "length buf = length data"
    and "lfs_write D off data d = (Ok n, d1)" "lfs_read D off buf d1 = (Ok (b, m), d2)"
  shows "b = data \<and> n = length data \<and> m = length data \<and> 512 dvd length data \<and>
    (\<forall>k. unat k < off div 512 \<or> off div 512 + length data div 512 \<le> unat k \<longrightarrow> blk d2 k = blk d k) \<and>
    (data \<noteq> [] \<longrightarrow> off div 512 + length data div 512 \<le> unat (total_blocks D d))"
  by (rule block_device.lfs_write_then_read [OF assms])

definition blank_disk :: "bytes list" where
  "blank_disk = replicate 4 (replicate 512 0)"

lemma ram_device: "block_device ram_dev ram_inv ram_blk" by (rule ram.block_device_axioms)

theorem lfs_write_read_roundtrip_witness:
  "\<exists>d1 d2. lfs_write ram_dev 512 (replicate 512 7) blank_disk = (Ok 512, d1) \<and>
     lfs_read ram_dev 512 (replicate 512 0) d1 = (Ok (replicate 512 7, 512), d2) \<and> ram_blk d2 0 = replicate 512 0"
proof -
  have ch: "chunks 512 (replicate 512 (x :: u8)) = [replicate 512 x]" for x
    by (rule chunks_short) simp_all
  let ?d1 = "blank_disk[1 := replicate 512 7]"
  have w: "lfs_write ram_dev 512 (replicate 512 7) blank_disk = (Ok 512, ?d1)"
    by (simp add: lfs_write_def ch BLOCK_SIZE_def ram_dev_def abind_def amap_err_def blank_disk_def)
  have r: "lfs_read ram_dev 512 (replicate 512 0) ?d1 = (Ok (replicate 512 7, 512), ?d1)"
    by (simp add: lfs_read_def ch BLOCK_SIZE_def ram_dev_def abind_def amap_err_def blank_disk_def)
  have i: "ram_inv blank_disk" by (simp add: ram_inv_def blank_disk_def BLOCK_SIZE_def)
  have "ram_blk ?d1 0 = ram_blk blank_disk 0"
    using lfs_write_read_roundtrip [OF ram_device i _ _ w r] by simp
  then show ?thesis using w r by (auto simp: ram_blk_def blank_disk_def)
qed

end
