(* ===== verification/EmmcCmd.thy ===== *)
theory EmmcCmd
  imports Prelude
begin

text \<open>
  The eMMC commands of \<^verbatim>\<open>firmware/usbarmory/src/emmc/cmd.rs\<close> and the card status of
  \<^verbatim>\<open>emmc/card.rs\<close>: pure encodings and decodings.
\<close>

section \<open>Commands\<close>

text \<open>A relative card address is a \<^verbatim>\<open>NonZeroU16\<close>.\<close>

type_synonym rca = u16

datatype emmc_command =
    GoIdleState
  | SendOpCond u32
  | AllSendCid
  | SetRelativeAddr rca
  | Switch u32
  | SelectCard "rca option"
  | SendExtCsd
  | SendCsd rca
  | SendStatus rca
  | SetBlockLen u32
  | ReadSingleBlock u32
  | WriteSingleBlock u32

datatype command_type = BC | BCR | AC | ADTC

datatype response = RNone | R1 | R1b | R2 | R3 | R4 | R5 | R6

fun index_type_arg_resp :: "emmc_command \<Rightarrow> u8 \<times> command_type \<times> u32 \<times> response" where
  "index_type_arg_resp GoIdleState = (0, BC, 0, RNone)"
| "index_type_arg_resp (SendOpCond ocr) = (1, BCR, ocr AND NOT (push_bit 31 1), R3)"
| "index_type_arg_resp AllSendCid = (2, BCR, 0, R2)"
| "index_type_arg_resp (SetRelativeAddr rca) = (3, AC, push_bit 16 (ucast rca), R1)"
| "index_type_arg_resp (Switch d) = (6, AC, d, R1b)"
| "index_type_arg_resp (SelectCard rca) =
     (7, AC, push_bit 16 (ucast (case rca of None \<Rightarrow> 0 | Some nz \<Rightarrow> nz)), R1)"
| "index_type_arg_resp SendExtCsd = (8, ADTC, 0, R1)"
| "index_type_arg_resp (SendCsd rca) = (9, AC, push_bit 16 (ucast rca), R2)"
| "index_type_arg_resp (SendStatus rca) = (13, AC, push_bit 16 (ucast rca), R1)"
| "index_type_arg_resp (SetBlockLen len) = (16, AC, len, R1)"
| "index_type_arg_resp (ReadSingleBlock block_nr) = (17, ADTC, block_nr, R1)"
| "index_type_arg_resp (WriteSingleBlock block_nr) = (24, ADTC, block_nr, R1)"

definition cmd_index :: "emmc_command \<Rightarrow> u8" where
  "cmd_index c = fst (index_type_arg_resp c)"

definition cmd_type :: "emmc_command \<Rightarrow> command_type" where
  "cmd_type c = fst (snd (index_type_arg_resp c))"

definition cmd_arg :: "emmc_command \<Rightarrow> u32" where
  "cmd_arg c = fst (snd (snd (index_type_arg_resp c)))"

definition cmd_response :: "emmc_command \<Rightarrow> response" where
  "cmd_response c = snd (snd (snd (index_type_arg_resp c)))"

definition cmdtyp :: "emmc_command \<Rightarrow> ('e, u8) outcome" where
  "cmdtyp c = obind (oassert (cmd_index c \<noteq> 52)) (\<lambda>_. Ok (if cmd_index c = 12 then 3 else 0))"

definition data_present :: "emmc_command \<Rightarrow> bool" where
  "data_present c \<longleftrightarrow> cmd_type c = ADTC"

definition uses_data_line :: "emmc_command \<Rightarrow> bool" where
  "uses_data_line c \<longleftrightarrow> data_present c \<or> cmd_response c = R1b"

fun resp_cicen_cccen :: "response \<Rightarrow> u8 \<times> u8 \<times> u8" where
  "resp_cicen_cccen RNone = (0, 0, 0)"
| "resp_cicen_cccen R2 = (1, 0, 1)"
| "resp_cicen_cccen R3 = (2, 0, 0)"
| "resp_cicen_cccen R4 = (2, 0, 0)"
| "resp_cicen_cccen R1 = (2, 1, 1)"
| "resp_cicen_cccen R5 = (2, 1, 1)"
| "resp_cicen_cccen R6 = (2, 1, 1)"
| "resp_cicen_cccen R1b = (3, 1, 1)"

definition response_type :: "emmc_command \<Rightarrow> u8" where
  "response_type c = fst (resp_cicen_cccen (cmd_response c))"

definition cicen :: "emmc_command \<Rightarrow> bool" where
  "cicen c \<longleftrightarrow> fst (snd (resp_cicen_cccen (cmd_response c))) = 1"

definition cccen :: "emmc_command \<Rightarrow> bool" where
  "cccen c \<longleftrightarrow> snd (snd (resp_cicen_cccen (cmd_response c))) = 1"

section \<open>Card status\<close>

datatype card_state =
  Idle | Ready | Identification | Standby | Transfer | SendingData | ReceiveData | Programming | OtherState

record status =
  bits :: u32
  state :: card_state
  address_out_of_range :: bool
  address_misalign :: bool
  block_len_error :: bool
  erase_seq_error :: bool
  erase_param :: bool
  wp_violation :: bool
  lock_unlock_failed :: bool
  com_crc_error :: bool
  illegal_command :: bool
  card_ecc_failed :: bool
  cc_error :: bool
  general_error :: bool
  underrun :: bool
  overrun :: bool
  cid_csd_overwrite :: bool
  wp_erase_skip :: bool
  erase_reset :: bool
  switch_error :: bool
  card_is_locked :: bool
  ready_for_data :: bool
  urgent_bkops :: bool
  app_cmd :: bool

definition card_state_of :: "u32 \<Rightarrow> card_state" where
  "card_state_of b =
     (let s = drop_bit 9 b AND 15 in
      if s = 0 then Idle else if s = 1 then Ready else if s = 2 then Identification
      else if s = 3 then Standby else if s = 4 then Transfer else if s = 5 then SendingData
      else if s = 6 then ReceiveData else if s = 7 then Programming else OtherState)"

text \<open>The positions of the error bits, in the order of the \<^verbatim>\<open>status!\<close> invocation.\<close>

definition error_positions :: "nat list" where
  "error_positions = [31, 30, 29, 28, 27, 26, 24, 23, 22, 21, 20, 19, 18, 17, 16, 15, 13, 7]"

definition error_mask :: u32 where
  "error_mask = foldr (\<lambda>e m. push_bit e 1 OR m) error_positions 0"

definition status_of :: "u32 \<Rightarrow> status" where
  "status_of b =
     \<lparr>bits = b, state = card_state_of b,
      address_out_of_range = bit b 31, address_misalign = bit b 30, block_len_error = bit b 29,
      erase_seq_error = bit b 28, erase_param = bit b 27, wp_violation = bit b 26,
      lock_unlock_failed = bit b 24, com_crc_error = bit b 23, illegal_command = bit b 22,
      card_ecc_failed = bit b 21, cc_error = bit b 20, general_error = bit b 19, underrun = bit b 18,
      overrun = bit b 17, cid_csd_overwrite = bit b 16, wp_erase_skip = bit b 15, erase_reset = bit b 13,
      switch_error = bit b 7, card_is_locked = bit b 25, ready_for_data = bit b 8,
      urgent_bkops = bit b 6, app_cmd = bit b 5\<rparr>"

definition status_from :: "u32 \<Rightarrow> (status, status) outcome" where
  "status_from b = (if b AND error_mask \<noteq> 0 then Err (status_of b) else Ok (status_of b))"

section \<open>Card specific data\<close>

record csd =
  read_block_size_log2 :: u8
  csd_size :: u16
  size_mult :: u8
  spec_vers :: u8
  write_block_size_log2 :: u8

text \<open>\<open>extract rsps offset mask\<close>: the response registers hold the CSD without its lowest 8 bits.\<close>

definition csd_extract :: "u32 list \<Rightarrow> nat \<Rightarrow> u32 \<Rightarrow> u32" where
  "csd_extract rsps off msk = (let o' = off - 8 in drop_bit (o' mod 32) (rsps ! (o' div 32)) AND msk)"

definition csd_from :: "u32 list \<Rightarrow> csd" where
  "csd_from rsps =
     \<lparr>read_block_size_log2 = ucast (csd_extract rsps 80 15),
      csd_size = ucast (csd_extract rsps 62 (push_bit 12 1 - 1)),
      size_mult = ucast (csd_extract rsps 47 7),
      spec_vers = ucast (csd_extract rsps 122 15),
      write_block_size_log2 = ucast (csd_extract rsps 22 15)\<rparr>"

end
