(* ===== verification/Mmio.thy ===== *)
theory Mmio
  imports Prelude "HOL-Library.While_Combinator" "HOL-Library.Sublist"
begin

text \<open>
  Memory-mapped registers. The firmware and the hardware meet in the sequence of accesses the
  firmware makes, the trace (newest access first). The hardware is a parameter: what a read
  returns and what a DMA transfer has left in memory is a function of the whole trace so far,
  so any device, however it behaves, is an instance. A loop that polls the hardware may never
  end; its outcome is then \<open>Hang\<close>. Log output (\<^verbatim>\<open>memlog!\<close>, \<^verbatim>\<open>memlog_try_flush\<close>) is left out
  of the traces, and \<^verbatim>\<open>memlog_flush_and_reset!\<close> is the outcome \<open>Reset\<close>.
\<close>

section \<open>Registers and traces\<close>

datatype snvs_reg = RTCMR | RTCLR | HPCR

datatype usdhc_reg =
    DS_ADDR | BLK_ATT | CMD_ARG | CMD_XFR_TYP | CMD_RSP0 | CMD_RSP1 | CMD_RSP2 | CMD_RSP3
  | PRES_STATE | PROT_CTRL | SYS_CTRL | INT_STATUS | WTMK_LVL | MIX_CTRL | VEND_SPEC

datatype dcp_reg =
    CONTEXT | VERSION | CAPABILITY1 | STAT | CHANNELCTRL_SET | CHANNELCTRL_CLR | KEY | KEYDATA
  | CHCMDPTR nat | CHSEMA nat | CHSTAT nat

datatype rng_reg = RNG_VER | RNG_CMD | RNG_CR | RNG_SR | RNG_ESR | RNG_OUT

datatype usb_reg =
    USBCMD | USBSTS | USBINTR | USBMODE | DEVICEADDR | ENDPTLISTADDR | ENDPTSETUPSTAT | ENDPTPRIME
  | ENDPTFLUSH | ENDPTCOMPLETE | ENDPTCTRL1 | PORTSC1 | OTGSC | PLL_USB1 | PLL_USB1_SET | PLL_USB1_CLR
  | PHY_CTRL_SET | PHY_CTRL_CLR | PHY_PWD_CLR | USB1_CHRG_DETECT_SET

datatype uart_reg =
    URXD | UTXD | UCR1 | UCR2 | UCR3 | UCR4 | UFCR | USR1 | USR2 | UBIR | UBMR | UTS | UMCR

datatype i2c_reg = IFDR | I2CR | I2SR | I2DR

datatype gpio_reg = GDIR | GPIO_DR

datatype soc_reg = CCGR0 | CCGR2 | I2C1_SCL_SELECT_INPUT | I2C1_SDA_SELECT_INPUT | WCR

text \<open>Any other register, by its address.\<close>

datatype reg =
    Snvs snvs_reg | Usdhc usdhc_reg | Dcp dcp_reg | Rng rng_reg | Usb usb_reg | Uart uart_reg
  | I2c i2c_reg | Gpio gpio_reg | Soc soc_reg | Reg u32

datatype event =
    Rd reg u32
  | Wr reg u32
  | Mem u32 bytes

type_synonym trace = "event list"

text \<open>
  \<open>Mem a b\<close> notes that memory from address \<open>a\<close> on, with the contents \<open>b\<close>, is handed over to a
  peripheral; \<open>dma_memory tr a n\<close> is what the \<open>n\<close> bytes there are after the accesses \<open>tr\<close>.
\<close>

record hw =
  answer :: "trace \<Rightarrow> reg \<Rightarrow> u32"
  dma_memory :: "trace \<Rightarrow> u32 \<Rightarrow> nat \<Rightarrow> bytes"

type_synonym ('e, 'a) io = "(trace, 'e, 'a) act"

definition rd :: "hw \<Rightarrow> reg \<Rightarrow> ('e, u32) io" where
  "rd hw r = (\<lambda>tr. (Ok (answer hw tr r), Rd r (answer hw tr r) # tr))"

definition wr :: "reg \<Rightarrow> u32 \<Rightarrow> ('e, unit) io" where
  "wr r v = (\<lambda>tr. (Ok (), Wr r v # tr))"

definition rmw :: "hw \<Rightarrow> reg \<Rightarrow> (u32 \<Rightarrow> u32) \<Rightarrow> ('e, unit) io" where
  "rmw hw r f = abind (rd hw r) (\<lambda>v. wr r (f v))"

definition hand_over :: "u32 \<Rightarrow> bytes \<Rightarrow> ('e, unit) io" where
  "hand_over a b = (\<lambda>tr. (Ok (), Mem a b # tr))"

section \<open>Loops\<close>

definition loop_step :: "('b \<Rightarrow> ('s, 'e, 'b + 'a) act) \<Rightarrow> ('e, 'b + 'a) outcome \<times> 's \<Rightarrow> ('e, 'b + 'a) outcome \<times> 's" where
  "loop_step body = (\<lambda>(r, s). case r of Ok (Inl b) \<Rightarrow> body b s | _ \<Rightarrow> (r, s))"

definition goes_on :: "('e, 'b + 'a) outcome \<times> 's \<Rightarrow> bool" where
  "goes_on = (\<lambda>(r, s). case r of Ok (Inl b) \<Rightarrow> True | _ \<Rightarrow> False)"

definition loop_result :: "('e, 'b + 'a) outcome \<Rightarrow> ('e, 'a) outcome" where
  "loop_result r = obind r (\<lambda>x. case x of Inl b \<Rightarrow> Hang | Inr a \<Rightarrow> Ok a)"

text \<open>
  \<open>aloop body b\<close> repeats \<open>body\<close> from \<open>b\<close>: \<open>Inl\<close> continues, \<open>Inr\<close> breaks, and any outcome other
  than \<open>Ok\<close> leaves the loop. When the loop never ends there is no last state; \<open>Hang\<close> is then
  paired with the state the loop was entered in.
\<close>

definition aloop :: "('b \<Rightarrow> ('s, 'e, 'b + 'a) act) \<Rightarrow> 'b \<Rightarrow> ('s, 'e, 'a) act" where
  "aloop body b = (\<lambda>s.
     case while_option goes_on (loop_step body) (Ok (Inl b), s) of
       None \<Rightarrow> (Hang, s)
     | Some (r, s') \<Rightarrow> (loop_result r, s'))"

text \<open>\<^verbatim>\<open>while !p(register) {}\<close>.\<close>

definition await :: "hw \<Rightarrow> reg \<Rightarrow> (u32 \<Rightarrow> bool) \<Rightarrow> ('e, unit) io" where
  "await hw r p = aloop (\<lambda>_. abind (rd hw r) (\<lambda>v. aret (if p v then Inr () else Inl ()))) ()"

lemma goes_on_simps [simp]:
  "goes_on (Ok (Inl b), s)" "\<not> goes_on (Ok (Inr a), s)" "\<not> goes_on (Err e, s)" "\<not> goes_on (Panic, s)"
  "\<not> goes_on (Reset, s)" "\<not> goes_on (Hang, s)"
  by (simp_all add: goes_on_def)

lemma loop_result_simps [simp]:
  "loop_result (Ok (Inr a)) = Ok a" "loop_result (Err e) = Err e" "loop_result Panic = Panic"
  "loop_result Reset = Reset" "loop_result Hang = Hang"
  by (simp_all add: loop_result_def)

lemmas aloop_alt = aloop_def [THEN fun_cong]

lemma aloop_stop:
  assumes "body b s = (r, s')" "\<And>b'. r \<noteq> Ok (Inl b')"
  shows "aloop body b s = (loop_result r, s')"
proof -
  have "\<not> goes_on (r, s')" using assms(2) by (cases r) (auto simp: goes_on_def split: sum.splits)
  moreover have "loop_step body (Ok (Inl b), s) = (r, s')"
    using assms(1) by (simp add: loop_step_def)
  ultimately show ?thesis
    by (simp add: aloop_alt while_option_unfold [of goes_on "loop_step body" "(Ok (Inl b), s)"]
        while_option_unfold [of goes_on "loop_step body" "(r, s')"])
qed

lemma aloop_break: "body b s = (Ok (Inr a), s') \<Longrightarrow> aloop body b s = (Ok a, s')"
  using aloop_stop [of body b s "Ok (Inr a)" s'] by simp

lemma aloop_err: "body b s = (Err e, s') \<Longrightarrow> aloop body b s = (Err e, s')"
  using aloop_stop [of body b s "Err e" s'] by simp

lemma aloop_continue:
  assumes "body b s = (Ok (Inl b'), s')" "aloop body b' s' = (r, s'')" "r \<noteq> Hang"
  shows "aloop body b s = (r, s'')"
proof -
  have "while_option goes_on (loop_step body) (Ok (Inl b), s)
      = while_option goes_on (loop_step body) (Ok (Inl b'), s')"
    by (subst while_option_unfold) (simp add: loop_step_def assms(1))
  then show ?thesis
    using assms(2,3) by (auto simp: aloop_alt split: option.splits)
qed

text \<open>
  Rule for loops: an invariant that holds on entry and is kept by every continuing round holds
  before the last round.
\<close>

lemma aloop_last:
  assumes "aloop body b s = (r, s')" "r \<noteq> Hang" "P b s"
    and step: "\<And>b s b' s'. P b s \<Longrightarrow> body b s = (Ok (Inl b'), s') \<Longrightarrow> P b' s'"
  obtains b1 s1 r1 where "P b1 s1" "body b1 s1 = (r1, s')" "r = loop_result r1" "\<And>b'. r1 \<noteq> Ok (Inl b')"
proof -
  let ?I = "\<lambda>x. (goes_on x \<longrightarrow> (\<exists>b s. x = (Ok (Inl b), s) \<and> P b s)) \<and>
      (\<not> goes_on x \<longrightarrow> (\<exists>b1 s1. P b1 s1 \<and> body b1 s1 = x))"
  from assms(1,2) obtain r1 where w: "while_option goes_on (loop_step body) (Ok (Inl b), s) = Some (r1, s')"
      and r: "r = loop_result r1"
    by (auto simp: aloop_alt split: option.splits)
  have "?I (r1, s')"
  proof (rule while_option_rule [OF _ w])
    show "?I (Ok (Inl b), s)" using assms(3) by simp
    fix x assume I: "?I x" and "goes_on x"
    then obtain b s where x: "x = (Ok (Inl b), s)" "P b s" by blast
    then have ls: "loop_step body x = body b s" by (simp add: loop_step_def)
    show "?I (loop_step body x)"
    proof (cases "goes_on (body b s)")
      case True
      then obtain b' s' where "body b s = (Ok (Inl b'), s')"
        by (auto simp: goes_on_def split: prod.splits outcome.splits sum.splits)
      then show ?thesis using ls step [OF x(2)] by auto
    next
      case False
      then show ?thesis using ls x(2) by auto
    qed
  qed
  moreover have "\<not> goes_on (r1, s')" using while_option_stop [OF w] .
  ultimately obtain b1 s1 where "P b1 s1" "body b1 s1 = (r1, s')" by blast
  moreover have "\<And>b'. r1 \<noteq> Ok (Inl b')" using \<open>\<not> goes_on (r1, s')\<close> by auto
  ultimately show ?thesis using r that by blast
qed

text \<open>A loop whose rounds return, with a measure that decreases in every continuing one, returns.\<close>

lemma aloop_total:
  assumes "P b s" and step: "\<And>b s. P b s \<Longrightarrow> \<exists>x s'. body b s = (Ok x, s') \<and>
      (\<forall>b'. x = Inl b' \<longrightarrow> P b' s' \<and> (m b' s' :: nat) < m b s)"
  shows "\<exists>a s'. aloop body b s = (Ok a, s')"
  using assms(1)
proof (induction "m b s" arbitrary: b s rule: less_induct)
  case less
  from step [OF less.prems] obtain x s' where body: "body b s = (Ok x, s')"
      and nxt: "\<And>b'. x = Inl b' \<Longrightarrow> P b' s' \<and> m b' s' < m b s"
    by blast
  show ?case
  proof (cases x)
    case (Inl b')
    then obtain a s'' where "aloop body b' s' = (Ok a, s'')"
      using less.hyps [of b' s'] nxt by blast
    then show ?thesis using aloop_continue [of body b s b' s'] body Inl by auto
  next
    case (Inr a)
    then show ?thesis using aloop_stop [of body b s "Ok (Inr a)" s'] body by auto
  qed
qed

text \<open>A loop with such a measure hangs only if one of its rounds does.\<close>

lemma aloop_Hang:
  assumes "aloop body b s = (Hang, s')" "P b s"
    and step: "\<And>b s b' s'. P b s \<Longrightarrow> body b s = (Ok (Inl b'), s') \<Longrightarrow> P b' s' \<and> (m b' s' :: nat) < m b s"
  obtains b1 s1 where "P b1 s1" "body b1 s1 = (Hang, s')"
proof -
  let ?I = "\<lambda>x. (goes_on x \<longrightarrow> (\<exists>b s. x = (Ok (Inl b), s) \<and> P b s)) \<and>
      (\<not> goes_on x \<longrightarrow> (\<exists>b1 s1. P b1 s1 \<and> body b1 s1 = x))"
  let ?m = "\<lambda>x. case x of (Ok (Inl b), s) \<Rightarrow> Suc (m b s) | _ \<Rightarrow> 0"
  have I: "?I (loop_step body x) \<and> ?m (loop_step body x) < ?m x" if "?I x" "goes_on x" for x
  proof -
    from that obtain b s where x: "x = (Ok (Inl b), s)" "P b s" by blast
    then have ls: "loop_step body x = body b s" by (simp add: loop_step_def)
    show ?thesis
    proof (cases "goes_on (body b s)")
      case True
      then obtain b' s' where "body b s = (Ok (Inl b'), s')"
        by (auto simp: goes_on_def split: prod.splits outcome.splits sum.splits)
      then show ?thesis using ls x(1) step [OF x(2)] by auto
    next
      case False
      then show ?thesis using ls x
        by (auto simp: goes_on_def split: prod.splits outcome.splits sum.splits)
    qed
  qed
  have I0: "?I (Ok (Inl b), s)" using assms(2) by simp
  then obtain x where w: "while_option goes_on (loop_step body) (Ok (Inl b), s) = Some x"
    using measure_while_option_Some [where P = ?I and f = ?m and b = goes_on, OF I] by blast
  have Ix: "?I x" by (rule while_option_rule [OF _ w, where P = ?I]) (use I I0 in blast)+
  have stop: "\<not> goes_on x" using while_option_stop [OF w] .
  obtain r1 where x: "x = (r1, s')" "loop_result r1 = Hang"
    using assms(1) w by (cases x) (auto simp: aloop_alt)
  then have "r1 = Hang"
    using stop by (auto simp: loop_result_def goes_on_def split: outcome.splits sum.splits)
  then show ?thesis using Ix stop x(1) that by auto
qed

section \<open>What an action adds to the trace\<close>

text \<open>
  An action only ever adds to the trace; a silent one adds only reads. \<open>effects\<close> are the
  accesses that are not reads.
\<close>

definition grows :: "('e, 'a) io \<Rightarrow> bool" where
  "grows m \<longleftrightarrow> (\<forall>tr. suffix tr (snd (m tr)))"

fun effects :: "trace \<Rightarrow> trace" where
  "effects [] = []" | "effects (Rd r v # tr) = effects tr"
| "effects (Wr r v # tr) = Wr r v # effects tr" | "effects (Mem a b # tr) = Mem a b # effects tr"

definition silent :: "('e, 'a) io \<Rightarrow> bool" where
  "silent m \<longleftrightarrow> (\<forall>tr. effects (snd (m tr)) = effects tr)"

named_theorems trace_rules "growth and silence of actions"

lemma effects_append [simp]: "effects (xs @ ys) = effects xs @ effects ys"
  by (induction xs rule: effects.induct) auto

lemma grows_primitive [trace_rules]:
  "grows (rd hw r)" "grows (wr r v)" "grows (hand_over a b)" "grows (aret x)" "grows (alift y)"
  by (auto simp: grows_def rd_def wr_def hand_over_def suffix_Cons)

lemma silent_primitive [trace_rules]: "silent (rd hw r)" "silent (aret x)" "silent (alift y)"
  by (auto simp: silent_def rd_def)

lemma grows_abind [trace_rules]:
  assumes "grows m" "\<And>a. grows (f a)"
  shows "grows (abind m f)"
  unfolding grows_def
proof
  fix tr
  obtain r tr1 where m: "m tr = (r, tr1)" by (cases "m tr")
  then have 1: "suffix tr tr1" using assms(1) by (metis grows_def snd_conv)
  show "suffix tr (snd (abind m f tr))"
  proof (cases r)
    case (Ok a)
    then have "suffix tr1 (snd (f a tr1))" using assms(2) by (simp add: grows_def)
    then show ?thesis using m Ok 1 by (auto intro: suffix_order.trans)
  qed (use m 1 in \<open>simp_all add: abind_def\<close>)
qed

lemma silent_abind [trace_rules]:
  assumes "silent m" "\<And>a. silent (f a)"
  shows "silent (abind m f)"
  unfolding silent_def
proof
  fix tr
  obtain r tr1 where m: "m tr = (r, tr1)" by (cases "m tr")
  then have 1: "effects tr1 = effects tr" using assms(1) by (metis silent_def snd_conv)
  show "effects (snd (abind m f tr)) = effects tr"
    using m 1 assms(2) by (cases r) (auto simp: abind_def silent_def)
qed

lemma aloop_state:
  assumes refl: "\<And>s. R s s" and trans: "\<And>s t u. R s t \<Longrightarrow> R t u \<Longrightarrow> R s u"
    and step: "\<And>b s. R s (snd (body b s))"
  shows "R s (snd (aloop body b s))"
proof (cases "while_option goes_on (loop_step body) (Ok (Inl b), s)")
  case None
  then show ?thesis using refl by (simp add: aloop_alt)
next
  case (Some x)
  have "R s (snd x)"
  proof (rule while_option_rule [where P = "\<lambda>x. R s (snd x)", OF _ Some])
    fix y :: "('c, 'b + 'd) outcome \<times> 'a" assume "R s (snd y)" "goes_on y"
    then show "R s (snd (loop_step body y))"
      using trans step by (auto simp: loop_step_def goes_on_def split: prod.splits outcome.splits sum.splits)
  qed (simp add: refl)
  then show ?thesis using Some by (cases x) (simp add: aloop_alt)
qed

lemma grows_aloop [trace_rules]: "(\<And>b. grows (body b)) \<Longrightarrow> grows (aloop body b)"
  unfolding grows_def by (blast intro: aloop_state [where R = suffix] suffix_order.trans suffix_order.refl)

lemma silent_aloop [trace_rules]: "(\<And>b. silent (body b)) \<Longrightarrow> silent (aloop body b)"
  unfolding silent_def
  using aloop_state [where R = "\<lambda>s t. effects t = effects s" and body = body] by simp

lemma grows_await [trace_rules]: "grows (await hw r p)"
  unfolding await_def by (intro trace_rules)

lemma silent_await [trace_rules]: "silent (await hw r p)"
  unfolding await_def by (intro trace_rules)

lemma grows_rmw [trace_rules]: "grows (rmw hw r f)"
  unfolding rmw_def by (intro trace_rules)

lemma grows_amap_err [trace_rules]: "grows m \<Longrightarrow> grows (amap_err g m)"
  by (auto simp: grows_def amap_err_def split: prod.splits) (metis snd_conv)

lemma silent_amap_err [trace_rules]: "silent m \<Longrightarrow> silent (amap_err g m)"
  by (auto simp: silent_def amap_err_def split: prod.splits) (metis snd_conv)

lemma growsD: "grows m \<Longrightarrow> m tr = (r, tr') \<Longrightarrow> suffix tr tr'"
  by (metis grows_def snd_conv)

lemma silentD: "silent m \<Longrightarrow> m tr = (r, tr') \<Longrightarrow> effects tr' = effects tr"
  by (metis silent_def snd_conv)

text \<open>The same for any reflexive and transitive relation between the traces before and after.\<close>

definition keeps :: "(trace \<Rightarrow> trace \<Rightarrow> bool) \<Rightarrow> ('e, 'a) io \<Rightarrow> bool" where
  "keeps R m \<longleftrightarrow> (\<forall>tr. R tr (snd (m tr)))"

definition trace_preorder :: "(trace \<Rightarrow> trace \<Rightarrow> bool) \<Rightarrow> bool" where
  "trace_preorder R \<longleftrightarrow> (\<forall>s. R s s) \<and> (\<forall>s t u. R s t \<longrightarrow> R t u \<longrightarrow> R s u)"

lemma keeps_abind:
  assumes "trace_preorder R" "keeps R m" "\<And>a. keeps R (f a)"
  shows "keeps R (abind m f)"
  unfolding keeps_def
proof
  fix tr
  obtain r tr1 where m: "m tr = (r, tr1)" by (cases "m tr")
  then have 1: "R tr tr1" using assms(2) by (metis keeps_def snd_conv)
  show "R tr (snd (abind m f tr))"
  proof (cases r)
    case (Ok a)
    then have "R tr1 (snd (f a tr1))" using assms(3) by (simp add: keeps_def)
    then show ?thesis using m Ok 1 assms(1) by (auto simp: trace_preorder_def)
  qed (use m 1 in \<open>simp_all add: abind_def\<close>)
qed

lemma keeps_aloop: "trace_preorder R \<Longrightarrow> (\<And>b. keeps R (body b)) \<Longrightarrow> keeps R (aloop body b)"
  unfolding keeps_def trace_preorder_def by (blast intro: aloop_state [where R = R])

lemma keeps_pure: "trace_preorder R \<Longrightarrow> keeps R (aret x)" "trace_preorder R \<Longrightarrow> keeps R (alift y)"
  by (simp_all add: keeps_def trace_preorder_def)

lemma keeps_silent:
  assumes "\<And>s t. suffix s t \<Longrightarrow> effects t = effects s \<Longrightarrow> R s t" "grows m" "silent m"
  shows "keeps R m"
  using assms unfolding keeps_def grows_def silent_def by blast

lemma keepsD: "keeps R m \<Longrightarrow> m tr = (r, tr') \<Longrightarrow> R tr tr'"
  by (metis keeps_def snd_conv)

text \<open>The trace grows by accesses that satisfy \<open>Q\<close>.\<close>

definition adds :: "(event \<Rightarrow> bool) \<Rightarrow> trace \<Rightarrow> trace \<Rightarrow> bool" where
  "adds Q s t \<longleftrightarrow> (\<exists>es. t = es @ s \<and> (\<forall>e \<in> set es. Q e))"

lemma adds_preorder: "trace_preorder (adds Q)"
proof -
  have "adds Q s u" if "adds Q s t" "adds Q t u" for s t u
    using that by (fastforce simp: adds_def)
  then show ?thesis by (auto simp: trace_preorder_def adds_def)
qed

lemma effects_empty: "effects es = [] \<Longrightarrow> e \<in> set es \<Longrightarrow> \<exists>r v. e = Rd r v"
  by (induction es rule: effects.induct) auto

lemma adds_silent:
  assumes "\<And>r v. Q (Rd r v)" "suffix s t" "effects t = effects s"
  shows "adds Q s t"
proof -
  obtain es where es: "t = es @ s" using assms(2) by (auto simp: suffix_def)
  then have "effects es = []" using assms(3) by simp
  then show ?thesis using es assms(1) effects_empty by (fastforce simp: adds_def)
qed

text \<open>The last value written to a register, and the last memory handed over.\<close>

fun last_wr :: "reg \<Rightarrow> trace \<Rightarrow> u32 option" where
  "last_wr r [] = None"
| "last_wr r (Wr r' v # tr) = (if r' = r then Some v else last_wr r tr)"
| "last_wr r (Rd r' v # tr) = last_wr r tr"
| "last_wr r (Mem a b # tr) = last_wr r tr"

fun last_mem :: "trace \<Rightarrow> (u32 \<times> bytes) option" where
  "last_mem [] = None"
| "last_mem (Mem a b # tr) = Some (a, b)"
| "last_mem (Wr r' v # tr) = last_mem tr"
| "last_mem (Rd r' v # tr) = last_mem tr"

lemma last_effects: "last_wr r (effects tr) = last_wr r tr" "last_mem (effects tr) = last_mem tr"
  by (induction tr rule: effects.induct) auto

text \<open>What an awaited register showed last.\<close>

lemma await_now:
  assumes "p (answer hw tr r)"
  shows "await hw r p tr = (Ok (), Rd r (answer hw tr r) # tr)"
  using assms unfolding await_def by (intro aloop_break) (simp add: abind_def rd_def)

lemma await_Ok:
  assumes "await hw r p tr = (Ok (), tr')"
  obtains tr1 where "p (answer hw tr1 r)" "tr' = Rd r (answer hw tr1 r) # tr1" "suffix tr tr1"
    "effects tr1 = effects tr"
proof -
  let ?P = "\<lambda>(_ :: unit) t. suffix tr t \<and> effects t = effects tr"
  from assms show ?thesis
    unfolding await_def
    by (rule aloop_last [where P = ?P])
      (auto simp: rd_def suffix_Cons abind_def aret_def loop_result_def split: if_splits intro!: that)
qed

end
