(* ===== verification/Clock.thy ===== *)
theory Clock
  imports Mmio
begin

text \<open>
  \<^verbatim>\<open>firmware/usbarmory/src/time.rs\<close> and the polling helper of \<^verbatim>\<open>util.rs\<close>: reading the real-time
  clock of the SNVS without torn reads, durations, \<^verbatim>\<open>wait\<close> and \<^verbatim>\<open>wait_for_or_timeout\<close>. A
  \<^verbatim>\<open>core::time::Duration\<close> is its number of nanoseconds.
\<close>

section \<open>Instants and durations\<close>

type_synonym instant = u64
type_synonym duration = nat

definition from_millis :: "nat \<Rightarrow> duration" where "from_millis n = n * 1000000"
definition from_micros :: "nat \<Rightarrow> duration" where "from_micros n = n * 1000"

text \<open>One round of the loop: two more reads, compared with the two before.\<close>

definition now_round :: "hw \<Rightarrow> u32 \<times> u32 \<Rightarrow> ('e, u32 \<times> u32 + instant) io" where
  "now_round hw hl =
     abind (rd hw (Snvs RTCMR)) (\<lambda>new_high.
     abind (rd hw (Snvs RTCLR)) (\<lambda>new_low.
     aret (if new_low = snd hl \<and> new_high = fst hl
           then Inr (push_bit 32 (ucast (fst hl)) OR ucast (snd hl))
           else Inl (new_high, new_low))))"

definition instant_now :: "hw \<Rightarrow> ('e, instant) io" where
  "instant_now hw =
     abind (rd hw (Snvs RTCMR)) (\<lambda>high.
     abind (rd hw (Snvs RTCLR)) (\<lambda>low.
     aloop (now_round hw) (high, low)))"

definition RTC_FREQUENCY :: u64 where "RTC_FREQUENCY = push_bit 15 1"

definition unchecked_duration_since :: "instant \<Rightarrow> instant \<Rightarrow> duration" where
  "unchecked_duration_since later earlier =
     (let ticks = later - earlier in
      unat (ticks div RTC_FREQUENCY) * 1000000000 +
      unat (ucast (1953125 * (ticks mod RTC_FREQUENCY) div push_bit 9 1) :: u32))"

definition duration_since :: "instant \<Rightarrow> instant \<Rightarrow> ('e, duration) outcome" where
  "duration_since later earlier =
     obind (oassert (earlier \<le> later)) (\<lambda>_. Ok (unchecked_duration_since later earlier))"

definition elapsed :: "hw \<Rightarrow> instant \<Rightarrow> ('e, duration) io" where
  "elapsed hw start = abind (instant_now hw) (\<lambda>now. alift (duration_since now start))"

definition uptime :: "hw \<Rightarrow> ('e, duration) io" where
  "uptime hw = elapsed hw 0"

definition wait_round :: "hw \<Rightarrow> duration \<Rightarrow> instant \<Rightarrow> unit \<Rightarrow> ('e, unit + unit) io" where
  "wait_round hw dur start = (\<lambda>_.
     abind (instant_now hw) (\<lambda>now.
     aret (if unchecked_duration_since now start < dur then Inl () else Inr ())))"

definition wait :: "hw \<Rightarrow> duration \<Rightarrow> ('e, unit) io" where
  "wait hw dur =
     abind (instant_now hw) (\<lambda>start.
     aloop (wait_round hw dur start) ())"

text \<open>
  The condition is a closure over variables of the caller: \<open>cond\<close> gives its truth value and what
  it left in those variables, which the caller uses when it became true.
\<close>

definition poll_round :: "hw \<Rightarrow> ('e, bool \<times> 'x) io \<Rightarrow> duration \<Rightarrow> instant \<Rightarrow> unit \<Rightarrow> ('e, unit + 'x option) io" where
  "poll_round hw cond timeout start = (\<lambda>_.
     abind cond (\<lambda>(c, x).
       if c then aret (Inr (Some x))
       else abind (elapsed hw start) (\<lambda>d. aret (if timeout < d then Inr None else Inl ()))))"

definition wait_for_or_timeout :: "hw \<Rightarrow> ('e, bool \<times> 'x) io \<Rightarrow> duration \<Rightarrow> ('e, 'x option) io" where
  "wait_for_or_timeout hw cond timeout =
     abind (instant_now hw) (\<lambda>start. aloop (poll_round hw cond timeout start) ())"

text \<open>\<^verbatim>\<open>util::round_down\<close>: a division by zero is a panic.\<close>

definition round_down :: "nat \<Rightarrow> nat \<Rightarrow> ('e, nat) outcome" where
  "round_down n m = (if m = 0 then Panic else Ok (n - n mod m))"

section \<open>Growth and silence\<close>

lemma instant_now_trace [trace_rules]: "grows (instant_now hw)" "silent (instant_now hw)"
  unfolding instant_now_def now_round_def by (intro trace_rules)+

lemma elapsed_trace [trace_rules]: "grows (elapsed hw start)" "silent (elapsed hw start)"
  unfolding elapsed_def by (intro trace_rules)+

lemma wait_trace [trace_rules]: "grows (wait hw d)" "silent (wait hw d)"
  unfolding wait_def wait_round_def by (intro trace_rules)+

lemma wait_for_trace [trace_rules]:
  "grows cond \<Longrightarrow> grows (wait_for_or_timeout hw cond t)"
  "silent cond \<Longrightarrow> silent (wait_for_or_timeout hw cond t)"
  unfolding wait_for_or_timeout_def poll_round_def
  by (auto intro!: trace_rules split: prod.split)

section \<open>Durations in nanoseconds\<close>

definition ticks_ns :: "nat \<Rightarrow> nat" where
  "ticks_ns n = n div 32768 * 1000000000 + 1953125 * (n mod 32768) div 512"

lemma duration_ticks: "unchecked_duration_since later earlier = ticks_ns (unat (later - earlier))"
proof -
  let ?t = "later - earlier"
  have f: "RTC_FREQUENCY = 32768" "push_bit 9 1 = (512 :: u64)" by (simp_all add: RTC_FREQUENCY_def)
  have m: "unat (?t mod 32768) = unat ?t mod 32768" by (simp add: unat_mod)
  have less: "unat ?t mod 32768 < 32768" by simp
  then have "1953125 * (unat ?t mod 32768) < 18446744073709551616" by linarith
  then have p: "unat (1953125 * (?t mod 32768)) = 1953125 * (unat ?t mod 32768)"
    using m unat_mult_lem [of "1953125 :: u64" "?t mod 32768"] by simp
  have "unat (1953125 * (?t mod 32768) div 512) = 1953125 * (unat ?t mod 32768) div 512"
    using p by (simp add: unat_div)
  moreover have "1953125 * (unat ?t mod 32768) div 512 < 2 ^ 32"
    using less by (simp add: div_less_iff_less_mult)
  ultimately have "unat (ucast (1953125 * (?t mod 32768) div 512) :: u32) = 1953125 * (unat ?t mod 32768) div 512"
    by (simp add: unsigned_ucast_eq take_bit_nat_eq_self)
  then show ?thesis
    by (simp add: unchecked_duration_since_def Let_def f ticks_ns_def unat_div)
qed

lemma ticks_frac: "1953125 * (n mod 32768) div 512 < (1000000000 :: nat)"
  using mod_less_divisor [of 32768 n] by (simp add: div_less_iff_less_mult)

lemma ticks_ns_mono: "m \<le> n \<Longrightarrow> ticks_ns m \<le> ticks_ns n"
proof -
  assume le: "m \<le> n"
  show ?thesis
  proof (cases "m div 32768 = n div 32768")
    case True
    then have "m mod 32768 \<le> n mod 32768"
      using le div_mult_mod_eq [of m 32768] div_mult_mod_eq [of n 32768] by linarith
    then show ?thesis using True by (simp add: ticks_ns_def div_le_mono)
  next
    case False
    then have "m div 32768 + 1 \<le> n div 32768" using le div_le_mono [of m n 32768] by simp
    then have "(m div 32768 + 1) * 1000000000 \<le> n div 32768 * 1000000000" by (rule mult_le_mono1)
    then show ?thesis using ticks_frac [of m] by (simp add: ticks_ns_def)
  qed
qed

lemma ticks_ns_bound: "ticks_ns n * 32768 \<le> n * 1000000000"
proof -
  have "1953125 * (n mod 32768) div 512 * 512 \<le> 1953125 * (n mod 32768)" by (rule div_times_less_eq_dividend)
  then have "1953125 * (n mod 32768) div 512 * 32768 \<le> 1000000000 * (n mod 32768)" by simp
  moreover have "n * 1000000000 = n div 32768 * 32768 * 1000000000 + n mod 32768 * 1000000000"
    by (metis add_mult_distrib div_mult_mod_eq)
  ultimately show ?thesis by (simp add: ticks_ns_def algebra_simps)
qed

lemma ticks_ns_enough: "32768 * (d div 1000000000 + 1) \<le> n \<Longrightarrow> d < ticks_ns n"
proof -
  assume "32768 * (d div 1000000000 + 1) \<le> n"
  then have "d div 1000000000 + 1 \<le> n div 32768"
    by (metis div_le_mono nonzero_mult_div_cancel_left zero_neq_numeral)
  then have "(d div 1000000000 + 1) * 1000000000 \<le> n div 32768 * 1000000000" by (rule mult_le_mono1)
  moreover have "d < (d div 1000000000 + 1) * 1000000000"
    using div_mult_mod_eq [of d 1000000000] mod_less_divisor [of 1000000000 d] by simp
  ultimately show ?thesis by (simp add: ticks_ns_def)
qed

section \<open>Waiting for a condition\<close>

lemma wait_for_Some:
  fixes r :: "('e, 'x option) outcome"
  assumes "wait_for_or_timeout hw cond t tr = (r, tr')" "r = Ok (Some x)" "grows cond" "silent cond"
  obtains tr1 where "suffix tr tr1" "effects tr1 = effects tr" "cond tr1 = (Ok (True, x), tr')"
proof -
  let ?P = "\<lambda>(_ :: unit) s. suffix tr s \<and> effects s = effects tr"
  from assms(1,2) obtain start s0 where now: "instant_now hw tr = (Ok start :: ('e, instant) outcome, s0)"
      and loop: "aloop (poll_round hw cond t start) () s0 = (r, tr')"
    by (auto simp: wait_for_or_timeout_def abind_Ok_iff)
  have nh: "r \<noteq> Hang" using assms(2) by simp
  have P0: "?P () s0"
    using growsD [OF instant_now_trace(1) now] silentD [OF instant_now_trace(2) now] by simp
  have tr: "grows (poll_round hw cond t start b)" "silent (poll_round hw cond t start b)" for b
    unfolding poll_round_def using assms(3,4) by (auto intro!: trace_rules split: prod.split)
  have step: "?P b' s'" if "?P b s" "poll_round hw cond t start b s = (Ok (Inl b') :: ('e, unit + 'x option) outcome, s')" for b s b' s'
    using that(1) growsD [OF tr(1) that(2)] silentD [OF tr(2) that(2)] by (auto intro: suffix_order.trans)
  obtain b s r1 where P: "?P b s" and last: "poll_round hw cond t start b s = (r1, tr')" and r1: "r = loop_result r1"
    by (rule aloop_last [OF loop nh, where P = ?P]) (rule P0 | erule (1) step | erule (2) that)+
  obtain c y s1 where "cond s = (Ok (c, y), s1)" "c" "y = x" "s1 = tr'"
    using last r1 assms(2)
    by (auto simp: poll_round_def abind_def aret_def loop_result_def split: prod.splits outcome.splits if_splits sum.splits)
  then show ?thesis using P that by auto
qed

section \<open>The real-time clock\<close>

text \<open>
  \<open>clk tr\<close> is the value of the 64-bit counter after the accesses \<open>tr\<close>: it never decreases, and
  the two registers show its halves.
\<close>

locale rtc =
  fixes hw :: hw and clk :: "trace \<Rightarrow> u64"
  assumes high: "ucast (answer hw tr (Snvs RTCMR)) = drop_bit 32 (clk tr)"
    and low: "ucast (answer hw tr (Snvs RTCLR)) = take_bit 32 (clk tr)"
    and mono: "suffix tr tr' \<Longrightarrow> clk tr \<le> clk tr'"
begin

lemma drop_bit_mono64: "a \<le> b \<Longrightarrow> drop_bit n a \<le> drop_bit n (b :: u64)"
  unfolding word_le_nat_alt unat_drop_bit_eq drop_bit_nat_def by (rule div_le_mono)

lemma halves: "push_bit 32 (drop_bit 32 c) OR take_bit 32 c = (c :: u64)"
  by (rule bit_word_eqI) (auto simp: bit_simps)

text \<open>The value of \<^verbatim>\<open>Instant::now\<close> is the counter at one moment of the call.\<close>

lemma now_value:
  fixes r :: "('e, instant) outcome"
  assumes "instant_now hw tr = (r, tr')" "r = Ok v"
  obtains tr1 where "suffix tr tr1" "suffix tr1 tr'" "v = clk tr1"
proof -
  let ?P = "\<lambda>hl s. \<exists>t. suffix tr t \<and> fst hl = answer hw t (Snvs RTCMR) \<and>
    snd hl = answer hw (Rd (Snvs RTCMR) (fst hl) # t) (Snvs RTCLR) \<and>
    s = Rd (Snvs RTCLR) (snd hl) # Rd (Snvs RTCMR) (fst hl) # t"
  let ?h0 = "answer hw tr (Snvs RTCMR)"
  let ?l0 = "answer hw (Rd (Snvs RTCMR) ?h0 # tr) (Snvs RTCLR)"
  have loop: "aloop (now_round hw) (?h0, ?l0) (Rd (Snvs RTCLR) ?l0 # Rd (Snvs RTCMR) ?h0 # tr) = (r, tr')"
    using assms(1) by (simp add: instant_now_def rd_def abind_def)
  have nh: "r \<noteq> Hang" using assms(2) by simp
  have P0: "?P (?h0, ?l0) (Rd (Snvs RTCLR) ?l0 # Rd (Snvs RTCMR) ?h0 # tr)" by auto
  have step: "?P b' s'" if "?P b s" "now_round hw b s = (Ok (Inl b') :: ('e, u32 \<times> u32 + instant) outcome, s')"
    for b s b' s'
    using that by (auto simp: now_round_def rd_def abind_def aret_def suffix_Cons split: if_splits)
  obtain hl s r1 where P: "?P hl s" and last: "now_round hw hl s = (r1, tr')" and r1: "r = loop_result r1"
    by (rule aloop_last [OF loop nh, where P = ?P]) (rule P0 | erule (1) step | erule (2) that)+
  from P obtain t where t: "suffix tr t" "fst hl = answer hw t (Snvs RTCMR)"
      "snd hl = answer hw (Rd (Snvs RTCMR) (fst hl) # t) (Snvs RTCLR)"
      "s = Rd (Snvs RTCLR) (snd hl) # Rd (Snvs RTCMR) (fst hl) # t"
    by blast
  let ?t1 = "Rd (Snvs RTCMR) (fst hl) # t"
  have again: "answer hw s (Snvs RTCMR) = fst hl" and v: "v = push_bit 32 (ucast (fst hl)) OR ucast (snd hl)"
      and tr': "suffix s tr'"
    using last r1 assms(2)
    by (auto simp: now_round_def rd_def abind_def aret_def suffix_Cons loop_result_def split: if_splits)
  have "drop_bit 32 (clk t) \<le> drop_bit 32 (clk ?t1)" "drop_bit 32 (clk ?t1) \<le> drop_bit 32 (clk s)"
    using t(4) by (auto intro!: drop_bit_mono64 mono simp: suffix_Cons)
  moreover have "drop_bit 32 (clk t) = ucast (fst hl)" "drop_bit 32 (clk s) = ucast (fst hl)"
    using high [of t] high [of s] t(2) again by simp_all
  ultimately have "drop_bit 32 (clk ?t1) = ucast (fst hl)" by simp
  moreover have "take_bit 32 (clk ?t1) = ucast (snd hl)" using low [of ?t1] t(3) by simp
  ultimately have "v = clk ?t1" using v halves [of "clk ?t1"] by simp
  moreover have "suffix tr ?t1" "suffix ?t1 tr'"
    using t(1,4) tr' by (auto simp: suffix_Cons intro: suffix_order.trans [of ?t1 s])
  ultimately show ?thesis using that by blast
qed

lemma wait_at_least:
  fixes r :: "('e, unit) outcome"
  assumes "wait hw dur tr = (r, tr')" "r = Ok ()"
  shows "dur \<le> ticks_ns (unat (clk tr') - unat (clk tr)) \<and> effects tr' = effects tr"
proof -
  from assms obtain start s0 where now: "instant_now hw tr = (Ok start :: ('e, instant) outcome, s0)"
      and loop: "aloop (wait_round hw dur start) () s0 = (r, tr')"
    by (auto simp: wait_def abind_Ok_iff)
  from now_value [OF now refl] obtain t0 where t0: "suffix tr t0" "suffix t0 s0" "start = clk t0" .
  have nh: "r \<noteq> Hang" using assms(2) by simp
  let ?P = "\<lambda>(_ :: unit) s. suffix s0 s"
  have grow: "grows (wait_round hw dur start b :: ('e, unit + unit) io)" for b
    unfolding wait_round_def by (intro trace_rules)
  have step: "?P b' s'" if "?P b s" "wait_round hw dur start b s = (Ok (Inl b') :: ('e, unit + unit) outcome, s')"
    for b s b' s'
    using that growsD [OF grow that(2)] by (auto intro: suffix_order.trans)
  have P0: "?P () s0" by simp
  obtain b s r1 where P: "?P b s" and last: "wait_round hw dur start b s = (r1, tr')" and r1: "r = loop_result r1"
    by (rule aloop_last [OF loop nh, where P = ?P]) (rule P0 | erule (1) step | erule (2) that)+
  obtain v where now2: "instant_now hw s = (Ok v :: ('e, instant) outcome, tr')"
      and long: "\<not> unchecked_duration_since v start < dur"
    using last r1 assms(2)
    by (cases "instant_now hw s :: ('e, instant) outcome \<times> trace")
      (auto simp: wait_round_def abind_def aret_def loop_result_def split: outcome.splits if_splits)
  from now_value [OF now2 refl] obtain t1 where t1: "suffix s t1" "suffix t1 tr'" "v = clk t1" .
  have "suffix t0 t1" using t0(2) P t1(1) by (meson suffix_order.trans)
  then have "start \<le> v" using t0(3) t1(3) mono by simp
  then have "unat (v - start) = unat v - unat start" by (simp add: unat_sub)
  moreover have "unat v \<le> unat (clk tr')" "unat (clk tr) \<le> unat start"
    using mono [OF t1(2)] mono [OF t0(1)] t0(3) t1(3) by (simp_all add: word_le_nat_alt)
  ultimately have "unat (v - start) \<le> unat (clk tr') - unat (clk tr)" by simp
  then have "dur \<le> ticks_ns (unat (clk tr') - unat (clk tr))"
    using long ticks_ns_mono [of "unat (v - start)" "unat (clk tr') - unat (clk tr)"]
    by (simp add: duration_ticks)
  moreover have "effects tr' = effects tr"
    using silentD [OF wait_trace(2) assms(1)] .
  ultimately show ?thesis by blast
qed

end

section \<open>Progress of the clock\<close>

text \<open>
  The counter is slow: eight accesses see at most one tick. And it runs: \<open>K\<close> accesses see at
  least one, as long as the counter is far from its end.
\<close>

locale running_rtc = rtc +
  fixes K :: nat
  assumes slow: "length es \<le> 8 \<Longrightarrow> unat (clk (es @ tr)) \<le> unat (clk tr) + 1"
    and running: "K \<le> length es \<Longrightarrow> unat (clk tr) < 2 ^ 63 \<Longrightarrow> unat (clk tr) < unat (clk (es @ tr))"
begin

text \<open>Three rounds at most: \<^verbatim>\<open>Instant::now\<close> ends.\<close>

definition next_pair :: "trace \<Rightarrow> u32 \<times> u32" where
  "next_pair s = (answer hw s (Snvs RTCMR),
     answer hw (Rd (Snvs RTCMR) (answer hw s (Snvs RTCMR)) # s) (Snvs RTCLR))"

definition pair_trace :: "trace \<Rightarrow> trace" where
  "pair_trace s = Rd (Snvs RTCLR) (snd (next_pair s)) # Rd (Snvs RTCMR) (fst (next_pair s)) # s"

lemma length_pair_trace [simp]: "length (pair_trace s) = length s + 2"
  by (simp add: pair_trace_def)

lemma now_round_pair:
  "now_round hw hl s = (Ok (if next_pair s = hl then Inr (push_bit 32 (ucast (fst hl)) OR ucast (snd hl))
      else Inl (next_pair s)), pair_trace s)"
  by (cases hl) (auto simp: now_round_def rd_def abind_def aret_def next_pair_def pair_trace_def)

lemma instant_now_pair: "instant_now hw tr = aloop (now_round hw) (next_pair tr) (pair_trace tr)"
  by (simp add: instant_now_def rd_def abind_def next_pair_def pair_trace_def)

lemma next_pair_eq:
  assumes "clk s = clk s'" "clk (Rd (Snvs RTCMR) (fst (next_pair s)) # s) = clk (Rd (Snvs RTCMR) (fst (next_pair s')) # s')"
  shows "next_pair s = next_pair s'"
proof -
  have "(ucast (fst (next_pair s)) :: u64) = ucast (fst (next_pair s'))"
    using high [of s] high [of s'] assms(1) by (simp add: next_pair_def)
  moreover have "(ucast (snd (next_pair s)) :: u64) = ucast (snd (next_pair s'))"
    using low [of "Rd (Snvs RTCMR) (fst (next_pair s)) # s"] low [of "Rd (Snvs RTCMR) (fst (next_pair s')) # s'"]
      assms(2) by (simp add: next_pair_def)
  ultimately show ?thesis
    by (simp add: prod_eq_iff) (metis unat_widen_simps(6) word_unat_eq_iff)
qed

lemma pair_round_stops:
  assumes "next_pair s = hl"
  shows "\<exists>v. (aloop (now_round hw) hl s :: ('e, instant) outcome \<times> trace) = (Ok v, pair_trace s)"
proof -
  let ?v = "push_bit 32 (ucast (fst hl)) OR ucast (snd hl) :: instant"
  have "now_round hw hl s = (Ok (Inr ?v) :: ('e, u32 \<times> u32 + instant) outcome, pair_trace s)"
    using assms by (simp add: now_round_pair)
  then have "aloop (now_round hw) hl s = (loop_result (Ok (Inr ?v) :: ('e, u32 \<times> u32 + instant) outcome), pair_trace s)"
    by (rule aloop_stop) simp
  then show ?thesis by auto
qed

lemma pair_round_continues:
  assumes "(aloop (now_round hw) (next_pair s) (pair_trace s) :: ('e, instant) outcome \<times> trace) = (Ok v, s')"
    and "next_pair s \<noteq> hl"
  shows "(aloop (now_round hw) hl s :: ('e, instant) outcome \<times> trace) = (Ok v, s')"
proof (rule aloop_continue [OF _ assms(1)])
  show "now_round hw hl s = (Ok (Inl (next_pair s)), pair_trace s)"
    using assms(2) by (simp add: now_round_pair)
qed simp

text \<open>At most one tick in four pairs: the first two or the last two are equal.\<close>

lemma pairs_agree:
  fixes tr :: trace
  defines "t1 \<equiv> pair_trace tr" and "t2 \<equiv> pair_trace (pair_trace tr)"
    and "t3 \<equiv> pair_trace (pair_trace (pair_trace tr))"
  shows "next_pair t1 = next_pair tr \<or> next_pair t3 = next_pair t2"
proof -
  let ?mid = "\<lambda>s. Rd (Snvs RTCMR) (fst (next_pair s)) # s"
  have steps: "suffix s (?mid s)" "suffix (?mid s) (pair_trace s)" for s
    by (simp_all add: pair_trace_def suffix_Cons)
  have le: "unat (clk tr) \<le> unat (clk (?mid tr))" "unat (clk (?mid tr)) \<le> unat (clk t1)"
    "unat (clk t1) \<le> unat (clk (?mid t1))" "unat (clk (?mid t1)) \<le> unat (clk t2)"
    "unat (clk t2) \<le> unat (clk (?mid t2))" "unat (clk (?mid t2)) \<le> unat (clk t3)"
    "unat (clk t3) \<le> unat (clk (?mid t3))"
    using mono [OF steps(1)] mono [OF steps(2)] by (simp_all add: t1_def t2_def t3_def word_le_nat_alt)
  have "?mid t3 = take 7 (?mid t3) @ tr"
    by (simp add: t3_def pair_trace_def)
  then have max: "unat (clk (?mid t3)) \<le> unat (clk tr) + 1"
    using slow [of "take 7 (?mid t3)" tr] by simp
  show ?thesis
  proof (cases "unat (clk (?mid t1)) = unat (clk tr)")
    case True
    then have "clk t1 = clk tr" "clk (?mid t1) = clk (?mid tr)"
      using le by (simp_all add: word_unat_eq_iff)
    then show ?thesis using next_pair_eq [of t1 tr] by simp
  next
    case False
    then have "clk t3 = clk t2" "clk (?mid t3) = clk (?mid t2)"
      using le max by (simp_all add: word_unat_eq_iff)
    then show ?thesis using next_pair_eq [of t3 t2] by simp
  qed
qed

text \<open>Three rounds at most: \<^verbatim>\<open>Instant::now\<close> ends.\<close>

lemma now_ends:
  "\<exists>v tr'. (instant_now hw tr :: ('e, instant) outcome \<times> trace) = (Ok v, tr') \<and>
     length tr' \<le> length tr + 8 \<and> length tr < length tr'"
proof -
  let ?t1 = "pair_trace tr" let ?t2 = "pair_trace ?t1" let ?t3 = "pair_trace ?t2"
  have now: "(instant_now hw tr :: ('e, instant) outcome \<times> trace) = aloop (now_round hw) (next_pair tr) ?t1"
    by (rule instant_now_pair)
  show ?thesis
  proof (cases "next_pair ?t1 = next_pair tr")
    case True
    then obtain v where "(aloop (now_round hw) (next_pair tr) ?t1 :: ('e, instant) outcome \<times> trace) = (Ok v, pair_trace ?t1)"
      using pair_round_stops by blast
    then show ?thesis using now by auto
  next
    case ne1: False
    then have agree: "next_pair ?t3 = next_pair ?t2" using pairs_agree by blast
    show ?thesis
    proof (cases "next_pair ?t2 = next_pair ?t1")
      case True
      then obtain v where "(aloop (now_round hw) (next_pair ?t1) ?t2 :: ('e, instant) outcome \<times> trace) = (Ok v, pair_trace ?t2)"
        using pair_round_stops by blast
      from pair_round_continues [OF this ne1] now show ?thesis by auto
    next
      case False
      obtain v where "(aloop (now_round hw) (next_pair ?t2) ?t3 :: ('e, instant) outcome \<times> trace) = (Ok v, pair_trace ?t3)"
        using pair_round_stops [OF agree] by blast
      from pair_round_continues [OF pair_round_continues [OF this False] ne1] now show ?thesis by auto
    qed
  qed
qed

text \<open>How far the counter has come after a number of accesses.\<close>

lemma clock_advances:
  assumes "0 < K" "unat (clk tr) + n < 2 ^ 63" "suffix tr tr'" "length tr + n * K \<le> length tr'"
  shows "unat (clk tr) + n \<le> unat (clk tr')"
  using assms(2-)
proof (induction n arbitrary: tr')
  case 0
  then show ?case using mono [of tr tr'] by (simp add: word_le_nat_alt)
next
  case (Suc n)
  obtain zs where zs: "tr' = zs @ tr" using Suc.prems(2) by (auto simp: suffix_def)
  let ?mid = "drop K tr'"
  have len: "length tr + n * K \<le> length ?mid" using Suc.prems(3) by simp
  have mid: "?mid = drop K zs @ tr" using zs len Suc.prems(3) by simp
  have "unat (clk tr) + n \<le> unat (clk ?mid)"
    using Suc.prems(1) len by (intro Suc.IH) (auto simp: mid suffix_def)
  moreover have "unat (clk ?mid) < unat (clk tr')" if "unat (clk ?mid) < 2 ^ 63"
    using running [of "take K tr'" ?mid] that Suc.prems(3) by simp
  moreover have "unat (clk ?mid) \<le> unat (clk tr')"
    using mono [OF suffix_drop [of K tr']] by (simp add: word_le_nat_alt)
  ultimately show ?case using Suc.prems(1) by (cases "unat (clk ?mid) < 2 ^ 63") auto
qed

text \<open>Rounds that continue only while fewer than \<open>n\<close> ticks have passed since the loop began.\<close>

lemma polling_ends:
  fixes body :: "unit \<Rightarrow> ('e, unit + 'a) io"
  assumes "0 < K" "unat (clk s0) + n < 2 ^ 63"
    and round: "\<And>s. suffix s0 s \<Longrightarrow> \<exists>x s'. body () s = (Ok x, s') \<and> suffix s s' \<and>
      (x = Inl () \<longrightarrow> length s < length s' \<and> unat (clk s) < unat (clk s0) + n)"
  shows "\<exists>a s'. aloop body () s0 = (Ok a, s')"
proof (rule aloop_total [where P = "\<lambda>_ s. suffix s0 s" and m = "\<lambda>_ s. length s0 + n * K - length s"])
  fix b :: unit and s
  assume s: "suffix s0 s"
  from round [OF s] obtain x s' where r: "body () s = (Ok x, s')" "suffix s s'"
      "x = Inl () \<longrightarrow> length s < length s' \<and> unat (clk s) < unat (clk s0) + n"
    by blast
  have "length s < length s0 + n * K" if "unat (clk s) < unat (clk s0) + n"
    using clock_advances [OF assms(1,2) s] that by (meson not_le)
  then have "length s0 + n * K - length s' < length s0 + n * K - length s" if "x = Inl ()"
    using r(3) that by (intro diff_less_mono2) auto
  then show "\<exists>x s'. body b s = (Ok x, s') \<and> (\<forall>b'. x = Inl b' \<longrightarrow> suffix s0 s' \<and>
      length s0 + n * K - length s' < length s0 + n * K - length s)"
    using r s by (auto intro: suffix_order.trans)
qed simp

text \<open>\<^verbatim>\<open>wait\<close> ends.\<close>

lemma now_result:
  obtains v t tr' where "(instant_now hw tr :: ('e, instant) outcome \<times> trace) = (Ok v, tr')"
    "suffix tr t" "suffix t tr'" "v = clk t" "length tr < length tr'" "unat (clk tr') \<le> unat (clk tr) + 1"
proof -
  obtain v tr' where now: "(instant_now hw tr :: ('e, instant) outcome \<times> trace) = (Ok v, tr')"
      and len: "length tr' \<le> length tr + 8" "length tr < length tr'"
    using now_ends by blast
  from now_value [OF now refl] obtain t where t: "suffix tr t" "suffix t tr'" "v = clk t" .
  then obtain zs where "tr' = zs @ tr" by (meson suffix_def suffix_order.trans)
  then have "unat (clk tr') \<le> unat (clk tr) + 1" using slow [of zs tr] len(1) by simp
  then show ?thesis using that now t len(2) by blast
qed

lemma wait_ends:
  assumes "0 < K" "unat (clk tr) + 32768 * (dur div 1000000000 + 1) + 1 < 2 ^ 63"
  shows "\<exists>tr'. (wait hw dur tr :: ('e, unit) outcome \<times> trace) = (Ok (), tr')"
proof -
  let ?n = "32768 * (dur div 1000000000 + 1)"
  obtain start t0 s0 where now: "(instant_now hw tr :: ('e, instant) outcome \<times> trace) = (Ok start, s0)"
      and t0: "suffix tr t0" "suffix t0 s0" "start = clk t0" and c0: "unat (clk s0) \<le> unat (clk tr) + 1"
    using now_result [where 'e = 'e] by metis
  have "\<exists>a s'. aloop (wait_round hw dur start :: unit \<Rightarrow> ('e, unit + unit) io) () s0 = (Ok a, s')"
  proof (rule polling_ends [OF assms(1)])
    show "unat (clk s0) + ?n < 2 ^ 63" using c0 assms(2) by linarith
    fix s assume s: "suffix s0 s"
    obtain v t s' where n: "(instant_now hw s :: ('e, instant) outcome \<times> trace) = (Ok v, s')"
        and t: "suffix s t" "suffix t s'" "v = clk t" and len: "length s < length s'"
      using now_result [where 'e = 'e] by metis
    have le: "start \<le> v" "clk s \<le> v" "start \<le> clk s0"
      using t t0 s mono by (auto intro: suffix_order.trans)
    have "unat (clk s) < unat (clk s0) + ?n" if "unchecked_duration_since v start < dur"
    proof (rule ccontr)
      assume "\<not> unat (clk s) < unat (clk s0) + ?n"
      then have "?n \<le> unat v - unat start"
        using le by (simp add: word_le_nat_alt)
      then have "dur < ticks_ns (unat (v - start))"
        using le(1) by (intro ticks_ns_enough) (simp add: unat_sub)
      then show False using that by (simp add: duration_ticks)
    qed
    then show "\<exists>x s'. (wait_round hw dur start () s :: ('e, unit + unit) outcome \<times> trace) = (Ok x, s') \<and>
        suffix s s' \<and> (x = Inl () \<longrightarrow> length s < length s' \<and> unat (clk s) < unat (clk s0) + ?n)"
      using n len t by (auto simp: wait_round_def abind_def aret_def intro: suffix_order.trans)
  qed
  then show ?thesis using now by (auto simp: wait_def)
qed

text \<open>When it ends, no more time has passed than the whole seconds of \<open>dur\<close> and one more.\<close>

lemma wait_time:
  assumes "(wait hw dur tr :: ('e, unit) outcome \<times> trace) = (Ok (), tr')"
  shows "unat (clk tr') \<le> unat (clk tr) + 32768 * (dur div 1000000000 + 1) + 2"
proof -
  let ?n = "32768 * (dur div 1000000000 + 1)"
  obtain start t0 s0 where now: "(instant_now hw tr :: ('e, instant) outcome \<times> trace) = (Ok start, s0)"
      and t0: "suffix t0 s0" "start = clk t0" and c0: "unat (clk s0) \<le> unat (clk tr) + 1"
    using now_result [where 'e = 'e] by metis
  let ?P = "\<lambda>(_ :: unit) s. suffix s0 s \<and> unat (clk s) \<le> unat (clk s0) + ?n"
  have round: "unat (clk s) < unat (clk s0) + ?n \<and> suffix s s' \<and> unat (clk s') \<le> unat (clk s) + 1 \<or>
      (\<forall>b'. r \<noteq> Ok (Inl b')) \<and> unat (clk s') \<le> unat (clk s) + 1"
    if "wait_round hw dur start b s = (r :: ('e, unit + unit) outcome, s')" "suffix s0 s" for b s s' r
  proof -
    obtain v t s1 where n: "(instant_now hw s :: ('e, instant) outcome \<times> trace) = (Ok v, s1)"
        and t: "suffix s t" "suffix t s1" "v = clk t" and c1: "unat (clk s1) \<le> unat (clk s) + 1"
      using now_result [where 'e = 'e] by metis
    have le: "start \<le> v" "clk s \<le> v" "start \<le> clk s0"
      using t t0 that(2) mono by (auto intro: suffix_order.trans)
    have "dur < unchecked_duration_since v start" if "\<not> unat (clk s) < unat (clk s0) + ?n"
    proof -
      have "?n \<le> unat v - unat start"
        using that le by (simp add: word_le_nat_alt)
      then have "dur < ticks_ns (unat (v - start))"
        using le(1) by (intro ticks_ns_enough) (simp add: unat_sub)
      then show ?thesis by (simp add: duration_ticks)
    qed
    then show ?thesis
      using that(1) n t c1
      by (cases "unchecked_duration_since v start < dur")
        (auto simp: wait_round_def abind_def aret_def intro: suffix_order.trans)
  qed
  have loop: "aloop (wait_round hw dur start) () s0 = (Ok () :: ('e, unit) outcome, tr')"
    using assms now by (simp add: wait_def)
  have nh: "(Ok () :: ('e, unit) outcome) \<noteq> Hang" by simp
  have P0: "?P () s0" by simp
  have step: "?P b' s'" if "?P b s" "wait_round hw dur start b s = (Ok (Inl b') :: ('e, unit + unit) outcome, s')" for b s b' s'
    using round [OF that(2)] that(1) by (auto intro: suffix_order.trans)
  obtain b s and r1 :: "('e, unit + unit) outcome" where P: "?P b s" and last: "wait_round hw dur start b s = (r1, tr')"
    by (rule aloop_last [OF loop nh, where P = ?P]) (rule P0 | erule (1) step | erule (1) that)+
  then show ?thesis using round [OF last] c0 by auto
qed

text \<open>\<^verbatim>\<open>wait_for_or_timeout\<close> ends, whatever the condition does, if the condition itself always returns.\<close>

lemma wait_for_ends:
  fixes cond :: "('e, bool \<times> 'x) io"
  assumes "0 < K" "unat (clk tr) + 32768 * (timeout div 1000000000 + 1) + 1 < 2 ^ 63"
    and cond: "grows cond" "\<And>s. \<exists>c s'. cond s = (Ok c, s')"
  shows "\<exists>x tr'. wait_for_or_timeout hw cond timeout tr = (Ok x, tr')"
proof -
  let ?n = "32768 * (timeout div 1000000000 + 1)"
  obtain start t0 s0 where now: "(instant_now hw tr :: ('e, instant) outcome \<times> trace) = (Ok start, s0)"
      and t0: "suffix tr t0" "suffix t0 s0" "start = clk t0" and c0: "unat (clk s0) \<le> unat (clk tr) + 1"
    using now_result [where 'e = 'e] by metis
  have "\<exists>a s'. aloop (poll_round hw cond timeout start) () s0 = (Ok a, s')"
  proof (rule polling_ends [OF assms(1)])
    show "unat (clk s0) + ?n < 2 ^ 63" using c0 assms(2) by linarith
    fix s assume s: "suffix s0 s"
    obtain c x s1 where c: "cond s = (Ok (c, x), s1)" using cond(2) [of s] by auto
    then have s1: "suffix s s1" using growsD [OF cond(1)] by simp
    show "\<exists>y s'. poll_round hw cond timeout start () s = (Ok y, s') \<and> suffix s s' \<and>
        (y = Inl () \<longrightarrow> length s < length s' \<and> unat (clk s) < unat (clk s0) + ?n)"
    proof (cases c)
      case True
      then show ?thesis using c s1 by (simp add: poll_round_def)
    next
      case False
      obtain v t s' where n: "(instant_now hw s1 :: ('e, instant) outcome \<times> trace) = (Ok v, s')"
          and t: "suffix s1 t" "suffix t s'" "v = clk t" and len: "length s1 < length s'"
        using now_result [where 'e = 'e] by metis
      have le: "start \<le> v" "clk s \<le> v" "start \<le> clk s0"
        using t t0 s s1 mono by (auto intro: suffix_order.trans)
      have e: "elapsed hw start s1 = (Ok (unchecked_duration_since v start) :: ('e, duration) outcome, s')"
        using n le(1) by (simp add: elapsed_def duration_since_def)
      have "unat (clk s) < unat (clk s0) + ?n" if "\<not> timeout < unchecked_duration_since v start"
      proof (rule ccontr)
        assume "\<not> unat (clk s) < unat (clk s0) + ?n"
        then have "?n \<le> unat v - unat start"
          using le by (simp add: word_le_nat_alt)
        then have "timeout < ticks_ns (unat (v - start))"
          using le(1) by (intro ticks_ns_enough) (simp add: unat_sub)
        then show False using that by (simp add: duration_ticks)
      qed
      moreover have "suffix s s'" "length s < length s'"
        using s1 t len suffix_length_le [OF s1] by (auto intro: suffix_order.trans)
      ultimately show ?thesis
        using c False e by (auto simp: poll_round_def)
    qed
  qed
  then show ?thesis using now by (auto simp: wait_for_or_timeout_def)
qed

end

section \<open>A clock\<close>

text \<open>
  Hardware whose counter ticks every sixteen accesses and stops shortly before its end; all
  other registers read as given by \<open>f\<close>.
\<close>

definition tick_clk :: "trace \<Rightarrow> u64" where
  "tick_clk tr = of_nat (min (length tr div 16) (2 ^ 63))"

definition tick_hw :: "(trace \<Rightarrow> reg \<Rightarrow> u32) \<Rightarrow> (trace \<Rightarrow> u32 \<Rightarrow> nat \<Rightarrow> bytes) \<Rightarrow> hw" where
  "tick_hw f g =
     \<lparr>answer = (\<lambda>tr r. if r = Snvs RTCMR then ucast (drop_bit 32 (tick_clk tr))
        else if r = Snvs RTCLR then ucast (tick_clk tr) else f tr r),
      dma_memory = g\<rparr>"

lemma unat_tick_clk: "unat (tick_clk tr) = min (length tr div 16) (2 ^ 63)"
  unfolding tick_clk_def by (rule unat_of_nat_small) simp

interpretation tick: running_rtc "tick_hw f g" tick_clk 16
proof unfold_locales
  fix tr
  show "ucast (answer (tick_hw f g) tr (Snvs RTCMR)) = drop_bit 32 (tick_clk tr)"
    by (rule bit_word_eqI) (auto simp: tick_hw_def bit_simps dest: bit_imp_le_length)
  show "ucast (answer (tick_hw f g) tr (Snvs RTCLR)) = take_bit 32 (tick_clk tr)"
    by (rule bit_word_eqI) (auto simp: tick_hw_def bit_simps)
next
  fix tr tr' :: trace assume "suffix tr tr'"
  then have "length tr div 16 \<le> length tr' div 16" by (intro div_le_mono suffix_length_le)
  then show "tick_clk tr \<le> tick_clk tr'" by (simp add: word_le_nat_alt unat_tick_clk)
next
  fix es tr :: trace assume "length es \<le> 8"
  then have "(length es + length tr) div 16 \<le> length tr div 16 + 1" by linarith
  then show "unat (tick_clk (es @ tr)) \<le> unat (tick_clk tr) + 1" by (simp add: unat_tick_clk)
next
  fix es tr :: trace assume "16 \<le> length es" "unat (tick_clk tr) < 2 ^ 63"
  then have "length tr div 16 < (length es + length tr) div 16" "length tr div 16 < 2 ^ 63"
    by (auto simp: unat_tick_clk)
  then show "unat (tick_clk tr) < unat (tick_clk (es @ tr))" by (simp add: unat_tick_clk)
qed

section \<open>Properties\<close>

text \<open>
  C22. No torn reads: on hardware whose two RTC registers show the halves of a counter that never
  decreases, \<^verbatim>\<open>Instant::now\<close> returns the value the counter had at one moment of the call.
\<close>

theorem instant_now_atomic:
  assumes "rtc hw clk" "instant_now hw tr = (Ok v, tr')"
  shows "\<exists>tr1. suffix tr tr1 \<and> suffix tr1 tr' \<and> v = clk tr1 \<and> clk tr \<le> v \<and> v \<le> clk tr'"
proof -
  obtain tr1 where t: "suffix tr tr1" "suffix tr1 tr'" "v = clk tr1"
    using rtc.now_value [OF assms refl] by blast
  then show ?thesis using rtc.mono [OF assms(1)] by blast
qed

definition example_hw :: hw where
  "example_hw = tick_hw (\<lambda>tr r. 0) (\<lambda>tr a n. replicate n 0)"

lemma example_hw_clock: "rtc example_hw tick_clk" "running_rtc example_hw tick_clk 16"
  unfolding example_hw_def by (rule tick.rtc_axioms tick.running_rtc_axioms)+

theorem instant_now_atomic_witness:
  "\<exists>v tr'. (instant_now example_hw [] :: (unit, instant) outcome \<times> trace) = (Ok v, tr') \<and> v \<le> tick_clk tr'"
proof -
  obtain v tr' where now: "(instant_now example_hw [] :: (unit, instant) outcome \<times> trace) = (Ok v, tr')"
    using running_rtc.now_ends [OF example_hw_clock(2)] by blast
  then show ?thesis using instant_now_atomic [OF example_hw_clock(1) now] by blast
qed

text \<open>
  A measured duration against the ticks of the 32768 Hz clock: it never exceeds the real
  time and never decreases, but its part below a second is only an eighth of the real one (the
  code divides by 2^9 where one tick is 1953125 / 2^6 ns), so 999 ms are reported as 124 ms.
\<close>

lemma duration_since_eighth:
  assumes "earlier \<le> later"
  shows "duration_since later earlier = Ok (ticks_ns (unat later - unat earlier)) \<and>
    ticks_ns n * 32768 \<le> n * 1000000000 \<and> (m \<le> n \<longrightarrow> ticks_ns m \<le> ticks_ns n) \<and>
    ticks_ns n = n div 32768 * 1000000000 + (n mod 32768 * 1953125 div 64) div 8"
proof -
  have "ticks_ns n = n div 32768 * 1000000000 + (n mod 32768 * 1953125 div 64) div 8"
    by (simp add: ticks_ns_def div_mult2_eq [symmetric] mult.commute)
  moreover have "duration_since later earlier = Ok (ticks_ns (unat later - unat earlier))"
    using assms by (simp add: duration_since_def duration_ticks unat_sub)
  ultimately show ?thesis
    by (intro conjI impI ticks_ns_bound ticks_ns_mono) assumption+
qed

lemma duration_since_eighth_witness:
  "(duration_since 32767 0 :: (unit, duration) outcome) = Ok 124996185"
  using duration_since_eighth [of 0 32767 0 0] by (simp add: ticks_ns_def)



text \<open>
  \<^verbatim>\<open>wait_for_or_timeout\<close> always returns on a clock that runs, also when the condition never
  becomes true, provided the condition itself returns.
\<close>

lemma wait_for_terminates:
  fixes cond :: "('e, bool \<times> 'x) io"
  assumes "running_rtc hw clk K" "0 < K" "unat (clk tr) + 32768 * (timeout div 1000000000 + 1) + 1 < 2 ^ 63"
    and "grows cond" "\<And>s. \<exists>c s'. cond s = (Ok c, s')"
  shows "\<exists>x tr'. wait_for_or_timeout hw cond timeout tr = (Ok x, tr')"
  using running_rtc.wait_for_ends [OF assms] .

lemma wait_for_terminates_witness:
  "\<exists>x tr'. wait_for_or_timeout example_hw
     (abind (rd example_hw (Usdhc INT_STATUS)) (\<lambda>v. aret (v \<noteq> 0, v)) :: (unit, bool \<times> u32) io)
     (from_millis 100) [] = (Ok x, tr')"
proof (rule wait_for_terminates [OF example_hw_clock(2)])
  show "unat (tick_clk []) + 32768 * (from_millis 100 div 1000000000 + 1) + 1 < 2 ^ 63"
    by (simp add: unat_tick_clk from_millis_def)
  show "grows (abind (rd example_hw (Usdhc INT_STATUS)) (\<lambda>v. aret (v \<noteq> 0, v)) :: (unit, bool \<times> u32) io)"
    by (intro trace_rules)
qed (simp_all add: abind_def rd_def)

end
