(* ===== verification/Emmc.thy ===== *)
theory Emmc
  imports EmmcCmd Clock Storage
begin

text \<open>
  The eMMC driver of \<^verbatim>\<open>firmware/usbarmory/src/emmc.rs\<close> over the trace model of the uSDHC
  registers: sending a command, reading and writing a block, the initialisation of the card,
  and the driver as a block device of theory Storage.
\<close>

section \<open>The driver and its constants\<close>

datatype bus_width = Width1 | Width8

fun dtw :: "bus_width \<Rightarrow> u8" where
  "dtw Width1 = 0" | "dtw Width8 = 2"

definition ddr :: "bus_width \<Rightarrow> bool" where "ddr w = False"

datatype frequency = K400 | M20

datatype emmc_error = Timeout | NotInTransferState | Other | Card status

record emmc =
  selected :: "rca option"
  blocks :: u32
  width :: bus_width

definition INT_STATUS_CC :: u32 where "INT_STATUS_CC = push_bit 0 1"
definition INT_STATUS_TC :: u32 where "INT_STATUS_TC = push_bit 1 1"
definition INT_STATUS_DINT :: u32 where "INT_STATUS_DINT = push_bit 3 1"
definition INT_STATUS_CTOE :: u32 where "INT_STATUS_CTOE = push_bit 16 1"
definition INT_STATUS_CCE :: u32 where "INT_STATUS_CCE = push_bit 17 1"
definition INT_STATUS_CEBE :: u32 where "INT_STATUS_CEBE = push_bit 18 1"
definition INT_STATUS_CIE :: u32 where "INT_STATUS_CIE = push_bit 19 1"
definition INT_STATUS_DTOE :: u32 where "INT_STATUS_DTOE = push_bit 20 1"
definition INT_STATUS_DCE :: u32 where "INT_STATUS_DCE = push_bit 21 1"
definition INT_STATUS_DEBE :: u32 where "INT_STATUS_DEBE = push_bit 22 1"
definition INT_STATUS_DMAE :: u32 where "INT_STATUS_DMAE = push_bit 28 1"

definition INT_STATUS_ANY_ERROR :: u32 where
  "INT_STATUS_ANY_ERROR = INT_STATUS_CTOE OR INT_STATUS_CCE OR INT_STATUS_CEBE OR INT_STATUS_CIE OR
     INT_STATUS_DTOE OR INT_STATUS_DCE OR INT_STATUS_DEBE OR INT_STATUS_DMAE"

definition PRES_STATE_CDIHB :: u32 where "PRES_STATE_CDIHB = push_bit 1 1"
definition PRES_STATE_CIHB :: u32 where "PRES_STATE_CIHB = push_bit 0 1"
definition PRES_STATE_DLA :: u32 where "PRES_STATE_DLA = push_bit 2 1"

definition MIX_CTRL_RESERVED :: u32 where "MIX_CTRL_RESERVED = push_bit 31 1"
definition MIX_CTRL_DTDSEL_READ :: u32 where "MIX_CTRL_DTDSEL_READ = push_bit 4 1"
definition MIX_CTRL_DTDSEL_WRITE :: u32 where "MIX_CTRL_DTDSEL_WRITE = 0"
definition MIX_CTRL_MBSEL_SINGLE :: u32 where "MIX_CTRL_MBSEL_SINGLE = 0"
definition MIX_CTRL_DMAEN_ENABLE :: u32 where "MIX_CTRL_DMAEN_ENABLE = push_bit 0 1"
definition MIX_CTRL_DDR_EN :: u32 where "MIX_CTRL_DDR_EN = push_bit 3 1"
definition VEND_SPEC_CKEN :: u32 where "VEND_SPEC_CKEN = push_bit 14 1"
definition RCA :: rca where "RCA = 2"

text \<open>The reset value of \<^verbatim>\<open>WTMK_LVL\<close>, from \<^verbatim>\<open>imx6ul-pac\<close>.\<close>

definition WTMK_LVL_RESET :: u32 where "WTMK_LVL_RESET = 0x08100810"

definition emmc_timeout :: duration where "emmc_timeout = from_millis 100"

abbreviation usdhc_rd :: "hw \<Rightarrow> usdhc_reg \<Rightarrow> ('e, u32) io" where
  "usdhc_rd hw r \<equiv> rd hw (Usdhc r)"

abbreviation usdhc_wr :: "usdhc_reg \<Rightarrow> u32 \<Rightarrow> ('e, unit) io" where
  "usdhc_wr r v \<equiv> wr (Usdhc r) v"

section \<open>Sending a command\<close>

text \<open>The value of \<^verbatim>\<open>CMD_XFR_TYP\<close> for a command of type \<open>ty\<close>.\<close>

definition cmd_word :: "u8 \<Rightarrow> emmc_command \<Rightarrow> u32" where
  "cmd_word ty c =
     push_bit 24 (ucast (cmd_index c)) OR push_bit 22 (ucast ty) OR
     (if data_present c then push_bit 21 1 else 0) OR
     (if cicen c then push_bit 20 1 else 0) OR
     (if cccen c then push_bit 19 1 else 0) OR
     push_bit 16 (ucast (response_type c))"

text \<open>The end of a poll of \<^verbatim>\<open>INT_STATUS\<close>: the status is checked for errors and cleared.\<close>

definition poll_int_status :: "hw \<Rightarrow> (u32 \<Rightarrow> bool) \<Rightarrow> (emmc_error, u32 option) io" where
  "poll_int_status hw p =
     wait_for_or_timeout hw (abind (usdhc_rd hw INT_STATUS) (\<lambda>v. aret (p v, v))) emmc_timeout"

definition check_int_status :: "u32 \<Rightarrow> u32 \<Rightarrow> (emmc_error, unit) io" where
  "check_int_status int_status done_bits =
     (if int_status AND INT_STATUS_CTOE \<noteq> 0 then
        abind (usdhc_wr INT_STATUS INT_STATUS_CTOE) (\<lambda>_. alift (Err Timeout))
      else if int_status AND INT_STATUS_ANY_ERROR \<noteq> 0 then
        abind (usdhc_wr INT_STATUS (int_status AND INT_STATUS_ANY_ERROR)) (\<lambda>_. alift (Err Other))
      else usdhc_wr INT_STATUS done_bits)"

text \<open>\<^verbatim>\<open>send_command\<close> up to the write that issues the command, and from there on.\<close>

definition assert_idle :: "hw \<Rightarrow> profile \<Rightarrow> (emmc_error, unit) io" where
  "assert_idle hw p =
     (if p = Dev
      then abind (usdhc_rd hw INT_STATUS) (\<lambda>v. alift (oassert (v AND INT_STATUS_CC = 0)))
      else aret ())"

definition issue_cmd :: "hw \<Rightarrow> profile \<Rightarrow> emmc_command \<Rightarrow> (emmc_error, unit) io" where
  "issue_cmd hw p c =
     abind (assert_idle hw p) (\<lambda>_.
     abind (await hw (Usdhc PRES_STATE)
       (\<lambda>v. v AND (PRES_STATE_CIHB OR PRES_STATE_CDIHB OR PRES_STATE_DLA) = 0)) (\<lambda>_.
     abind (alift (cmdtyp c)) (\<lambda>ty.
     abind (wait hw (from_micros 20)) (\<lambda>_.
     abind (usdhc_wr CMD_ARG (cmd_arg c)) (\<lambda>_.
     usdhc_wr CMD_XFR_TYP (cmd_word ty c))))))"

definition complete_data :: "hw \<Rightarrow> (emmc_error, unit) io" where
  "complete_data hw =
     abind (poll_int_status hw (\<lambda>v. v AND INT_STATUS_ANY_ERROR \<noteq> 0 \<or>
         v AND (INT_STATUS_TC OR INT_STATUS_DINT) = INT_STATUS_TC OR INT_STATUS_DINT)) (\<lambda>polled.
     case polled of
       None \<Rightarrow> alift (Err Timeout)
     | Some int_status \<Rightarrow> check_int_status int_status (INT_STATUS_TC OR INT_STATUS_DINT))"

definition complete_cmd :: "hw \<Rightarrow> emmc_command \<Rightarrow> (emmc_error, u32) io" where
  "complete_cmd hw c =
     abind (poll_int_status hw (\<lambda>v. v AND (INT_STATUS_ANY_ERROR OR INT_STATUS_CC) \<noteq> 0)) (\<lambda>polled.
     case polled of
       None \<Rightarrow> alift (Err Timeout)
     | Some int_status \<Rightarrow>
         abind (check_int_status int_status INT_STATUS_CC) (\<lambda>_.
         abind (usdhc_rd hw CMD_RSP0) (\<lambda>rsp.
         abind (if cmd_response c = R1 \<or> cmd_response c = R1b
                then alift (omap_err Card (obind (status_from rsp) (\<lambda>_. Ok ()))) else aret ()) (\<lambda>_.
         if data_present c then abind (complete_data hw) (\<lambda>_. aret rsp) else aret rsp))))"

definition send_cmd :: "hw \<Rightarrow> profile \<Rightarrow> emmc_command \<Rightarrow> (emmc_error, u32) io" where
  "send_cmd hw p c = abind (issue_cmd hw p c) (\<lambda>_. complete_cmd hw c)"

definition get_card_status :: "hw \<Rightarrow> profile \<Rightarrow> rca \<Rightarrow> (emmc_error, status) io" where
  "get_card_status hw p rca =
     abind (send_cmd hw p (SendStatus rca)) (\<lambda>rsp. alift (omap_err Card (status_from rsp)))"

definition clear_command_inhibit :: "hw \<Rightarrow> (emmc_error, unit) io" where
  "clear_command_inhibit hw =
     abind (rmw hw (Usdhc SYS_CTRL) (\<lambda>r. r OR push_bit 25 1)) (\<lambda>_.
     abind (wait_for_or_timeout hw
       (abind (usdhc_rd hw SYS_CTRL) (\<lambda>v. aret (v AND push_bit 25 1 = 0, ()))) emmc_timeout) (\<lambda>polled.
     if polled = None then alift Reset else aret ()))"

section \<open>Blocks\<close>

text \<open>The common part of both transfers: direction, DMA address, block size, watermark.\<close>

definition setup_transfer :: "hw \<Rightarrow> emmc \<Rightarrow> u32 \<Rightarrow> (emmc_error, unit) io \<Rightarrow> u32 \<Rightarrow> (emmc_error, unit) io" where
  "setup_transfer hw E dtdsel release addr =
     abind (usdhc_wr MIX_CTRL (MIX_CTRL_RESERVED OR (if ddr (width E) then MIX_CTRL_DDR_EN else 0) OR
       MIX_CTRL_MBSEL_SINGLE OR dtdsel OR MIX_CTRL_DMAEN_ENABLE)) (\<lambda>_.
     abind (await hw (Usdhc PRES_STATE) (\<lambda>v. v AND PRES_STATE_DLA = 0)) (\<lambda>_.
     abind (usdhc_wr INT_STATUS INT_STATUS_TC) (\<lambda>_.
     abind release (\<lambda>_.
     abind (usdhc_wr DS_ADDR addr) (\<lambda>_.
     abind (usdhc_wr BLK_ATT (push_bit 16 1 OR of_nat BLOCK_SIZE)) (\<lambda>_.
     usdhc_wr WTMK_LVL WTMK_LVL_RESET))))))"

definition check_transfer_state :: "hw \<Rightarrow> profile \<Rightarrow> emmc \<Rightarrow> u32 \<Rightarrow> (emmc_error, rca) io" where
  "check_transfer_state hw p E addr =
     (case selected E of
        None \<Rightarrow> alift Reset
      | Some rca \<Rightarrow>
          abind (alift (odebug_assert p (addr mod 4 = 0))) (\<lambda>_.
          abind (get_card_status hw p rca) (\<lambda>st.
          if \<not> ready_for_data st \<or> state st \<noteq> Transfer then alift (Err NotInTransferState)
          else aret rca)))"

definition read_single_block ::
  "hw \<Rightarrow> profile \<Rightarrow> emmc \<Rightarrow> u32 option \<Rightarrow> u32 \<Rightarrow> (emmc_error, unit) io" where
  "read_single_block hw p E block_nr addr =
     abind (check_transfer_state hw p E addr) (\<lambda>_.
     abind (setup_transfer hw E MIX_CTRL_DTDSEL_READ (aret ()) addr) (\<lambda>_.
     abind (send_cmd hw p (case block_nr of Some n \<Rightarrow> ReadSingleBlock n | None \<Rightarrow> SendExtCsd)) (\<lambda>rsp.
     alift (omap_err Card (obind (status_from rsp) (\<lambda>_. Ok ()))))))"

text \<open>Waiting for the card to program what it received, with a reset after the time-out.\<close>

definition program_round :: "hw \<Rightarrow> profile \<Rightarrow> rca \<Rightarrow> instant \<Rightarrow> unit \<Rightarrow> (emmc_error, unit + unit) io" where
  "program_round hw p rca t0 = (\<lambda>_.
     abind (get_card_status hw p rca) (\<lambda>st.
     if state st = Transfer then aret (Inr ())
     else abind (elapsed hw t0) (\<lambda>d.
          if emmc_timeout < d then alift Reset else aret (Inl ()))))"

definition finish_write :: "hw \<Rightarrow> profile \<Rightarrow> rca \<Rightarrow> status \<Rightarrow> (emmc_error, unit) io" where
  "finish_write hw p rca st =
     (if state st = Programming then
        abind (instant_now hw) (\<lambda>t0. aloop (program_round hw p rca t0) ())
      else aret ())"

definition write_single_block ::
  "hw \<Rightarrow> profile \<Rightarrow> emmc \<Rightarrow> u32 \<Rightarrow> u32 \<Rightarrow> bytes \<Rightarrow> (emmc_error, unit) io" where
  "write_single_block hw p E block_nr addr block =
     abind (check_transfer_state hw p E addr) (\<lambda>rca.
     abind (setup_transfer hw E MIX_CTRL_DTDSEL_WRITE (hand_over addr block) addr) (\<lambda>_.
     abind (send_cmd hw p (WriteSingleBlock block_nr)) (\<lambda>rsp.
     abind (alift (omap_err Card (status_from rsp))) (\<lambda>st.
     finish_write hw p rca st))))"

text \<open>
  \<^verbatim>\<open>eMMC::read\<close> and \<^verbatim>\<open>write\<close>: the buffer of the block is at address \<open>addr\<close>, and a read gives
  what the DMA left there.
\<close>

definition emmc_read :: "hw \<Rightarrow> profile \<Rightarrow> emmc \<Rightarrow> u32 \<Rightarrow> u32 \<Rightarrow> (emmc_error, bytes) io" where
  "emmc_read hw p E addr block_nr =
     abind (alift (oassert (block_nr < blocks E))) (\<lambda>_.
     abind (read_single_block hw p E (Some block_nr) addr) (\<lambda>_.
     (\<lambda>tr. (Ok (dma_memory hw tr addr BLOCK_SIZE), tr))))"

definition emmc_write :: "hw \<Rightarrow> profile \<Rightarrow> emmc \<Rightarrow> u32 \<Rightarrow> u32 \<Rightarrow> bytes \<Rightarrow> (emmc_error, unit) io" where
  "emmc_write hw p E addr block_nr block =
     abind (alift (oassert (block_nr < blocks E))) (\<lambda>_.
     write_single_block hw p E block_nr addr block)"

definition emmc_dev :: "hw \<Rightarrow> profile \<Rightarrow> emmc \<Rightarrow> u32 \<Rightarrow> (trace, emmc_error) blockdev" where
  "emmc_dev hw p E addr =
     \<lparr>total_blocks = (\<lambda>_. ucast (blocks E)),
      dev_read = (\<lambda>lba. if ucast (blocks E) < lba then alift (Err Other)
        else emmc_read hw p E addr (ucast lba)),
      dev_write = (\<lambda>b lba. if ucast (blocks E) < lba then alift (Err Other)
        else emmc_write hw p E addr (ucast lba) b),
      dev_flush = aret ()\<rparr>"

section \<open>Initialisation\<close>

definition select_card :: "hw \<Rightarrow> profile \<Rightarrow> emmc \<Rightarrow> rca \<Rightarrow> (emmc_error, emmc) io" where
  "select_card hw p E rca =
     abind (alift (oassert (rca = RCA))) (\<lambda>_.
     abind (send_cmd hw p (SelectCard (Some rca))) (\<lambda>_.
     abind (send_cmd hw p (SetBlockLen (of_nat BLOCK_SIZE))) (\<lambda>_.
     aret (E\<lparr>selected := Some rca\<rparr>))))"

definition register_cards :: "hw \<Rightarrow> profile \<Rightarrow> (emmc_error, unit) io" where
  "register_cards hw p =
     abind (send_cmd hw p AllSendCid) (\<lambda>_.
     abind (usdhc_rd hw CMD_RSP1) (\<lambda>_.
     abind (usdhc_rd hw CMD_RSP2) (\<lambda>_.
     abind (usdhc_rd hw CMD_RSP3) (\<lambda>_.
     abind (send_cmd hw p (SetRelativeAddr RCA)) (\<lambda>_. aret ())))))"

definition voltage_round :: "hw \<Rightarrow> profile \<Rightarrow> instant \<Rightarrow> unit \<Rightarrow> (emmc_error, unit + unit) io" where
  "voltage_round hw p t0 = (\<lambda>_.
     abind (send_cmd hw p (SendOpCond 0x00FF8000)) (\<lambda>ocr.
     if ocr AND push_bit 31 1 \<noteq> 0 then aret (Inr ())
     else abind (elapsed hw t0) (\<lambda>d.
          if emmc_timeout < d then alift Reset
          else abind (wait hw (from_millis 1)) (\<lambda>_. aret (Inl ())))))"

definition voltage_validation :: "hw \<Rightarrow> profile \<Rightarrow> (emmc_error, unit) io" where
  "voltage_validation hw p =
     abind (instant_now hw) (\<lambda>t0. aloop (voltage_round hw p t0) ())"

definition reset_cards :: "hw \<Rightarrow> profile \<Rightarrow> (emmc_error, unit) io" where
  "reset_cards hw p = abind (send_cmd hw p GoIdleState) (\<lambda>_. aret ())"

definition change_bus_width :: "hw \<Rightarrow> profile \<Rightarrow> emmc \<Rightarrow> bus_width \<Rightarrow> bool \<Rightarrow> (emmc_error, emmc) io" where
  "change_bus_width hw p E w switch =
     abind (if switch then
              abind (send_cmd hw p (Switch (case w of Width1 \<Rightarrow> 0x03B70000 | Width8 \<Rightarrow> 0x03B70200))) (\<lambda>_. aret ())
            else aret ()) (\<lambda>_.
     abind (rmw hw (Usdhc PROT_CTRL) (\<lambda>r. (r AND NOT (push_bit 1 3)) OR push_bit 1 (ucast (dtw w)))) (\<lambda>_.
     aret (E\<lparr>width := w\<rparr>)))"

definition change_frequency :: "hw \<Rightarrow> frequency \<Rightarrow> (emmc_error, unit) io" where
  "change_frequency hw f =
     abind (await hw (Usdhc PRES_STATE) (\<lambda>v. v AND push_bit 3 1 \<noteq> 0)) (\<lambda>_.
     abind (rmw hw (Usdhc VEND_SPEC) (\<lambda>v. v AND NOT VEND_SPEC_CKEN)) (\<lambda>_.
     let (sdclkfs, dvs) = (case f of K400 \<Rightarrow> (0x20, 8) | M20 \<Rightarrow> (0x01, 4)) in
     abind (rmw hw (Usdhc SYS_CTRL) (\<lambda>r.
       let r = (r AND NOT (push_bit 4 15)) OR push_bit 4 dvs
       in (r AND NOT (push_bit 8 0xFF)) OR push_bit 8 sdclkfs)) (\<lambda>_.
     abind (await hw (Usdhc PRES_STATE) (\<lambda>v. v AND push_bit 3 1 \<noteq> 0)) (\<lambda>_.
     rmw hw (Usdhc VEND_SPEC) (\<lambda>v. v OR VEND_SPEC_CKEN)))))"

definition software_reset :: "hw \<Rightarrow> profile \<Rightarrow> emmc \<Rightarrow> (emmc_error, emmc) io" where
  "software_reset hw p E =
     abind (await hw (Usdhc PRES_STATE) (\<lambda>v. v AND (PRES_STATE_CDIHB OR PRES_STATE_CIHB) = 0)) (\<lambda>_.
     abind (rmw hw (Usdhc VEND_SPEC) (\<lambda>v. v AND NOT VEND_SPEC_CKEN)) (\<lambda>_.
     abind (rmw hw (Usdhc SYS_CTRL) (\<lambda>r. r OR push_bit 24 1)) (\<lambda>_.
     abind (await hw (Usdhc SYS_CTRL) (\<lambda>v. v AND push_bit 24 1 = 0)) (\<lambda>_.
     abind (change_bus_width hw p E Width1 False) (\<lambda>E.
     abind (change_frequency hw K400) (\<lambda>_.
     abind (wait hw (from_millis 1)) (\<lambda>_.
     abind (rmw hw (Usdhc SYS_CTRL) (\<lambda>r. r OR push_bit 27 1)) (\<lambda>_.
     aret E))))))))"

text \<open>\<^verbatim>\<open>.expect("fatal")\<close> on the result of a call.\<close>

definition fatal :: "(emmc_error, 'a) io \<Rightarrow> (emmc_error, 'a) io" where
  "fatal m = (\<lambda>tr. case m tr of (Err e, tr') \<Rightarrow> (Panic, tr') | x \<Rightarrow> x)"

text \<open>\<^verbatim>\<open>SRC.SBMR1\<close>, the boot mode register.\<close>

definition SBMR1 :: reg where "SBMR1 = Reg 0x020D8004"

text \<open>
  \<^verbatim>\<open>eMMC::take\<close> the first time it is called (\<^verbatim>\<open>uSDHC2::take\<close> gives \<^verbatim>\<open>None\<close> after that); \<open>addr\<close> is
  where the EXT_CSD buffer lies.
\<close>

definition emmc_take :: "hw \<Rightarrow> profile \<Rightarrow> u32 \<Rightarrow> (emmc_error, emmc) io" where
  "emmc_take hw p addr =
     abind (rd hw SBMR1) (\<lambda>sbmr1.
     abind (alift (oassert (sbmr1 AND 0xE0 \<noteq> 0x40))) (\<lambda>_.
     abind (usdhc_wr INT_STATUS 0xFFFFFFFF) (\<lambda>_.
     abind (rmw hw (Usdhc PROT_CTRL) (\<lambda>r. r AND NOT (push_bit 8 3))) (\<lambda>_.
     abind (software_reset hw p \<lparr>selected = Some RCA, blocks = 0, width = Width8\<rparr>) (\<lambda>E.
     abind (fatal (reset_cards hw p)) (\<lambda>_.
     abind (fatal (voltage_validation hw p)) (\<lambda>_.
     abind (fatal (register_cards hw p)) (\<lambda>_.
     abind (fatal (select_card hw p E RCA)) (\<lambda>E.
     abind (fatal (change_bus_width hw p E Width8 True)) (\<lambda>E.
     abind (change_frequency hw M20) (\<lambda>_.
     abind (fatal (read_single_block hw p E None addr)) (\<lambda>_.
     (\<lambda>tr. let ext_csd = dma_memory hw tr addr 512 in
       (Ok (E\<lparr>blocks := le32_of (ext_csd ! 212) (ext_csd ! 213) (ext_csd ! 214) (ext_csd ! 215)\<rparr>), tr))))))))))))))"

section \<open>Errors as text\<close>

fun emmc_error_display :: "(u32 \<Rightarrow> string) \<Rightarrow> emmc_error \<Rightarrow> string" where
  "emmc_error_display hex10 Timeout = ''timeout''"
| "emmc_error_display hex10 NotInTransferState = ''card not in transfer state''"
| "emmc_error_display hex10 Other = ''unclassified error''"
| "emmc_error_display hex10 (Card s) = ''card error (code: '' @ hex10 (bits s) @ '')''"

section \<open>The command word\<close>

lemma cmdtyp_Ok [simp]: "cmdtyp c = Ok 0"
  by (cases c) (simp_all add: cmdtyp_def cmd_index_def)

lemma cmd_word_simps:
  "cmd_word 0 (ReadSingleBlock n) = 0x113A0000" "cmd_word 0 (WriteSingleBlock n) = 0x183A0000"
  "cmd_word 0 SendExtCsd = 0x083A0000" "cmd_word 0 (SendStatus rca) = 0x0D1A0000"
  "cmd_word 0 GoIdleState = 0" "cmd_word 0 (SendOpCond ocr) = 0x01020000"
  "cmd_word 0 AllSendCid = 0x02090000" "cmd_word 0 (SetRelativeAddr rca) = 0x031A0000"
  "cmd_word 0 (Switch d) = 0x061B0000" "cmd_word 0 (SelectCard r) = 0x071A0000"
  "cmd_word 0 (SendCsd rca) = 0x09090000" "cmd_word 0 (SetBlockLen len) = 0x101A0000"
  by (simp_all add: cmd_word_def cmd_index_def data_present_def cicen_def cccen_def response_type_def
      cmd_type_def cmd_response_def)

lemma cmd_word_is_write:
  "cmd_word 0 c = cmd_word 0 (WriteSingleBlock n) \<longleftrightarrow> (\<exists>m. c = WriteSingleBlock m)"
  by (cases c) (simp_all add: cmd_word_simps)

section \<open>A successful command\<close>

lemma poll_trace [trace_rules]:
  "grows (poll_int_status hw p)" "silent (poll_int_status hw p)"
  unfolding poll_int_status_def by (intro trace_rules)+

lemma poll_Some:
  assumes "poll_int_status hw p tr = (Ok (Some v), tr')"
  shows "p v \<and> effects tr' = effects tr \<and> suffix tr tr' \<and> Rd (Usdhc INT_STATUS) v \<in> set tr' \<and>
    (\<exists>es. tr' = es @ tr \<and> Rd (Usdhc INT_STATUS) v \<in> set es)"
proof -
  let ?c = "abind (usdhc_rd hw INT_STATUS) (\<lambda>v. aret (p v, v)) :: (emmc_error, bool \<times> u32) io"
  have c: "grows ?c" "silent ?c" by (intro trace_rules)+
  obtain tr1 where t: "suffix tr tr1" "?c tr1 = (Ok (True, v), tr')"
    using assms unfolding poll_int_status_def by (rule wait_for_Some [OF _ refl c])
  from t(2) have v: "p v" "tr' = Rd (Usdhc INT_STATUS) v # tr1"
    by (auto simp: rd_def abind_def aret_def)
  obtain zs where zs: "tr1 = zs @ tr" using t(1) by (auto simp: suffix_def)
  then have "tr' = (Rd (Usdhc INT_STATUS) v # zs) @ tr" using v(2) by simp
  then have "\<exists>es. tr' = es @ tr \<and> Rd (Usdhc INT_STATUS) v \<in> set es" by (metis list.set_intros(1))
  then show ?thesis
    using v silentD [OF poll_trace(2) assms] t(1) by (auto simp: suffix_Cons)
qed

lemma check_int_status_Ok:
  assumes "check_int_status v d tr = (Ok (), tr')"
  shows "v AND INT_STATUS_ANY_ERROR = 0 \<and> tr' = Wr (Usdhc INT_STATUS) d # tr"
  using assms by (auto simp: check_int_status_def wr_def abind_def split: if_splits)

lemma issue_cmd_Ok:
  assumes "issue_cmd hw p c tr = (Ok (), tr')"
  obtains tr1 where "tr' = Wr (Usdhc CMD_XFR_TYP) (cmd_word 0 c) # Wr (Usdhc CMD_ARG) (cmd_arg c) # tr1"
    "effects tr1 = effects tr" "suffix tr tr1"
proof -
  have pre: "grows (assert_idle hw p)" "silent (assert_idle hw p)"
    unfolding assert_idle_def by (auto intro!: trace_rules)
  from assms obtain s1 s2 s3 where s: "assert_idle hw p tr = (Ok (), s1)"
      "await hw (Usdhc PRES_STATE)
         (\<lambda>v. v AND (PRES_STATE_CIHB OR PRES_STATE_CDIHB OR PRES_STATE_DLA) = 0) s1 = (Ok () :: (emmc_error, unit) outcome, s2)"
      "wait hw (from_micros 20) s2 = (Ok () :: (emmc_error, unit) outcome, s3)"
      "tr' = Wr (Usdhc CMD_XFR_TYP) (cmd_word 0 c) # Wr (Usdhc CMD_ARG) (cmd_arg c) # s3"
    by (auto simp: issue_cmd_def abind_Ok_iff wr_def)
  have "suffix tr s3" "effects s3 = effects tr"
    using growsD [OF pre(1) s(1)] growsD [OF grows_await s(2)] growsD [OF wait_trace(1) s(3)]
      silentD [OF pre(2) s(1)] silentD [OF silent_await s(2)] silentD [OF wait_trace(2) s(3)]
    by (auto intro: suffix_order.trans)
  then show ?thesis using s(4) that by blast
qed

text \<open>
  What is added after a command was issued: reads and writes to \<^verbatim>\<open>INT_STATUS\<close> only, and for a
  data transfer a status without error bits that shows the transfer complete.
\<close>

definition quiet :: "event \<Rightarrow> bool" where
  "quiet e \<longleftrightarrow> (case e of Rd r v \<Rightarrow> True | Wr r v \<Rightarrow> r = Usdhc INT_STATUS | Mem a b \<Rightarrow> False)"

definition transfer_seen :: "trace \<Rightarrow> bool" where
  "transfer_seen es \<longleftrightarrow> (\<exists>v. Rd (Usdhc INT_STATUS) v \<in> set es \<and> v AND INT_STATUS_ANY_ERROR = 0 \<and>
     v AND (INT_STATUS_TC OR INT_STATUS_DINT) = INT_STATUS_TC OR INT_STATUS_DINT)"

definition completion_effects :: "emmc_command \<Rightarrow> trace" where
  "completion_effects c = (if data_present c
     then [Wr (Usdhc INT_STATUS) (INT_STATUS_TC OR INT_STATUS_DINT), Wr (Usdhc INT_STATUS) INT_STATUS_CC]
     else [Wr (Usdhc INT_STATUS) INT_STATUS_CC])"

definition emmc_command_effects :: "emmc_command \<Rightarrow> trace" where
  "emmc_command_effects c = completion_effects c @
     [Wr (Usdhc CMD_XFR_TYP) (cmd_word 0 c), Wr (Usdhc CMD_ARG) (cmd_arg c)]"

lemma quiet_effects: "(\<forall>e \<in> set (effects es). quiet e) \<Longrightarrow> \<forall>e \<in> set es. quiet e"
  by (induction es rule: effects.induct) (auto simp: quiet_def)

lemma complete_data_Ok:
  assumes "complete_data hw tr = (Ok (), tr')"
  shows "effects tr' = Wr (Usdhc INT_STATUS) (INT_STATUS_TC OR INT_STATUS_DINT) # effects tr \<and>
    (\<exists>es. tr' = es @ tr \<and> transfer_seen es)"
proof -
  from assms obtain v s where p: "poll_int_status hw (\<lambda>v. v AND INT_STATUS_ANY_ERROR \<noteq> 0 \<or>
         v AND (INT_STATUS_TC OR INT_STATUS_DINT) = INT_STATUS_TC OR INT_STATUS_DINT) tr = (Ok (Some v), s)"
      and c: "check_int_status v (INT_STATUS_TC OR INT_STATUS_DINT) s = (Ok (), tr')"
    by (auto simp: complete_data_def abind_Ok_iff split: option.splits)
  note v = poll_Some [OF p] and w = check_int_status_Ok [OF c]
  obtain es where es: "s = es @ tr" "Rd (Usdhc INT_STATUS) v \<in> set es" using v by blast
  have "tr' = (Wr (Usdhc INT_STATUS) (INT_STATUS_TC OR INT_STATUS_DINT) # es) @ tr"
    using w es(1) by simp
  moreover have "transfer_seen (Wr (Usdhc INT_STATUS) (INT_STATUS_TC OR INT_STATUS_DINT) # es)"
    using v w es(2) by (auto simp: transfer_seen_def)
  moreover have "effects tr' = Wr (Usdhc INT_STATUS) (INT_STATUS_TC OR INT_STATUS_DINT) # effects tr"
    using v w by simp
  ultimately show ?thesis by blast
qed

lemma status_from_Ok: "status_from b = Ok st \<longleftrightarrow> b AND error_mask = 0 \<and> st = status_of b"
  by (auto simp: status_from_def)

lemma complete_cmd_Ok:
  assumes "complete_cmd hw c tr = (Ok rsp, tr')"
  shows "effects tr' = completion_effects c @ effects tr \<and>
    (cmd_response c = R1 \<or> cmd_response c = R1b \<longrightarrow> rsp AND error_mask = 0) \<and>
    (\<exists>es. tr' = es @ tr \<and> (data_present c \<longrightarrow> transfer_seen es))"
proof -
  from assms obtain v s1 s2 s3 where p: "poll_int_status hw (\<lambda>v. v AND (INT_STATUS_ANY_ERROR OR INT_STATUS_CC) \<noteq> 0) tr = (Ok (Some v), s1)"
      and c: "check_int_status v INT_STATUS_CC s1 = (Ok (), s2)"
      and r: "s3 = Rd (Usdhc CMD_RSP0) rsp # s2"
      and st: "cmd_response c = R1 \<or> cmd_response c = R1b \<longrightarrow> rsp AND error_mask = 0"
      and d: "if data_present c then complete_data hw s3 = (Ok (), tr') else tr' = s3"
    by (auto simp: complete_cmd_def abind_Ok_iff rd_def omap_err_Ok_iff obind_Ok_iff status_from_Ok
        split: option.splits if_splits)
  note v = poll_Some [OF p] and w = check_int_status_Ok [OF c]
  obtain es where es: "s1 = es @ tr" using v by blast
  have s3: "effects s3 = Wr (Usdhc INT_STATUS) INT_STATUS_CC # effects tr"
      "s3 = (Rd (Usdhc CMD_RSP0) rsp # Wr (Usdhc INT_STATUS) INT_STATUS_CC # es) @ tr"
    using r w v es by simp_all
  show ?thesis
  proof (cases "data_present c")
    case True
    then have "complete_data hw s3 = (Ok (), tr')" using d by simp
    from complete_data_Ok [OF this] obtain es2 where "tr' = es2 @ s3" "transfer_seen es2"
        "effects tr' = Wr (Usdhc INT_STATUS) (INT_STATUS_TC OR INT_STATUS_DINT) # effects s3"
      by blast
    moreover have "transfer_seen (es2 @ xs)" if "transfer_seen es2" for xs
      using that by (auto simp: transfer_seen_def)
    ultimately show ?thesis using s3 st True by (auto simp: completion_effects_def)
  next
    case False
    then show ?thesis using d s3 st by (auto simp: completion_effects_def)
  qed
qed

lemma send_cmd_Ok:
  assumes "send_cmd hw p c tr = (Ok rsp, tr')"
  obtains tr0 es where "tr' = es @ Wr (Usdhc CMD_XFR_TYP) (cmd_word 0 c) # Wr (Usdhc CMD_ARG) (cmd_arg c) # tr0"
    "effects es = completion_effects c" "data_present c \<Longrightarrow> transfer_seen es" "\<forall>e \<in> set es. quiet e"
    "suffix tr tr0" "effects tr0 = effects tr"
    "cmd_response c = R1 \<or> cmd_response c = R1b \<Longrightarrow> rsp AND error_mask = 0"
proof -
  from assms obtain s where i: "issue_cmd hw p c tr = (Ok (), s)" and c: "complete_cmd hw c s = (Ok rsp, tr')"
    by (auto simp: send_cmd_def abind_Ok_iff)
  obtain tr0 where s: "s = Wr (Usdhc CMD_XFR_TYP) (cmd_word 0 c) # Wr (Usdhc CMD_ARG) (cmd_arg c) # tr0"
      "effects tr0 = effects tr" "suffix tr tr0"
    by (rule issue_cmd_Ok [OF i])
  from complete_cmd_Ok [OF c] obtain es where es: "tr' = es @ s" "data_present c \<longrightarrow> transfer_seen es"
      "effects tr' = completion_effects c @ effects s"
      "cmd_response c = R1 \<or> cmd_response c = R1b \<longrightarrow> rsp AND error_mask = 0"
    by blast
  have eff: "effects es = completion_effects c" using es(1,3) by simp
  have "\<forall>e \<in> set es. quiet e"
    by (rule quiet_effects) (auto simp: eff completion_effects_def quiet_def)
  then show ?thesis using that s es eff by auto
qed

lemma send_cmd_effects:
  "send_cmd hw p c tr = (Ok rsp, tr') \<Longrightarrow> effects tr' = emmc_command_effects c @ effects tr"
  by (erule send_cmd_Ok) (simp add: emmc_command_effects_def)

section \<open>What the calls add to the trace\<close>

definition is_write_cmd :: "event \<Rightarrow> bool" where
  "is_write_cmd e \<longleftrightarrow> e = Wr (Usdhc CMD_XFR_TYP) (cmd_word 0 (WriteSingleBlock 0))"

abbreviation no_write :: "trace \<Rightarrow> trace \<Rightarrow> bool" where
  "no_write \<equiv> adds (\<lambda>e. \<not> is_write_cmd e)"

named_theorems no_write_rules "actions that issue no write command"

lemma no_write_silent: "grows m \<Longrightarrow> silent m \<Longrightarrow> keeps no_write m"
  by (rule keeps_silent [of no_write]) (auto intro!: adds_silent simp: is_write_cmd_def)

lemma no_write_wr:
  "r \<noteq> Usdhc CMD_XFR_TYP \<or> v \<noteq> cmd_word 0 (WriteSingleBlock 0) \<Longrightarrow> keeps no_write (wr r v)"
  by (auto simp: keeps_def wr_def adds_def is_write_cmd_def)

lemma no_write_wr_other [no_write_rules]:
  "keeps no_write (wr (Usdhc INT_STATUS) v)" "keeps no_write (wr (Usdhc CMD_ARG) v)"
  "keeps no_write (wr (Usdhc MIX_CTRL) v)" "keeps no_write (wr (Usdhc DS_ADDR) v)"
  "keeps no_write (wr (Usdhc BLK_ATT) v)" "keeps no_write (wr (Usdhc WTMK_LVL) v)"
  "keeps no_write (hand_over a b)"
  by (simp_all add: no_write_wr) (auto simp: keeps_def hand_over_def adds_def is_write_cmd_def)

lemmas no_write_abind [no_write_rules] = keeps_abind [OF adds_preorder]

lemmas no_write_pure [no_write_rules] = keeps_pure [OF adds_preorder]

lemmas no_write_aloop [no_write_rules] = keeps_aloop [OF adds_preorder]

lemma no_write_await [no_write_rules]: "keeps no_write (await hw r p)"
  by (intro no_write_silent trace_rules)

lemma no_write_clock [no_write_rules]:
  "keeps no_write (wait hw d)" "keeps no_write (instant_now hw)" "keeps no_write (elapsed hw t)"
  "keeps no_write (rd hw r)" "keeps no_write (poll_int_status hw q)"
  by (intro no_write_silent trace_rules)+

lemma no_write_check [no_write_rules]: "keeps no_write (check_int_status v d)"
  unfolding check_int_status_def by (auto intro!: no_write_rules)

lemma no_write_assert_idle [no_write_rules]: "keeps no_write (assert_idle hw p)"
  unfolding assert_idle_def by (auto intro!: no_write_rules)

lemma no_write_issue [no_write_rules]:
  assumes "\<And>n. c \<noteq> WriteSingleBlock n"
  shows "keeps no_write (issue_cmd hw p c)"
proof -
  have "keeps no_write (wr (Usdhc CMD_XFR_TYP) (cmd_word 0 c) :: (emmc_error, unit) io)"
    using assms cmd_word_is_write by (intro no_write_wr) blast
  then show ?thesis
    unfolding issue_cmd_def by (auto intro!: no_write_rules)
qed

lemma no_write_complete [no_write_rules]: "keeps no_write (complete_cmd hw c)"
  unfolding complete_cmd_def complete_data_def
  by (auto intro!: no_write_rules split: option.split)

lemma no_write_send [no_write_rules]:
  "(\<And>n. c \<noteq> WriteSingleBlock n) \<Longrightarrow> keeps no_write (send_cmd hw p c)"
  unfolding send_cmd_def by (intro no_write_rules)

lemma no_write_status [no_write_rules]: "keeps no_write (get_card_status hw p rca)"
  unfolding get_card_status_def by (auto intro!: no_write_rules)

lemma no_write_check_transfer [no_write_rules]: "keeps no_write (check_transfer_state hw p E addr)"
  unfolding check_transfer_state_def by (auto intro!: no_write_rules split: option.split)

lemma no_write_setup [no_write_rules]:
  "keeps no_write rel \<Longrightarrow> keeps no_write (setup_transfer hw E d rel addr)"
  unfolding setup_transfer_def by (intro no_write_rules)

lemma no_write_read [no_write_rules]: "keeps no_write (read_single_block hw p E n addr)"
  unfolding read_single_block_def by (auto intro!: no_write_rules split: option.split)

lemma no_write_program [no_write_rules]: "keeps no_write (program_round hw p rca t b)"
  unfolding program_round_def by (auto intro!: no_write_rules)

lemma no_write_finish [no_write_rules]: "keeps no_write (finish_write hw p rca st)"
  unfolding finish_write_def by (auto intro!: no_write_rules)

section \<open>A successful transfer\<close>

definition setup_effects :: "emmc \<Rightarrow> u32 \<Rightarrow> trace \<Rightarrow> u32 \<Rightarrow> trace" where
  "setup_effects E dtdsel release addr =
     [Wr (Usdhc WTMK_LVL) WTMK_LVL_RESET, Wr (Usdhc BLK_ATT) 0x10200, Wr (Usdhc DS_ADDR) addr] @ release @
     [Wr (Usdhc INT_STATUS) INT_STATUS_TC,
      Wr (Usdhc MIX_CTRL) (MIX_CTRL_RESERVED OR dtdsel OR MIX_CTRL_DMAEN_ENABLE)]"

lemma setup_transfer_Ok:
  assumes "setup_transfer hw E d rel addr tr = (Ok (), tr')"
    and "\<And>s s'. rel s = (Ok (), s') \<Longrightarrow> s' = ms @ s" "effects ms = ms"
  shows "effects tr' = setup_effects E d ms addr @ effects tr"
proof -
  from assms(1,2) obtain s1 where s1: "await hw (Usdhc PRES_STATE) (\<lambda>v. v AND PRES_STATE_DLA = 0)
        (Wr (Usdhc MIX_CTRL) (MIX_CTRL_RESERVED OR d OR MIX_CTRL_DMAEN_ENABLE) # tr) = (Ok () :: (emmc_error, unit) outcome, s1)"
      and tr': "tr' = [Wr (Usdhc WTMK_LVL) WTMK_LVL_RESET, Wr (Usdhc BLK_ATT) 0x10200, Wr (Usdhc DS_ADDR) addr] @
        ms @ Wr (Usdhc INT_STATUS) INT_STATUS_TC # s1"
    by (auto simp: setup_transfer_def abind_Ok_iff wr_def ddr_def MIX_CTRL_MBSEL_SINGLE_def BLOCK_SIZE_def)
  show ?thesis
    using tr' silentD [OF silent_await s1] assms(3) by (simp add: setup_effects_def)
qed

lemma check_transfer_Ok:
  assumes "check_transfer_state hw p E addr tr = (Ok rca, tr')"
  shows "selected E = Some rca \<and> effects tr' = emmc_command_effects (SendStatus rca) @ effects tr"
  using assms
  by (auto simp: check_transfer_state_def get_card_status_def abind_Ok_iff split: option.splits if_splits
      dest: send_cmd_effects)

lemma read_single_block_effects:
  assumes "read_single_block hw p E (Some n) addr tr = (Ok (), tr')"
  obtains rca where "selected E = Some rca"
    "effects tr' = emmc_command_effects (ReadSingleBlock n) @ setup_effects E MIX_CTRL_DTDSEL_READ [] addr @
       emmc_command_effects (SendStatus rca) @ effects tr"
proof -
  from assms obtain rca s1 s2 rsp where c: "check_transfer_state hw p E addr tr = (Ok rca, s1)"
      and u: "setup_transfer hw E MIX_CTRL_DTDSEL_READ (aret ()) addr s1 = (Ok (), s2)"
      and r: "send_cmd hw p (ReadSingleBlock n) s2 = (Ok rsp, tr')"
    by (auto simp: read_single_block_def abind_Ok_iff)
  have "effects s2 = setup_effects E MIX_CTRL_DTDSEL_READ [] addr @ effects s1"
    by (rule setup_transfer_Ok [OF u]) auto
  then show ?thesis
    using check_transfer_Ok [OF c] send_cmd_effects [OF r] that by simp
qed

section \<open>A card that stores blocks\<close>

text \<open>
  What the controller and the card promise: only a write command changes what the card stores,
  and then only the block in \<^verbatim>\<open>CMD_ARG\<close>; when after a read or write command the interrupt status
  showed the transfer complete without an error bit, the DMA memory holds the addressed block,
  or the card stores the memory that was handed over.
\<close>

definition issued :: "emmc_command \<Rightarrow> trace \<Rightarrow> trace" where
  "issued c tr = Wr (Usdhc CMD_XFR_TYP) (cmd_word 0 c) # Wr (Usdhc CMD_ARG) (cmd_arg c) # tr"

locale emmc_card =
  fixes hw :: hw and stored :: "trace \<Rightarrow> u32 \<Rightarrow> bytes"
  assumes frame: "\<not> is_write_cmd e \<Longrightarrow> stored (e # tr) = stored tr"
    and frame_write: "is_write_cmd e \<Longrightarrow> last_wr (Usdhc CMD_ARG) tr = Some n \<Longrightarrow> k \<noteq> n \<Longrightarrow>
      stored (e # tr) k = stored tr k"
    and read_done: "last_wr (Usdhc DS_ADDR) tr = Some a \<Longrightarrow> transfer_seen es \<Longrightarrow> \<forall>e \<in> set es. quiet e \<Longrightarrow>
      dma_memory hw (es @ issued (ReadSingleBlock n) tr) a BLOCK_SIZE = stored tr n"
    and write_done: "last_wr (Usdhc DS_ADDR) tr = Some a \<Longrightarrow> last_mem tr = Some (a, b) \<Longrightarrow>
      length b = BLOCK_SIZE \<Longrightarrow> transfer_seen es \<Longrightarrow> \<forall>e \<in> set es. quiet e \<Longrightarrow>
      stored (es @ issued (WriteSingleBlock n) tr) n = b"
    and stored_length: "length (stored tr n) = BLOCK_SIZE"
begin

lemma stored_frame: "no_write tr tr' \<Longrightarrow> stored tr' = stored tr"
proof -
  have "(\<forall>e \<in> set es. \<not> is_write_cmd e) \<Longrightarrow> stored (es @ tr) = stored tr" for es
    by (induction es) (simp_all add: frame)
  then show "no_write tr tr' \<Longrightarrow> stored tr' = stored tr" by (auto simp: adds_def)
qed

text \<open>The traces between which only block \<open>n\<close> may differ.\<close>

definition only_block :: "u32 \<Rightarrow> trace \<Rightarrow> trace \<Rightarrow> bool" where
  "only_block n s t \<longleftrightarrow> (\<forall>k. k \<noteq> n \<longrightarrow> stored t k = stored s k)"

lemma only_block_preorder: "trace_preorder (only_block n)"
  by (auto simp: trace_preorder_def only_block_def)

lemma only_block_no_write: "keeps no_write m \<Longrightarrow> keeps (only_block n) m"
  by (simp add: keeps_def only_block_def) (metis stored_frame)

lemma only_block_issue: "keeps (only_block n) (issue_cmd hw p (WriteSingleBlock n))"
proof -
  note P = only_block_preorder [of n]
  have last: "keeps (only_block n) (abind (usdhc_wr CMD_ARG n)
      (\<lambda>_. usdhc_wr CMD_XFR_TYP (cmd_word 0 (WriteSingleBlock n))) :: (emmc_error, unit) io)"
    using frame_write [of _ "Wr (Usdhc CMD_ARG) n # tr" n for tr] frame
    by (auto simp: keeps_def wr_def abind_def only_block_def is_write_cmd_def cmd_word_simps)
  have pre: "keeps (only_block n) (assert_idle hw p)"
    and mid: "keeps (only_block n) (await hw (Usdhc PRES_STATE)
       (\<lambda>v. v AND (PRES_STATE_CIHB OR PRES_STATE_CDIHB OR PRES_STATE_DLA) = 0) :: (emmc_error, unit) io)"
    and timed: "keeps (only_block n) (wait hw (from_micros 20) :: (emmc_error, unit) io)"
    by (intro only_block_no_write no_write_rules)+
  show ?thesis
    using keeps_abind [OF P pre keeps_abind [OF P mid keeps_abind [OF P timed last]]]
    by (simp add: issue_cmd_def cmd_arg_def)
qed

lemma only_block_write:
  "keeps (only_block n) (write_single_block hw p E n addr b)"
  unfolding write_single_block_def send_cmd_def
  by (intro keeps_abind [OF only_block_preorder] only_block_issue)
    (auto intro!: only_block_no_write no_write_rules keeps_abind [OF adds_preorder] split: if_split)

text \<open>What a successful call means for the card.\<close>

lemma read_stored:
  assumes "read_single_block hw p E (Some n) addr tr = (Ok (), tr')"
  shows "dma_memory hw tr' addr BLOCK_SIZE = stored tr n"
proof -
  from assms obtain rca s1 s2 rsp where c: "check_transfer_state hw p E addr tr = (Ok rca, s1)"
      and u: "setup_transfer hw E MIX_CTRL_DTDSEL_READ (aret ()) addr s1 = (Ok (), s2)"
      and r: "send_cmd hw p (ReadSingleBlock n) s2 = (Ok rsp, tr')"
    by (auto simp: read_single_block_def abind_Ok_iff)
  have e2: "effects s2 = setup_effects E MIX_CTRL_DTDSEL_READ [] addr @ effects s1"
    by (rule setup_transfer_Ok [OF u]) auto
  have "no_write tr s1" "no_write s1 s2"
    using keepsD [OF no_write_check_transfer c] keepsD [OF no_write_setup [OF no_write_pure(1)] u] by auto
  then have st: "stored s2 = stored tr" using stored_frame by metis
  obtain t0 es where t: "tr' = es @ issued (ReadSingleBlock n) t0" "transfer_seen es"
      "\<forall>e \<in> set es. quiet e" "suffix s2 t0" "effects t0 = effects s2"
    using r by (rule send_cmd_Ok) (auto simp: issued_def data_present_def cmd_type_def)
  have "no_write s2 t0" using t(4,5) by (intro adds_silent) (auto simp: is_write_cmd_def)
  then have "stored t0 = stored tr" using st stored_frame by metis
  moreover have "last_wr (Usdhc DS_ADDR) t0 = Some addr"
    using last_effects(1) [of "Usdhc DS_ADDR" t0] t(5) e2 by (simp add: setup_effects_def)
  ultimately show ?thesis using read_done t by simp
qed

lemma write_stored:
  assumes "write_single_block hw p E n addr b tr = (Ok (), tr')" "length b = BLOCK_SIZE"
  shows "stored tr' n = b"
proof -
  from assms(1) obtain rca s1 s2 rsp s3 st where c: "check_transfer_state hw p E addr tr = (Ok rca, s1)"
      and u: "setup_transfer hw E MIX_CTRL_DTDSEL_WRITE (hand_over addr b) addr s1 = (Ok (), s2)"
      and r: "send_cmd hw p (WriteSingleBlock n) s2 = (Ok rsp, s3)"
      and f: "finish_write hw p rca st s3 = (Ok (), tr')"
    by (auto simp: write_single_block_def abind_Ok_iff)
  have e2: "effects s2 = setup_effects E MIX_CTRL_DTDSEL_WRITE [Mem addr b] addr @ effects s1"
    by (rule setup_transfer_Ok [OF u]) (auto simp: hand_over_def)
  obtain t0 es where t: "s3 = es @ issued (WriteSingleBlock n) t0" "transfer_seen es"
      "\<forall>e \<in> set es. quiet e" "effects t0 = effects s2"
    using r by (rule send_cmd_Ok) (auto simp: issued_def data_present_def cmd_type_def)
  have "last_wr (Usdhc DS_ADDR) t0 = Some addr" "last_mem t0 = Some (addr, b)"
    using last_effects(1) [of "Usdhc DS_ADDR" t0] last_effects(2) [of t0] t(4) e2
    by (simp_all add: setup_effects_def)
  then have "stored s3 n = b" using write_done t assms(2) by simp
  moreover have "stored tr' = stored s3" using keepsD [OF no_write_finish f] stored_frame by blast
  ultimately show ?thesis by simp
qed

end

text \<open>The driver on such a card is a block device, with the blocks the card stores.\<close>

definition emmc_blk :: "(trace \<Rightarrow> u32 \<Rightarrow> bytes) \<Rightarrow> emmc \<Rightarrow> trace \<Rightarrow> u64 \<Rightarrow> bytes" where
  "emmc_blk stored E tr lba = (if lba < ucast (blocks E) then stored tr (ucast lba) else [])"

lemma emmc_dev_out_of_range:
  assumes "ucast (blocks E) < lba"
  shows "dev_read (emmc_dev hw p E addr) lba d = (Err Other, d)"
    "dev_write (emmc_dev hw p E addr) b lba d = (Err Other, d)"
  using assms by (simp_all add: emmc_dev_def)

lemma emmc_dev_in_range:
  assumes "lba \<le> ucast (blocks E)"
  shows "dev_read (emmc_dev hw p E addr) lba d = emmc_read hw p E addr (ucast lba) d"
    "dev_write (emmc_dev hw p E addr) b lba d = emmc_write hw p E addr (ucast lba) b d"
  using assms by (simp_all add: emmc_dev_def leD)

locale emmc_driver = emmc_card +
  fixes p :: profile and E :: emmc and addr :: u32
begin

lemma lba_ucast:
  fixes lba :: u64
  assumes "lba \<le> ucast (blocks E)"
  shows "(ucast (ucast lba :: u32) :: u64) = lba" "unat (ucast lba :: u32) = unat lba"
proof -
  have "unat lba \<le> unat (blocks E)" using assms by (simp add: word_le_nat_alt)
  then have "unat lba < 2 ^ 32" using unat_less_exp [of "blocks E"] by simp
  then show u: "unat (ucast lba :: u32) = unat lba"
    by (simp add: unsigned_ucast_eq take_bit_nat_eq_self)
  show "(ucast (ucast lba :: u32) :: u64) = lba" by (simp add: word_unat_eq_iff u)
qed

lemma block_in_range:
  fixes lba :: u64
  assumes "lba \<le> ucast (blocks E)"
  shows "(ucast lba :: u32) < blocks E \<longleftrightarrow> lba < ucast (blocks E)"
  using lba_ucast(2) [OF assms] by (simp add: word_less_nat_alt)

sublocale dev: block_device "emmc_dev hw p E addr" "\<lambda>_. True" "emmc_blk stored E"
proof unfold_locales
  fix d lba r d'
  assume read: "dev_read (emmc_dev hw p E addr) lba d = (r, d')"
  have k: "keeps no_write (emmc_read hw p E addr n)" for n
    unfolding emmc_read_def
    by (intro no_write_rules) (simp add: keeps_def adds_def)
  have "no_write d d'"
    using read keepsD [OF k] by (auto simp: emmc_dev_def adds_def split: if_splits)
  then have "emmc_blk stored E d' = emmc_blk stored E d" using stored_frame by (auto simp: emmc_blk_def fun_eq_iff)
  moreover have "lba < ucast (blocks E) \<and> b = emmc_blk stored E d lba \<and> length b = BLOCK_SIZE" if r: "r = Ok b" for b
  proof -
    have le: "lba \<le> ucast (blocks E)" using read r by (auto simp: emmc_dev_def split: if_splits)
    have lt: "(ucast lba :: u32) < blocks E"
        and rd: "read_single_block hw p E (Some (ucast lba)) addr d = (Ok (), d')"
        and b: "b = dma_memory hw d' addr BLOCK_SIZE"
      using read r by (auto simp: emmc_dev_def emmc_read_def abind_Ok_iff oassert_def split: if_splits)
    show ?thesis
      using read_stored [OF rd] lt b block_in_range [OF le] stored_length by (simp add: emmc_blk_def)
  qed
  ultimately show "True \<and> emmc_blk stored E d' = emmc_blk stored E d \<and>
      total_blocks (emmc_dev hw p E addr) d' = total_blocks (emmc_dev hw p E addr) d \<and>
      (\<forall>b. r = Ok b \<longrightarrow> lba < total_blocks (emmc_dev hw p E addr) d \<and> b = emmc_blk stored E d lba \<and> length b = BLOCK_SIZE)"
    by (simp add: emmc_dev_def)
next
  fix d b lba r d'
  assume len: "length b = BLOCK_SIZE" and wr: "dev_write (emmc_dev hw p E addr) b lba d = (r, d')"
  have k: "keeps (only_block n) (emmc_write hw p E addr n b)" for n
    unfolding emmc_write_def by (intro keeps_abind [OF only_block_preorder] keeps_pure only_block_write only_block_preorder)
  have frame: "emmc_blk stored E d' k = emmc_blk stored E d k" if ne: "k \<noteq> lba" for k
  proof (cases "lba \<le> ucast (blocks E)")
    case le: True
    have only: "only_block (ucast lba) d d'"
      using wr keepsD [OF k] by (simp add: emmc_dev_in_range [OF le])
    show ?thesis
    proof (cases "k < ucast (blocks E)")
      case True
      then have "unat (ucast k :: u32) = unat k" "unat (ucast lba :: u32) = unat lba"
        using lba_ucast(2) [OF le] lba_ucast(2) [OF less_imp_le] by blast+
      then have "(ucast k :: u32) \<noteq> ucast lba" using ne by (metis word_unat_eq_iff)
      then show ?thesis using only by (simp add: emmc_blk_def only_block_def)
    qed (simp add: emmc_blk_def)
  qed (use wr emmc_dev_out_of_range in \<open>simp add: not_le\<close>)
  have "lba < ucast (blocks E) \<and> emmc_blk stored E d' lba = b" if r: "r = Ok ()"
  proof -
    have le: "lba \<le> ucast (blocks E)"
      using wr r emmc_dev_out_of_range(2) by (metis not_le outcome.distinct(1) prod.inject)
    have lt: "(ucast lba :: u32) < blocks E"
        and w: "write_single_block hw p E (ucast lba) addr b d = (Ok (), d')"
      using wr r by (auto simp: emmc_dev_in_range [OF le] emmc_write_def abind_Ok_iff oassert_def split: if_splits)
    show ?thesis
      using write_stored [OF w len] lt block_in_range [OF le] by (simp add: emmc_blk_def)
  qed
  then show "True \<and> total_blocks (emmc_dev hw p E addr) d' = total_blocks (emmc_dev hw p E addr) d \<and>
      (\<forall>k. k \<noteq> lba \<longrightarrow> emmc_blk stored E d' k = emmc_blk stored E d k) \<and>
      (r = Ok () \<longrightarrow> lba < total_blocks (emmc_dev hw p E addr) d \<and> emmc_blk stored E d' lba = b)"
    using frame by (simp add: emmc_dev_def)
qed (simp add: emmc_dev_def)

lemma driver_is_block_device: "block_device (emmc_dev hw p E addr) (\<lambda>_. True) (emmc_blk stored E)"
  by (rule dev.block_device_axioms)

end

end
