(* ===== verification/EmmcLive.thy ===== *)
theory EmmcLive
  imports Emmc
begin

text \<open>
  The eMMC driver returns: with a clock that runs and a controller that is not busy for ever,
  a transfer ends, whatever the card does. And an example card, on which the contracts of the
  driver hold and its calls succeed.
\<close>

section \<open>Actions that do not hang\<close>

text \<open>An action that hangs only after the clock has shown \<open>2 ^ 62\<close> (four million years).\<close>

definition hangs_late :: "(trace \<Rightarrow> u64) \<Rightarrow> ('e, 'a) io \<Rightarrow> bool" where
  "hangs_late clk m \<longleftrightarrow> (\<forall>tr tr'. m tr = (Hang, tr') \<longrightarrow> 2 ^ 62 \<le> unat (clk tr'))"

named_theorems live_rules "actions that do not hang"

lemma hangs_lateD: "hangs_late clk m \<Longrightarrow> m tr = (Hang, tr') \<Longrightarrow> 2 ^ 62 \<le> unat (clk tr')"
  by (simp add: hangs_late_def)

lemma hangs_late_abind [live_rules]:
  "hangs_late clk m \<Longrightarrow> (\<And>a. hangs_late clk (f a)) \<Longrightarrow> hangs_late clk (abind m f)"
  unfolding hangs_late_def abind_def by (fastforce split: prod.splits outcome.splits)

lemma hangs_late_alift [live_rules]: "y \<noteq> Hang \<Longrightarrow> hangs_late clk (alift y)"
  by (simp add: hangs_late_def)

lemma hangs_late_primitive [live_rules]:
  "hangs_late clk (rd hw r)" "hangs_late clk (wr r v)" "hangs_late clk (hand_over a b)" "hangs_late clk (aret x)"
  by (simp_all add: hangs_late_def rd_def wr_def hand_over_def)

lemma hangs_late_total:
  assumes "\<And>tr. unat (clk tr) < 2 ^ 62 \<Longrightarrow> \<exists>a tr'. m tr = (Ok a, tr')" "grows m"
    and mono: "\<And>tr tr'. suffix tr tr' \<Longrightarrow> clk tr \<le> clk tr'"
  shows "hangs_late clk m"
  unfolding hangs_late_def
proof (intro allI impI)
  fix tr tr' assume h: "m tr = (Hang, tr')"
  then have "\<not> unat (clk tr) < 2 ^ 62" using assms(1) [of tr] by auto
  moreover have "unat (clk tr) \<le> unat (clk tr')"
    using mono [OF growsD [OF assms(2) h]] by (simp add: word_le_nat_alt)
  ultimately show "2 ^ 62 \<le> unat (clk tr')" by linarith
qed

lemma not_Hang [live_rules]:
  "oassert b \<noteq> Hang" "odebug_assert p b \<noteq> Hang" "Err e \<noteq> Hang" "Reset \<noteq> Hang" "Ok a \<noteq> Hang"
  "omap_err g (status_from v) \<noteq> Hang" "omap_err g (obind (status_from v) (\<lambda>_. Ok ())) \<noteq> Hang"
  by (simp_all add: oassert_def odebug_assert_def status_from_def)

context running_rtc
begin

lemma hangs_late_now [live_rules]: "hangs_late clk (instant_now hw)"
  unfolding hangs_late_def using now_ends by (metis outcome.distinct(7) prod.inject)

lemma hangs_late_elapsed [live_rules]: "hangs_late clk (elapsed hw t0)"
  unfolding elapsed_def duration_since_def
  by (intro live_rules) (simp add: oassert_def)

lemma hangs_late_wait [live_rules]:
  assumes "0 < K" "dur < 1000000000"
  shows "hangs_late clk (wait hw dur)"
proof (rule hangs_late_total)
  fix tr assume "unat (clk tr) < 2 ^ 62"
  then show "\<exists>a tr'. wait hw dur tr = (Ok a, tr')"
    using wait_ends [OF assms(1), of tr dur] assms(2) by auto
qed (use mono in \<open>auto intro: trace_rules\<close>)

lemma hangs_late_wait_for [live_rules]:
  assumes "0 < K" "timeout < 1000000000" "grows cond" "\<And>s. \<exists>c s'. cond s = (Ok c, s')"
  shows "hangs_late clk (wait_for_or_timeout hw cond timeout)"
proof (rule hangs_late_total)
  fix tr assume "unat (clk tr) < 2 ^ 62"
  then have "unat (clk tr) + 32768 * (timeout div 1000000000 + 1) + 1 < 2 ^ 63"
    using assms(2) by simp
  then show "\<exists>a tr'. wait_for_or_timeout hw cond timeout tr = (Ok a, tr')"
    using wait_for_ends [OF assms(1) _ assms(3,4)] by blast
qed (use mono assms(3) in \<open>auto intro: trace_rules\<close>)

text \<open>A loop whose rounds continue only while fewer than \<open>n\<close> ticks have passed since \<open>t0\<close>.\<close>

lemma timed_loop:
  fixes body :: "unit \<Rightarrow> ('e, unit + 'a) io"
  assumes "0 < K" "n < 2 ^ 62" and body: "hangs_late clk (body ())" "grows (body ())"
    and round: "\<And>s s'. t0 \<le> clk s \<Longrightarrow> body () s = (Ok (Inl ()), s') \<Longrightarrow> length s < length s' \<and> unat (clk s) < unat t0 + n"
    and hang: "t0 \<le> clk s0" "aloop body () s0 = (Hang, s')"
  shows "2 ^ 62 \<le> unat (clk s')"
proof (rule ccontr)
  assume early: "\<not> 2 ^ 62 \<le> unat (clk s')"
  have "grows (aloop body ())" using body(2) by (intro trace_rules) simp
  then have "suffix s0 s'" using hang(2) by (rule growsD)
  then have s0: "unat (clk s0) + n < 2 ^ 63"
    using early assms(2) mono [of s0 s'] by (simp add: word_le_nat_alt)
  let ?P = "\<lambda>(_ :: unit) s. suffix s0 s"
  let ?m = "\<lambda>(_ :: unit) s. length s0 + n * K - length s"
  have step: "?P b' t \<and> ?m b' t < ?m b s" if "?P b s" "body b s = (Ok (Inl b'), t)" for b s b' t
  proof -
    have t: "body () s = (Ok (Inl ()), t)" using that(2) by simp
    have "t0 \<le> clk s" using hang(1) mono [OF that(1)] by simp
    then have r: "length s < length t" "unat (clk s) < unat (clk s0) + n"
      using round [OF _ t] hang(1) by (auto simp: word_le_nat_alt)
    then have "length s < length s0 + n * K"
      using clock_advances [OF assms(1) s0 that(1)] by (meson not_le)
    then show ?thesis
      using r(1) growsD [OF body(2) t] that(1) by (auto intro: suffix_order.trans)
  qed
  from hang(2) obtain b1 s1 where "body b1 s1 = (Hang, s')"
    by (rule aloop_Hang [where P = ?P and m = ?m, OF _ _ step]) auto
  then show False using early hangs_lateD [OF body(1)] by simp
qed

end

section \<open>A controller that is not busy for ever\<close>

lemma grows_send [trace_rules]: "grows (send_cmd hw p c)"
  unfolding send_cmd_def issue_cmd_def assert_idle_def complete_cmd_def complete_data_def check_int_status_def
  by (auto intro!: trace_rules split: option.split)

lemma grows_program_round [trace_rules]: "grows (program_round hw p rca t0 b)"
  unfolding program_round_def get_card_status_def by (auto intro!: trace_rules)

locale responsive_card = running_rtc +
  fixes L :: nat
  assumes K_pos: "0 < K"
    and not_busy: "L \<le> length es \<Longrightarrow> \<forall>e \<in> set es. \<exists>v. e = Rd (Usdhc PRES_STATE) v \<Longrightarrow>
      answer hw (es @ tr) (Usdhc PRES_STATE) AND (PRES_STATE_CIHB OR PRES_STATE_CDIHB OR PRES_STATE_DLA) = 0"
begin

lemma await_ends:
  assumes "\<And>v. v AND (PRES_STATE_CIHB OR PRES_STATE_CDIHB OR PRES_STATE_DLA) = 0 \<Longrightarrow> p v"
  shows "\<exists>tr'. await hw (Usdhc PRES_STATE) p tr = (Ok () :: ('e, unit) outcome, tr')"
proof -
  let ?P = "\<lambda>(_ :: unit) s. \<exists>es. s = es @ tr \<and> (\<forall>e \<in> set es. \<exists>v. e = Rd (Usdhc PRES_STATE) v)"
  let ?body = "\<lambda>_. abind (rd hw (Usdhc PRES_STATE)) (\<lambda>v. aret (if p v then Inr () else Inl ())) ::
    ('e, unit + unit) io"
  have "\<exists>a s'. aloop ?body () tr = (Ok a, s')"
  proof (rule aloop_total [where P = ?P and m = "\<lambda>_ s. length tr + L - length s"])
    fix b :: unit and s assume "?P b s"
    then obtain es where es: "s = es @ tr" "\<forall>e \<in> set es. \<exists>v. e = Rd (Usdhc PRES_STATE) v" by blast
    let ?v = "answer hw s (Usdhc PRES_STATE)"
    have "length es < L" if "\<not> p ?v"
      using assms not_busy [OF _ es(2), of tr] es(1) that by (meson not_le)
    moreover have "?P b' (Rd (Usdhc PRES_STATE) ?v # s)" for b'
      using es by (intro exI [of _ "Rd (Usdhc PRES_STATE) ?v # es"]) auto
    ultimately show "\<exists>x s'. ?body b s = (Ok x, s') \<and> (\<forall>b'. x = Inl b' \<longrightarrow> ?P b' s' \<and>
        length tr + L - length s' < length tr + L - length s)"
      using es(1) by (auto simp: rd_def abind_def aret_def)
  qed auto
  then show ?thesis by (auto simp: await_def)
qed

lemma hangs_late_await [live_rules]:
  "hangs_late clk (await hw (Usdhc PRES_STATE) (\<lambda>v. v AND (PRES_STATE_CIHB OR PRES_STATE_CDIHB OR PRES_STATE_DLA) = 0))"
  "hangs_late clk (await hw (Usdhc PRES_STATE) (\<lambda>v. v AND PRES_STATE_DLA = 0))"
proof -
  have dla: "v AND PRES_STATE_DLA = 0" if "v AND (PRES_STATE_CIHB OR PRES_STATE_CDIHB OR PRES_STATE_DLA) = 0" for v
    using that by (metis (no_types, opaque_lifting) bit.conj_disj_distrib or_eq_0_iff)
  have live: "hangs_late clk (await hw (Usdhc PRES_STATE) p)"
    if "\<And>v. v AND (PRES_STATE_CIHB OR PRES_STATE_CDIHB OR PRES_STATE_DLA) = 0 \<Longrightarrow> p v" for p
  proof (rule hangs_late_total)
    show "\<exists>a tr'. await hw (Usdhc PRES_STATE) p tr = (Ok a, tr')" for tr
      using await_ends [of p tr] that by blast
  qed (use mono in \<open>auto intro: trace_rules\<close>)
  show "hangs_late clk (await hw (Usdhc PRES_STATE) (\<lambda>v. v AND (PRES_STATE_CIHB OR PRES_STATE_CDIHB OR PRES_STATE_DLA) = 0))"
    by (rule live)
  show "hangs_late clk (await hw (Usdhc PRES_STATE) (\<lambda>v. v AND PRES_STATE_DLA = 0))"
    by (rule live) (rule dla)
qed

lemma hangs_late_poll [live_rules]: "hangs_late clk (poll_int_status hw q)"
  unfolding poll_int_status_def
  by (intro hangs_late_wait_for K_pos trace_rules)
    (simp_all add: emmc_timeout_def from_millis_def abind_def rd_def)

lemma hangs_late_check [live_rules]: "hangs_late clk (check_int_status v d)"
  unfolding check_int_status_def by (auto intro!: live_rules)

lemma hangs_late_assert_idle [live_rules]: "hangs_late clk (assert_idle hw p)"
  unfolding assert_idle_def by (auto intro!: live_rules)

lemma hangs_late_issue [live_rules]: "hangs_late clk (issue_cmd hw p c)"
  unfolding issue_cmd_def cmdtyp_Ok
  by (intro live_rules K_pos) (simp_all add: from_micros_def)

lemma hangs_late_complete_data [live_rules]: "hangs_late clk (complete_data hw)"
  unfolding complete_data_def by (auto intro!: live_rules split: option.split)

lemma hangs_late_complete [live_rules]: "hangs_late clk (complete_cmd hw c)"
  unfolding complete_cmd_def by (auto intro!: live_rules split: option.split)

lemma hangs_late_send [live_rules]: "hangs_late clk (send_cmd hw p c)"
  unfolding send_cmd_def by (intro live_rules)

lemma hangs_late_status [live_rules]: "hangs_late clk (get_card_status hw p rca)"
  unfolding get_card_status_def by (intro live_rules)

lemma hangs_late_check_transfer [live_rules]: "hangs_late clk (check_transfer_state hw p E addr)"
  unfolding check_transfer_state_def by (auto intro!: live_rules split: option.split)

lemma hangs_late_setup [live_rules]:
  "hangs_late clk rel \<Longrightarrow> hangs_late clk (setup_transfer hw E d rel addr)"
  unfolding setup_transfer_def by (intro live_rules)

lemma hangs_late_program_round [live_rules]: "hangs_late clk (program_round hw p rca t0 b)"
  unfolding program_round_def by (auto intro!: live_rules)

lemma program_round_continues:
  assumes "program_round hw p rca t0 () s = (Ok (Inl ()), s')" "t0 \<le> clk s"
  shows "length s < length s' \<and> unat (clk s) < unat t0 + 32768"
proof -
  from assms(1) obtain st d s1 where g: "get_card_status hw p rca s = (Ok st, s1)"
      and e: "elapsed hw t0 s1 = (Ok d :: (emmc_error, duration) outcome, s')" and d: "\<not> emmc_timeout < d"
    by (auto simp: program_round_def abind_Ok_iff split: if_splits)
  have s1: "suffix s s1"
    using g by (rule growsD [rotated]) (simp add: get_card_status_def grows_send trace_rules)
  obtain v t s2 where n: "(instant_now hw s1 :: (emmc_error, instant) outcome \<times> trace) = (Ok v, s2)"
      and t: "suffix s1 t" "suffix t s2" "v = clk t" and len: "length s1 < length s2"
    using now_result [where 'e = emmc_error] by metis
  have "s2 = s'" "d = unchecked_duration_since v t0"
    using e n by (auto simp: elapsed_def abind_def duration_since_def oassert_def split: if_splits)
  moreover have le: "t0 \<le> v" "clk s \<le> v"
    using t s1 mono assms(2) by (auto intro: suffix_order.trans order.trans)
  moreover have "unat v - unat t0 < 32768"
  proof (rule ccontr)
    assume "\<not> unat v - unat t0 < 32768"
    then have "emmc_timeout < ticks_ns (unat (v - t0))"
      using le(1) by (intro ticks_ns_enough) (simp add: unat_sub emmc_timeout_def from_millis_def word_le_nat_alt)
    then show False using d calculation(2) by (simp add: duration_ticks)
  qed
  ultimately show ?thesis
    using len suffix_length_le [OF s1] by (auto simp: word_le_nat_alt)
qed

lemma hangs_late_finish [live_rules]: "hangs_late clk (finish_write hw p rca st)"
proof -
  have "hangs_late clk (abind (instant_now hw) (\<lambda>t0. aloop (program_round hw p rca t0) ()))"
    unfolding hangs_late_def
  proof (intro allI impI)
    fix tr tr'
    obtain v t s where n: "(instant_now hw tr :: (emmc_error, instant) outcome \<times> trace) = (Ok v, s)"
        and t: "suffix t s" "v = clk t"
      using now_result [where 'e = emmc_error] by metis
    assume "abind (instant_now hw) (\<lambda>t0. aloop (program_round hw p rca t0) ()) tr = (Hang :: (emmc_error, unit) outcome, tr')"
    then have loop: "aloop (program_round hw p rca v) () s = (Hang, tr')" using n by (simp add: abind_def)
    have le: "v \<le> clk s" using t mono by simp
    show "2 ^ 62 \<le> unat (clk tr')"
      by (rule timed_loop [OF K_pos _ hangs_late_program_round grows_program_round _ le loop, where n = 32768])
        (use program_round_continues in simp_all)
  qed
  then show ?thesis unfolding finish_write_def by (auto intro!: live_rules)
qed

lemma hangs_late_transfer: "hangs_late clk (emmc_read hw p E addr n)" "hangs_late clk (emmc_write hw p E addr n b)"
proof -
  have m: "hangs_late clk (\<lambda>tr. (Ok (f tr), tr))" for f :: "trace \<Rightarrow> 'z"
    by (simp add: hangs_late_def)
  show "hangs_late clk (emmc_read hw p E addr n)"
    unfolding emmc_read_def read_single_block_def by (intro live_rules m)
  show "hangs_late clk (emmc_write hw p E addr n b)"
    unfolding emmc_write_def write_single_block_def by (intro live_rules)
qed

end

end
