(* ===== verification/EmmcCard.thy ===== *)
theory EmmcCard
  imports EmmcLive
begin

text \<open>
  An example of a controller with a card, on which the contracts \<open>emmc_card\<close>, \<open>running_rtc\<close> and
  \<open>responsive_card\<close> hold and the calls of the driver succeed; and the properties of the driver.
\<close>

section \<open>The controller\<close>

text \<open>The interrupt status: set by a command, cleared by writing ones.\<close>

fun mmc_status :: "trace \<Rightarrow> u32" where
  "mmc_status [] = 0"
| "mmc_status (Wr r v # tr) =
     (if r = Usdhc CMD_XFR_TYP
      then INT_STATUS_CC OR (if bit v 21 then INT_STATUS_TC OR INT_STATUS_DINT else 0)
      else if r = Usdhc INT_STATUS then mmc_status tr AND NOT v
      else mmc_status tr)"
| "mmc_status (Rd r v # tr) = mmc_status tr"
| "mmc_status (Mem a b # tr) = mmc_status tr"

text \<open>What the card stores: a write command stores the memory that was handed over.\<close>

fun mmc_stored :: "trace \<Rightarrow> u32 \<Rightarrow> bytes" where
  "mmc_stored [] = (\<lambda>_. replicate BLOCK_SIZE 0)"
| "mmc_stored (e # tr) =
     (if is_write_cmd e
      then (case (last_wr (Usdhc CMD_ARG) tr, last_wr (Usdhc DS_ADDR) tr, last_mem tr) of
              (Some n, Some a, Some (a', b)) \<Rightarrow>
                if a = a' \<and> length b = BLOCK_SIZE then (mmc_stored tr)(n := b) else mmc_stored tr
            | _ \<Rightarrow> mmc_stored tr)
      else mmc_stored tr)"

fun mmc_memory :: "trace \<Rightarrow> u32 \<Rightarrow> nat \<Rightarrow> bytes" where
  "mmc_memory [] a k = replicate k 0"
| "mmc_memory (Wr r v # tr) a k =
     (if r = Usdhc CMD_XFR_TYP \<and> v = cmd_word 0 (ReadSingleBlock 0) \<and>
         last_wr (Usdhc DS_ADDR) tr = Some a \<and> k = BLOCK_SIZE
      then (case last_wr (Usdhc CMD_ARG) tr of Some n \<Rightarrow> mmc_stored tr n | None \<Rightarrow> mmc_memory tr a k)
      else mmc_memory tr a k)"
| "mmc_memory (Rd r v # tr) a k = mmc_memory tr a k"
| "mmc_memory (Mem a' b # tr) a k = (if a' = a \<and> length b = k then b else mmc_memory tr a k)"

text \<open>The response: powered up to \<^verbatim>\<open>CMD1\<close>, otherwise ready in the transfer state.\<close>

definition mmc_rsp :: "u32 option \<Rightarrow> u32" where
  "mmc_rsp typ = (if typ = Some (cmd_word 0 (SendOpCond 0)) then 0x80FF8000 else 0x900)"

definition mmc_answer :: "trace \<Rightarrow> reg \<Rightarrow> u32" where
  "mmc_answer tr r =
     (if r = Usdhc INT_STATUS then mmc_status tr
      else if r = Usdhc PRES_STATE then 8
      else if r = Usdhc CMD_RSP0 then mmc_rsp (last_wr (Usdhc CMD_XFR_TYP) tr)
      else 0)"

definition mmc_hw :: hw where "mmc_hw = tick_hw mmc_answer mmc_memory"

lemma mmc_answers [simp]:
  "answer mmc_hw tr (Usdhc r) = mmc_answer tr (Usdhc r)" "answer mmc_hw tr (Reg a) = 0"
  "dma_memory mmc_hw = mmc_memory"
  by (simp_all add: mmc_hw_def tick_hw_def mmc_answer_def)

lemma mmc_effects [simp]: "mmc_status (effects tr) = mmc_status tr"
  by (induction tr rule: effects.induct) auto

lemma mmc_stored_quiet: "\<forall>e \<in> set es. quiet e \<Longrightarrow> mmc_stored (es @ tr) = mmc_stored tr"
  by (induction es) (auto simp: quiet_def is_write_cmd_def)

lemma mmc_memory_quiet: "\<forall>e \<in> set es. quiet e \<Longrightarrow> mmc_memory (es @ tr) a k = mmc_memory tr a k"
proof (induction es)
  case (Cons e es)
  then show ?case by (cases e) (auto simp: quiet_def)
qed simp

lemma mmc_stored_length: "length (mmc_stored tr n) = BLOCK_SIZE"
  by (induction tr arbitrary: n) (auto split: option.splits)

interpretation mmc_card: emmc_card mmc_hw mmc_stored
proof unfold_locales
  fix e tr n k
  assume "is_write_cmd e" "last_wr (Usdhc CMD_ARG) tr = Some n" "k \<noteq> n"
  then show "mmc_stored (e # tr) k = mmc_stored tr k" by (auto split: option.splits)
next
  fix tr a es n assume "last_wr (Usdhc DS_ADDR) tr = Some a" "\<forall>e \<in> set es. quiet e"
  then show "dma_memory mmc_hw (es @ issued (ReadSingleBlock n) tr) a BLOCK_SIZE = mmc_stored tr n"
    by (simp add: mmc_memory_quiet issued_def cmd_word_simps cmd_arg_def is_write_cmd_def)
next
  fix tr a b es n
  assume "last_wr (Usdhc DS_ADDR) tr = Some a" "last_mem tr = Some (a, b)" "length b = BLOCK_SIZE"
    "\<forall>e \<in> set es. quiet e"
  then show "mmc_stored (es @ issued (WriteSingleBlock n) tr) n = b"
    by (simp add: mmc_stored_quiet issued_def cmd_word_simps cmd_arg_def is_write_cmd_def)
qed (simp_all add: mmc_stored_length)

interpretation mmc_clock: running_rtc mmc_hw tick_clk 16
  unfolding mmc_hw_def by (rule tick.running_rtc_axioms)

interpretation mmc_resp: responsive_card mmc_hw tick_clk 16 0
  by unfold_locales
    (simp_all add: mmc_answer_def PRES_STATE_CIHB_def PRES_STATE_CDIHB_def PRES_STATE_DLA_def)

interpretation mmc_driver: emmc_driver mmc_hw mmc_stored p E addr for p E addr
  by unfold_locales

section \<open>Calls on the example card\<close>

text \<open>From an idle controller and early enough every call comes to its end in a few ticks.\<close>

abbreviation ticks :: "trace \<Rightarrow> nat" where "ticks tr \<equiv> unat (tick_clk tr)"

lemma ticks_near: "suffix s t \<Longrightarrow> length t \<le> length s + 8 \<Longrightarrow> ticks t \<le> ticks s + 1"
  using mmc_clock.slow by (auto simp: suffix_def)

lemma ticks_Cons: "ticks (e # s) \<le> ticks s + 1" "ticks (e # e' # s) \<le> ticks s + 1"
  by (rule ticks_near; simp add: suffix_Cons)+

lemma poll_now:
  assumes "q (mmc_status tr)"
  shows "\<exists>tr'. poll_int_status mmc_hw q tr = (Ok (Some (mmc_status tr)), tr') \<and> ticks tr' \<le> ticks tr + 2"
proof -
  obtain v s where n: "(instant_now mmc_hw tr :: (emmc_error, instant) outcome \<times> trace) = (Ok v, s)"
      and t: "ticks s \<le> ticks tr + 1"
    using mmc_clock.now_result [where 'e = emmc_error] by metis
  have "effects s = effects tr" using n by (rule silentD [OF instant_now_trace(2)])
  then have st: "mmc_status s = mmc_status tr" by (metis mmc_effects)
  let ?cond = "abind (usdhc_rd mmc_hw INT_STATUS) (\<lambda>v. aret (q v, v))"
  have "aloop (poll_round mmc_hw ?cond emmc_timeout v) () s
      = (Ok (Some (mmc_status tr)), Rd (Usdhc INT_STATUS) (mmc_status tr) # s)"
    using assms st by (intro aloop_break) (simp add: poll_round_def abind_def rd_def mmc_answer_def)
  then have "poll_int_status mmc_hw q tr = (Ok (Some (mmc_status tr)), Rd (Usdhc INT_STATUS) (mmc_status tr) # s)"
    using n by (simp add: poll_int_status_def wait_for_or_timeout_def)
  then show ?thesis using t ticks_Cons(1) [of "Rd (Usdhc INT_STATUS) (mmc_status tr)" s] by auto
qed

lemma wait_now:
  assumes "ticks tr < 2 ^ 62" "dur < 1000000000"
  shows "\<exists>tr'. wait mmc_hw dur tr = (Ok () :: (emmc_error, unit) outcome, tr') \<and> effects tr' = effects tr \<and>
    ticks tr' \<le> ticks tr + 32770"
proof -
  obtain tr' where w: "wait mmc_hw dur tr = (Ok () :: (emmc_error, unit) outcome, tr')"
    using mmc_clock.wait_ends [of tr dur] assms by auto
  then show ?thesis
    using mmc_clock.wait_time [OF w] silentD [OF wait_trace(2) w] assms(2) by simp
qed

lemma cmd_word_data: "bit (cmd_word 0 c) 21 \<longleftrightarrow> data_present c"
  by (cases c) (simp_all add: cmd_word_simps data_present_def cmd_type_def)

lemma issue_runs:
  assumes "mmc_status tr = 0" "ticks tr < 2 ^ 61"
  shows "\<exists>tr'. issue_cmd mmc_hw p c tr = (Ok (), tr') \<and> ticks tr' \<le> ticks tr + 32780 \<and>
    last_wr (Usdhc CMD_XFR_TYP) tr' = Some (cmd_word 0 c) \<and>
    mmc_status tr' = INT_STATUS_CC OR (if data_present c then INT_STATUS_TC OR INT_STATUS_DINT else 0)"
proof -
  let ?s1 = "if p = Dev then Rd (Usdhc INT_STATUS) 0 # tr else tr"
  let ?s2 = "Rd (Usdhc PRES_STATE) 8 # ?s1"
  have idle: "assert_idle mmc_hw p tr = (Ok (), ?s1)"
    using assms(1) by (simp add: assert_idle_def abind_def rd_def mmc_answer_def oassert_def)
  have t2: "ticks ?s2 \<le> ticks tr + 1" by (rule ticks_near) (auto simp: suffix_Cons)
  have a: "await mmc_hw (Usdhc PRES_STATE)
      (\<lambda>v. v AND (PRES_STATE_CIHB OR PRES_STATE_CDIHB OR PRES_STATE_DLA) = 0) ?s1 = (Ok () :: (emmc_error, unit) outcome, ?s2)"
    by (subst await_now)
      (simp_all add: mmc_answer_def PRES_STATE_CIHB_def PRES_STATE_CDIHB_def PRES_STATE_DLA_def)
  obtain s3 where w: "wait mmc_hw (from_micros 20) ?s2 = (Ok () :: (emmc_error, unit) outcome, s3)"
      and s3: "ticks s3 \<le> ticks ?s2 + 32770"
    using wait_now [of ?s2 "from_micros 20"] t2 assms(2) by (auto simp: from_micros_def)
  let ?s = "Wr (Usdhc CMD_XFR_TYP) (cmd_word 0 c) # Wr (Usdhc CMD_ARG) (cmd_arg c) # s3"
  have "issue_cmd mmc_hw p c tr = (Ok (), ?s)"
    using idle a w by (simp add: issue_cmd_def abind_def wr_def)
  moreover have "ticks ?s \<le> ticks s3 + 1" by (rule ticks_near) (simp_all add: suffix_Cons)
  ultimately show ?thesis using s3 t2 by (simp add: cmd_word_data)
qed

lemma check_int_status_runs:
  "v AND INT_STATUS_ANY_ERROR = 0 \<Longrightarrow> check_int_status v d tr = (Ok (), Wr (Usdhc INT_STATUS) d # tr)"
proof -
  assume "v AND INT_STATUS_ANY_ERROR = 0"
  moreover from this have "v AND INT_STATUS_CTOE = 0"
    unfolding INT_STATUS_ANY_ERROR_def by (metis (no_types, opaque_lifting) bit.conj_disj_distrib or_eq_0_iff)
  ultimately show ?thesis by (simp add: check_int_status_def wr_def)
qed

lemmas int_status_bits = INT_STATUS_CC_def INT_STATUS_TC_def INT_STATUS_DINT_def INT_STATUS_ANY_ERROR_def
  INT_STATUS_CTOE_def INT_STATUS_CCE_def INT_STATUS_CEBE_def INT_STATUS_CIE_def
  INT_STATUS_DTOE_def INT_STATUS_DCE_def INT_STATUS_DEBE_def INT_STATUS_DMAE_def

lemma complete_data_runs:
  assumes "mmc_status tr = INT_STATUS_TC OR INT_STATUS_DINT"
  shows "\<exists>tr'. complete_data mmc_hw tr = (Ok (), tr') \<and> ticks tr' \<le> ticks tr + 3"
proof -
  let ?v = "INT_STATUS_TC OR INT_STATUS_DINT"
  obtain s where p: "poll_int_status mmc_hw (\<lambda>v. v AND INT_STATUS_ANY_ERROR \<noteq> 0 \<or>
         v AND (INT_STATUS_TC OR INT_STATUS_DINT) = INT_STATUS_TC OR INT_STATUS_DINT) tr = (Ok (Some ?v), s)"
      and t: "ticks s \<le> ticks tr + 2"
    using poll_now [of "\<lambda>v. v AND INT_STATUS_ANY_ERROR \<noteq> 0 \<or>
         v AND (INT_STATUS_TC OR INT_STATUS_DINT) = INT_STATUS_TC OR INT_STATUS_DINT" tr] assms by auto
  have "check_int_status ?v ?v s = (Ok (), Wr (Usdhc INT_STATUS) ?v # s)"
    by (rule check_int_status_runs) (simp add: int_status_bits)
  then have "complete_data mmc_hw tr = (Ok (), Wr (Usdhc INT_STATUS) ?v # s)"
    using p by (simp add: complete_data_def abind_def)
  then show ?thesis using t ticks_Cons(1) [of "Wr (Usdhc INT_STATUS) ?v" s] by auto
qed

lemma complete_runs:
  assumes "last_wr (Usdhc CMD_XFR_TYP) tr = Some (cmd_word 0 c)"
    "mmc_status tr = INT_STATUS_CC OR (if data_present c then INT_STATUS_TC OR INT_STATUS_DINT else 0)"
  shows "\<exists>tr'. complete_cmd mmc_hw c tr = (Ok (mmc_rsp (Some (cmd_word 0 c))), tr') \<and> ticks tr' \<le> ticks tr + 10"
proof -
  let ?v = "mmc_status tr" and ?rsp = "mmc_rsp (Some (cmd_word 0 c))"
  have v: "?v AND (INT_STATUS_ANY_ERROR OR INT_STATUS_CC) \<noteq> 0" "?v AND INT_STATUS_ANY_ERROR = 0"
    "?v AND NOT INT_STATUS_CC = (if data_present c then INT_STATUS_TC OR INT_STATUS_DINT else 0)"
    unfolding assms(2) by (simp_all add: int_status_bits)
  obtain s where p: "poll_int_status mmc_hw (\<lambda>v. v AND (INT_STATUS_ANY_ERROR OR INT_STATUS_CC) \<noteq> 0) tr
        = (Ok (Some ?v), s)" and t: "ticks s \<le> ticks tr + 2"
    using poll_now [of "\<lambda>v. v AND (INT_STATUS_ANY_ERROR OR INT_STATUS_CC) \<noteq> 0" tr] v(1) by auto
  have eff: "effects s = effects tr" using p by (rule silentD [OF poll_trace(2)])
  have s: "mmc_status s = ?v" "last_wr (Usdhc CMD_XFR_TYP) s = Some (cmd_word 0 c)"
    using eff assms(1) by (metis mmc_effects, metis last_effects(1))
  let ?s1 = "Wr (Usdhc INT_STATUS) INT_STATUS_CC # s"
  let ?s2 = "Rd (Usdhc CMD_RSP0) ?rsp # ?s1"
  have c: "check_int_status ?v INT_STATUS_CC s = (Ok (), ?s1)" by (rule check_int_status_runs) (rule v(2))
  have r: "status_from ?rsp = Ok (status_of ?rsp)" if "cmd_response c = R1 \<or> cmd_response c = R1b"
    using that by (cases c) (simp_all add: cmd_response_def mmc_rsp_def cmd_word_simps status_from_def
        error_mask_def error_positions_def)
  have t2: "ticks ?s2 \<le> ticks tr + 3" using t ticks_Cons(2) [of "Rd (Usdhc CMD_RSP0) ?rsp" "Wr (Usdhc INT_STATUS) INT_STATUS_CC" s] by linarith
  have st2: "mmc_status ?s2 = (if data_present c then INT_STATUS_TC OR INT_STATUS_DINT else 0)"
    using s(1) v(3) by simp
  have rd2: "usdhc_rd mmc_hw CMD_RSP0 ?s1 = (Ok ?rsp :: (emmc_error, u32) outcome, ?s2)"
    using s(2) by (simp add: rd_def mmc_answer_def)
  have ok: "(if cmd_response c = R1 \<or> cmd_response c = R1b
      then alift (omap_err Card (obind (status_from ?rsp) (\<lambda>_. Ok ()))) else aret ()) ?s2 = (Ok () :: (emmc_error, unit) outcome, ?s2)"
    using r by auto
  show ?thesis
  proof (cases "data_present c")
    case True
    then obtain s3 where d: "complete_data mmc_hw ?s2 = (Ok (), s3)" "ticks s3 \<le> ticks ?s2 + 3"
      using complete_data_runs [of ?s2] st2 by auto
    then have "complete_cmd mmc_hw c tr = (Ok ?rsp, s3)"
      using True p c rd2 ok by (simp only: complete_cmd_def abind_Ok option.case if_True aret_def)
    then show ?thesis using d(2) t2 by auto
  next
    case False
    then have "complete_cmd mmc_hw c tr = (Ok ?rsp, ?s2)"
      using p c rd2 ok by (simp only: complete_cmd_def abind_Ok option.case if_False aret_def)
    then show ?thesis using t2 by auto
  qed
qed

lemma send_runs:
  assumes "mmc_status tr = 0" "ticks tr < 2 ^ 61"
  shows "\<exists>tr'. send_cmd mmc_hw p c tr = (Ok (mmc_rsp (Some (cmd_word 0 c))), tr') \<and> mmc_status tr' = 0 \<and>
    ticks tr' \<le> ticks tr + 2 ^ 16"
proof -
  obtain s where i: "issue_cmd mmc_hw p c tr = (Ok (), s)" "ticks s \<le> ticks tr + 32780"
      "last_wr (Usdhc CMD_XFR_TYP) s = Some (cmd_word 0 c)"
      "mmc_status s = INT_STATUS_CC OR (if data_present c then INT_STATUS_TC OR INT_STATUS_DINT else 0)"
    using issue_runs [OF assms] by blast
  obtain tr' where c: "complete_cmd mmc_hw c s = (Ok (mmc_rsp (Some (cmd_word 0 c))), tr')" "ticks tr' \<le> ticks s + 10"
    using complete_runs [OF i(3,4)] by blast
  have run: "send_cmd mmc_hw p c tr = (Ok (mmc_rsp (Some (cmd_word 0 c))), tr')"
    using i(1) c(1) by (simp add: send_cmd_def)
  have "mmc_status tr' = mmc_status (emmc_command_effects c @ effects tr)"
    using send_cmd_effects [OF run] by (metis mmc_effects)
  also have "\<dots> = 0"
    by (simp add: emmc_command_effects_def completion_effects_def cmd_word_data int_status_bits)
  finally show ?thesis using run c(2) i(2) by simp
qed

text \<open>
  \<open>runs_in k m a\<close>: while the controller is idle, \<open>m\<close> gives \<open>Ok a\<close> within \<open>k\<close> ticks and leaves
  the controller idle.
\<close>

definition runs_in :: "nat \<Rightarrow> (emmc_error, 'a) io \<Rightarrow> 'a \<Rightarrow> bool" where
  "runs_in k m a \<longleftrightarrow> (\<forall>tr. mmc_status tr = 0 \<and> ticks tr + k < 2 ^ 60 \<longrightarrow>
     (\<exists>tr'. m tr = (Ok a, tr') \<and> mmc_status tr' = 0 \<and> ticks tr' \<le> ticks tr + k))"

named_theorems run_rules "calls on the example card"

lemma runs_inD:
  "runs_in k m a \<Longrightarrow> mmc_status tr = 0 \<Longrightarrow> ticks tr + k < 2 ^ 60 \<Longrightarrow>
     \<exists>tr'. m tr = (Ok a, tr') \<and> mmc_status tr' = 0 \<and> ticks tr' \<le> ticks tr + k"
  by (simp add: runs_in_def)

lemma runs_mono:
  assumes "runs_in j m a" "j \<le> k"
  shows "runs_in k m a"
  unfolding runs_in_def
proof (intro allI impI)
  fix tr assume "mmc_status tr = 0 \<and> ticks tr + k < 2 ^ 60"
  then show "\<exists>tr'. m tr = (Ok a, tr') \<and> mmc_status tr' = 0 \<and> ticks tr' \<le> ticks tr + k"
    using runs_inD [OF assms(1), of tr] assms(2) by fastforce
qed

lemma runs_bind [run_rules]:
  assumes "runs_in j m a" "runs_in k (f a) b"
  shows "runs_in (j + k) (abind m f) b"
  unfolding runs_in_def
proof (intro allI impI)
  fix tr assume tr: "mmc_status tr = 0 \<and> ticks tr + (j + k) < 2 ^ 60"
  then obtain s where s: "m tr = (Ok a, s)" "mmc_status s = 0" "ticks s \<le> ticks tr + j"
    using runs_inD [OF assms(1), of tr] by auto
  then obtain tr' where "f a s = (Ok b, tr')" "mmc_status tr' = 0" "ticks tr' \<le> ticks s + k"
    using runs_inD [OF assms(2), of s] tr by auto
  then show "\<exists>tr'. abind m f tr = (Ok b, tr') \<and> mmc_status tr' = 0 \<and> ticks tr' \<le> ticks tr + (j + k)"
    using s by auto
qed

lemma runs_pure [run_rules]: "runs_in 0 (aret a) a" "y = Ok a \<Longrightarrow> runs_in 0 (alift y) a"
  by (simp_all add: runs_in_def)

lemma runs_wr [run_rules]: "r \<noteq> Usdhc CMD_XFR_TYP \<Longrightarrow> runs_in 1 (wr r v) ()"
  using ticks_Cons(1) by (auto simp: runs_in_def wr_def)

lemma runs_hand_over [run_rules]: "runs_in 1 (hand_over a b) ()"
  using ticks_Cons(1) by (auto simp: runs_in_def hand_over_def)

lemma runs_rd [run_rules]:
  "\<forall>tr. answer mmc_hw tr r = v \<Longrightarrow> runs_in 1 (rd mmc_hw r) v"
  using ticks_Cons(1) by (auto simp: runs_in_def rd_def)

lemma runs_await [run_rules]:
  "\<forall>tr. p (answer mmc_hw tr r) \<Longrightarrow> runs_in 1 (await mmc_hw r p) ()"
  using ticks_Cons(1) by (auto simp: runs_in_def await_now)

lemma runs_wait [run_rules]: "dur < 1000000000 \<Longrightarrow> runs_in 32770 (wait mmc_hw dur) ()"
proof -
  assume dur: "dur < 1000000000"
  have "\<exists>tr'. wait mmc_hw dur tr = (Ok () :: (emmc_error, unit) outcome, tr') \<and> mmc_status tr' = 0 \<and> ticks tr' \<le> ticks tr + 32770"
    if "mmc_status tr = 0" "ticks tr + 32770 < 2 ^ 60" for tr
  proof -
    have "ticks tr < 2 ^ 62" using that(2) by simp
    then show ?thesis using wait_now [OF _ dur, of tr] that(1) by (metis mmc_effects)
  qed
  then show ?thesis by (simp add: runs_in_def)
qed

lemma runs_fatal [run_rules]: "runs_in k m a \<Longrightarrow> runs_in k (fatal m) a"
  by (auto simp: runs_in_def fatal_def)

lemma runs_if [run_rules]: "c \<Longrightarrow> runs_in k m a \<Longrightarrow> runs_in k (if c then m else m') a"
  "\<not> c \<Longrightarrow> runs_in k m' a \<Longrightarrow> runs_in k (if c then m else m') a"
  by simp_all

lemma runs_send [run_rules]:
  "mmc_rsp (Some (cmd_word 0 c)) = rsp \<Longrightarrow> runs_in (2 ^ 16) (send_cmd mmc_hw p c) rsp"
  using send_runs [of _ p c] by (auto simp: runs_in_def)

lemma rsp_status:
  assumes "\<And>v. c \<noteq> SendOpCond v"
  shows "mmc_rsp (Some (cmd_word 0 c)) = 0x900"
proof (cases c)
  case (SendOpCond v)
  then show ?thesis using assms by blast
qed (simp_all add: mmc_rsp_def cmd_word_simps)

lemma status_transfer [simp]:
  "status_from 0x900 = Ok (status_of 0x900)" "ready_for_data (status_of 0x900)"
  "state (status_of 0x900) = Transfer"
  by (simp_all add: status_from_def status_of_def error_mask_def error_positions_def card_state_of_def)

lemma runs_check_transfer [run_rules]:
  assumes "selected E = Some rca" "addr mod 4 = 0"
  shows "runs_in (2 ^ 16) (check_transfer_state mmc_hw p E addr) rca"
proof -
  have "runs_in (0 + (2 ^ 16 + 0 + 0)) (check_transfer_state mmc_hw p E addr) rca"
    unfolding check_transfer_state_def get_card_status_def assms(1) option.case
    by (rule run_rules rsp_status | simp add: assms(2) odebug_assert_def)+
  then show ?thesis by simp
qed

lemma runs_setup [run_rules]:
  assumes "runs_in k rel ()"
  shows "runs_in (k + 10) (setup_transfer mmc_hw E d rel addr) ()"
proof -
  have "runs_in (1 + (1 + (1 + (k + (1 + (1 + 1)))))) (setup_transfer mmc_hw E d rel addr) ()"
    unfolding setup_transfer_def
    by (rule run_rules assms | simp add: mmc_answer_def PRES_STATE_DLA_def)+
  then show ?thesis by (rule runs_mono) simp
qed

lemma runs_read [run_rules]:
  assumes "selected E = Some rca" "addr mod 4 = 0"
  shows "runs_in (2 ^ 18) (read_single_block mmc_hw p E nr addr) ()"
proof -
  let ?c = "case nr of Some n \<Rightarrow> ReadSingleBlock n | None \<Rightarrow> SendExtCsd"
  have rsp: "mmc_rsp (Some (cmd_word 0 ?c)) = 0x900"
    by (rule rsp_status) (simp split: option.split)
  have "runs_in (2 ^ 16 + ((0 + 10) + (2 ^ 16 + 0))) (read_single_block mmc_hw p E nr addr) ()"
    unfolding read_single_block_def by (rule run_rules assms rsp | simp)+
  then show ?thesis by (rule runs_mono) simp
qed

lemma runs_write [run_rules]:
  assumes "selected E = Some rca" "addr mod 4 = 0"
  shows "runs_in (2 ^ 18) (write_single_block mmc_hw p E n addr b) ()"
proof -
  have "runs_in (2 ^ 16 + ((1 + 10) + (2 ^ 16 + (0 + 0)))) (write_single_block mmc_hw p E n addr b) ()"
    unfolding write_single_block_def finish_write_def
    by (rule run_rules assms rsp_status | simp)+
  then show ?thesis by (rule runs_mono) simp
qed

lemma write_then_read:
  assumes "selected E = Some rca" "addr mod 4 = 0" "n < blocks E"
  shows "\<exists>s tr' c. emmc_write mmc_hw p E addr n b [] = (Ok (), s) \<and> emmc_read mmc_hw p E addr n s = (Ok c, tr')"
proof -
  obtain s where w: "write_single_block mmc_hw p E n addr b [] = (Ok (), s)" "mmc_status s = 0" "ticks s \<le> 2 ^ 18"
    using runs_inD [OF runs_write [OF assms(1,2)], of "[]" p n b] by (auto simp: unat_tick_clk)
  obtain tr' where "read_single_block mmc_hw p E (Some n) addr s = (Ok (), tr')"
    using runs_inD [OF runs_read [OF assms(1,2)], of s p "Some n"] w(2,3) by auto
  then show ?thesis
    using w(1) assms(3) by (simp add: emmc_write_def emmc_read_def oassert_def)
qed

text \<open>Initialisation on the example card.\<close>

lemma runs_rmw [run_rules]:
  assumes "r \<noteq> Usdhc CMD_XFR_TYP" "\<forall>tr. answer mmc_hw tr r = v"
  shows "runs_in 2 (rmw mmc_hw r f) ()"
proof -
  have "runs_in (1 + 1) (rmw mmc_hw r f) ()"
    unfolding rmw_def by (rule runs_bind) (rule runs_rd runs_wr | simp add: assms)+
  then show ?thesis by (rule runs_mono) simp
qed

lemma runs_frequency [run_rules]: "runs_in 10 (change_frequency mmc_hw f) ()"
proof -
  have "runs_in (1 + (2 + (2 + (1 + 2)))) (change_frequency mmc_hw f) ()"
    unfolding change_frequency_def Let_def
    by (cases f; simp only: frequency.case prod.case)
      (rule run_rules | simp add: mmc_answer_def | rule refl)+
  then show ?thesis by (rule runs_mono) simp
qed

lemma runs_width [run_rules]:
  "runs_in (2 ^ 17) (change_bus_width mmc_hw p E w sw) (E\<lparr>width := w\<rparr>)"
proof -
  have "runs_in (2 ^ 16 + 0 + (2 + 0)) (change_bus_width mmc_hw p E w sw) (E\<lparr>width := w\<rparr>)"
  proof (cases sw)
    case True
    show ?thesis
      unfolding change_bus_width_def if_P [OF True]
      by (rule run_rules rsp_status | simp add: mmc_answer_def | rule refl)+
  next
    case False
    have "runs_in (0 + (2 + 0)) (change_bus_width mmc_hw p E w sw) (E\<lparr>width := w\<rparr>)"
      unfolding change_bus_width_def if_not_P [OF False]
      by (rule run_rules | simp add: mmc_answer_def | rule refl)+
    then show ?thesis by (rule runs_mono) simp
  qed
  then show ?thesis by (rule runs_mono) simp
qed

lemma runs_reset [run_rules]:
  "runs_in (2 ^ 18) (software_reset mmc_hw p E) (E\<lparr>width := Width1\<rparr>)"
proof -
  have "runs_in (1 + (2 + (2 + (1 + (2 ^ 17 + (10 + (32770 + (2 + 0)))))))) (software_reset mmc_hw p E) (E\<lparr>width := Width1\<rparr>)"
    unfolding software_reset_def
    by (rule run_rules | simp add: mmc_answer_def PRES_STATE_CIHB_def PRES_STATE_CDIHB_def from_millis_def | rule refl)+
  then show ?thesis by (rule runs_mono) simp
qed

lemma runs_now:
  assumes "\<And>v. runs_in k (f v) a"
  shows "runs_in (1 + k) (abind (instant_now mmc_hw) f) a"
  unfolding runs_in_def
proof (intro allI impI)
  fix tr assume tr: "mmc_status tr = 0 \<and> ticks tr + (1 + k) < 2 ^ 60"
  obtain v s where n: "(instant_now mmc_hw tr :: (emmc_error, instant) outcome \<times> trace) = (Ok v, s)"
      and t: "ticks s \<le> ticks tr + 1"
    using mmc_clock.now_result [where 'e = emmc_error] by metis
  have "mmc_status s = 0"
    using silentD [OF instant_now_trace(2) n] tr by (metis mmc_effects)
  then obtain tr' where "f v s = (Ok a, tr')" "mmc_status tr' = 0" "ticks tr' \<le> ticks s + k"
    using runs_inD [OF assms [of v], of s] t tr by auto
  then show "\<exists>tr'. abind (instant_now mmc_hw) f tr = (Ok a, tr') \<and> mmc_status tr' = 0 \<and> ticks tr' \<le> ticks tr + (1 + k)"
    using n t by auto
qed

lemma runs_voltage [run_rules]: "runs_in (2 ^ 17) (voltage_validation mmc_hw p) ()"
proof -
  have round: "runs_in (2 ^ 16 + 0) (voltage_round mmc_hw p t0 ()) (Inr ())" for t0
    unfolding voltage_round_def
    by (rule run_rules | simp add: mmc_rsp_def cmd_word_simps)+
  have "runs_in (2 ^ 16 + 0) (aloop (voltage_round mmc_hw p t0) ()) ()" for t0
    using round [of t0] unfolding runs_in_def by (meson aloop_break)
  then have "runs_in (1 + (2 ^ 16 + 0)) (voltage_validation mmc_hw p) ()"
    unfolding voltage_validation_def by (rule runs_now)
  then show ?thesis by (rule runs_mono) simp
qed

lemma runs_register [run_rules]: "runs_in (2 ^ 18) (register_cards mmc_hw p) ()"
proof -
  have "runs_in (2 ^ 16 + (1 + (1 + (1 + (2 ^ 16 + 0))))) (register_cards mmc_hw p) ()"
    unfolding register_cards_def by (rule run_rules rsp_status | simp add: mmc_answer_def)+
  then show ?thesis by (rule runs_mono) simp
qed

lemma runs_select [run_rules]: "runs_in (2 ^ 18) (select_card mmc_hw p E RCA) (E\<lparr>selected := Some RCA\<rparr>)"
proof -
  have "runs_in (0 + (2 ^ 16 + (2 ^ 16 + 0))) (select_card mmc_hw p E RCA) (E\<lparr>selected := Some RCA\<rparr>)"
    unfolding select_card_def by (rule run_rules rsp_status | simp add: oassert_def | rule refl)+
  then show ?thesis by (rule runs_mono) simp
qed

lemma runs_idle [run_rules]: "runs_in (2 ^ 17) (reset_cards mmc_hw p) ()"
proof -
  have "runs_in (2 ^ 16 + 0) (reset_cards mmc_hw p) ()"
    unfolding reset_cards_def by (rule run_rules rsp_status | simp)+
  then show ?thesis by (rule runs_mono) simp
qed

text \<open>A last step whose result depends on the trace.\<close>

definition ends_in :: "nat \<Rightarrow> (emmc_error, 'a) io \<Rightarrow> bool" where
  "ends_in k m \<longleftrightarrow> (\<forall>tr. mmc_status tr = 0 \<and> ticks tr + k < 2 ^ 60 \<longrightarrow> (\<exists>a tr'. m tr = (Ok a, tr')))"

lemma ends_bind:
  assumes "runs_in j m a" "ends_in k (f a)"
  shows "ends_in (j + k) (abind m f)"
  unfolding ends_in_def
proof (intro allI impI)
  fix tr assume tr: "mmc_status tr = 0 \<and> ticks tr + (j + k) < 2 ^ 60"
  then obtain s where s: "m tr = (Ok a, s)" "mmc_status s = 0" "ticks s \<le> ticks tr + j"
    using runs_inD [OF assms(1), of tr] by auto
  then obtain b tr' where "f a s = (Ok b, tr')" using assms(2) tr by (fastforce simp: ends_in_def)
  then show "\<exists>b tr'. abind m f tr = (Ok b, tr')" using s by auto
qed

lemma ends_take:
  assumes "addr mod 4 = 0"
  shows "\<exists>E tr'. emmc_take mmc_hw p addr [] = (Ok E, tr')"
proof -
  have last: "ends_in 0 (\<lambda>tr. (Ok (g tr), tr))" for g :: "trace \<Rightarrow> emmc" by (simp add: ends_in_def)
  have "ends_in (1 + (0 + (1 + (2 + (2 ^ 18 + (2 ^ 17 + (2 ^ 17 + (2 ^ 18 + (2 ^ 18 + (2 ^ 17 + (10 +
      (2 ^ 18 + 0)))))))))))) (emmc_take mmc_hw p addr)"
    unfolding emmc_take_def Let_def
    by (rule ends_bind last run_rules | simp add: mmc_answer_def SBMR1_def oassert_def assms | rule refl)+
  then show ?thesis by (simp add: ends_in_def unat_tick_clk)
qed

end
