(* ===== verification/EmmcInit.thy ===== *)
theory EmmcInit
  imports EmmcCard
begin

text \<open>
  The commands a call sends, in order, and the properties of the eMMC driver.
\<close>

section \<open>Command sequences\<close>

text \<open>The values written to \<^verbatim>\<open>CMD_XFR_TYP\<close>, oldest first.\<close>

fun cmds_of :: "trace \<Rightarrow> u32 list" where
  "cmds_of [] = []"
| "cmds_of (Wr r v # tr) = (if r = Usdhc CMD_XFR_TYP then cmds_of tr @ [v] else cmds_of tr)"
| "cmds_of (Rd r v # tr) = cmds_of tr"
| "cmds_of (Mem a b # tr) = cmds_of tr"

lemma issued_effects: "cmds_of (effects tr) = cmds_of tr"
  by (induction tr rule: effects.induct) auto

lemma issued_append: "cmds_of (es @ tr) = cmds_of tr @ cmds_of es"
  by (induction es rule: cmds_of.induct) auto

text \<open>A successful call sends one of the sequences in \<open>A\<close>.\<close>

definition sends :: "u32 list set \<Rightarrow> ('e, 'a) io \<Rightarrow> bool" where
  "sends A m \<longleftrightarrow> (\<forall>tr a tr'. m tr = (Ok a, tr') \<longrightarrow> (\<exists>ws \<in> A. cmds_of tr' = cmds_of tr @ ws))"

definition conc :: "'x list set \<Rightarrow> 'x list set \<Rightarrow> 'x list set" where
  "conc A B = {u @ v | u v. u \<in> A \<and> v \<in> B}"

named_theorems send_rules "the commands calls send"

lemma conc_simps [simp]: "conc {u} {v} = {u @ v}" "conc {[]} B = B" "conc A {[]} = A"
  by (auto simp: conc_def)

lemma conc_assoc: "conc (conc A B) C = conc A (conc B C)"
proof -
  have "\<exists>x v. u @ w @ z = x @ v \<and> (\<exists>ya yb. x = ya @ yb \<and> ya \<in> A \<and> yb \<in> B) \<and> v \<in> C"
    if "u \<in> A" "w \<in> B" "z \<in> C" for u w z
    using that by (metis append_assoc)
  then show ?thesis by (fastforce simp: conc_def)
qed

lemma sendsD: "sends A m \<Longrightarrow> m tr = (Ok a, tr') \<Longrightarrow> \<exists>ws \<in> A. cmds_of tr' = cmds_of tr @ ws"
  by (simp add: sends_def)

lemma sends_abind [send_rules]:
  assumes "sends A m" "\<And>a. sends B (f a)"
  shows "sends (conc A B) (abind m f)"
  unfolding sends_def
proof (intro allI impI)
  fix tr b tr' assume "abind m f tr = (Ok b, tr')"
  then obtain a s where s: "m tr = (Ok a, s)" "f a s = (Ok b, tr')" by (auto simp: abind_Ok_iff)
  obtain u where u: "u \<in> A" "cmds_of s = cmds_of tr @ u" using sendsD [OF assms(1) s(1)] by blast
  obtain v where v: "v \<in> B" "cmds_of tr' = cmds_of s @ v" using sendsD [OF assms(2) s(2)] by blast
  then show "\<exists>ws \<in> conc A B. cmds_of tr' = cmds_of tr @ ws"
    using u by (intro bexI [of _ "u @ v"]) (auto simp: conc_def)
qed

lemma sends_silent: "silent m \<Longrightarrow> sends {[]} m"
  unfolding sends_def by (metis append_Nil2 issued_effects silentD singletonI)

lemma sends_nothing [send_rules]:
  "sends {[]} (rd hw r)" "sends {[]} (aret x)" "sends {[]} (alift y)" "sends {[]} (await hw r p)"
  "sends {[]} (wait hw d)" "sends {[]} (instant_now hw)"
  by (intro sends_silent trace_rules)+

lemma sends_last [send_rules]: "sends {[]} (\<lambda>tr. (Ok (g tr), tr))"
  by (simp add: sends_def)

lemma sends_wr [send_rules]: "r \<noteq> Usdhc CMD_XFR_TYP \<Longrightarrow> sends {[]} (wr r v)"
  by (simp add: sends_def wr_def)

lemma sends_rmw [send_rules]: "r \<noteq> Usdhc CMD_XFR_TYP \<Longrightarrow> sends {[]} (rmw hw r f)"
  by (simp add: sends_def rmw_def wr_def rd_def)

lemma sends_send [send_rules]: "sends {[cmd_word 0 c]} (send_cmd hw p c)"
proof -
  have "cmds_of tr' = cmds_of tr @ [cmd_word 0 c]" if "send_cmd hw p c tr = (Ok r, tr')" for tr r tr'
    using arg_cong [OF send_cmd_effects [OF that], of cmds_of]
    by (simp add: issued_effects issued_append emmc_command_effects_def completion_effects_def)
  then show ?thesis by (auto simp: sends_def)
qed

lemma sends_fatal [send_rules]: "sends A m \<Longrightarrow> sends A (fatal m)"
  by (auto simp: sends_def fatal_def split: prod.splits outcome.splits)

lemma sends_setup [send_rules]: "sends {[]} (setup_transfer hw E d (aret ()) addr)"
  using setup_transfer_Ok [where rel = "aret ()" and ms = "[]"] issued_effects
  by (fastforce simp: sends_def setup_effects_def dest: arg_cong [where f = cmds_of])

lemma sends_check [send_rules]:
  "selected E = Some rca \<Longrightarrow> sends {[cmd_word 0 (SendStatus rca)]} (check_transfer_state hw p E addr)"
  using check_transfer_Ok issued_effects
  by (fastforce simp: sends_def emmc_command_effects_def completion_effects_def issued_append
      dest: arg_cong [where f = cmds_of])

lemma sends_voltage [send_rules]:
  "sends {replicate (Suc n) (cmd_word 0 (SendOpCond 0)) | n. True} (voltage_validation hw p)"
proof -
  let ?w = "cmd_word 0 (SendOpCond 0)"
  have cmd: "cmd_word 0 (SendOpCond v) = ?w" for v by (simp add: cmd_word_simps)
  have round: "sends {[?w]} (voltage_round hw p t0 b)" for t0 b
  proof -
    have "sends (conc {[?w]} {[]}) (voltage_round hw p t0 b)"
      unfolding voltage_round_def
    proof (rule sends_abind)
      show "sends {[?w]} (send_cmd hw p (SendOpCond 0x00FF8000))" using sends_send cmd by metis
      show "sends {[]} (if ocr AND push_bit 31 1 \<noteq> 0 then aret (Inr ())
          else abind (elapsed hw t0) (\<lambda>d. if emmc_timeout < d then alift Reset
            else abind (wait hw (from_millis 1)) (\<lambda>_. aret (Inl ()))))" for ocr
        by (rule sends_silent) (auto intro!: trace_rules)
    qed
    then show ?thesis by simp
  qed
  have "\<exists>n. cmds_of tr' = cmds_of tr @ replicate (Suc n) ?w"
    if loop: "aloop (voltage_round hw p t0) () tr = (Ok () :: (emmc_error, unit) outcome, tr')" for t0 tr tr'
  proof -
    let ?P = "\<lambda>(_ :: unit) s. \<exists>n. cmds_of s = cmds_of tr @ replicate n ?w"
    have nh: "(Ok () :: (emmc_error, unit) outcome) \<noteq> Hang" by simp
    have P0: "?P () tr" by (intro exI [of _ 0]) simp
    have step: "?P b' s'" if "?P b s" "voltage_round hw p t0 b s = (Ok x, s')" for b s b' s' x
    proof -
      note P = that(1) and r = that(2)
      obtain n where "cmds_of s = cmds_of tr @ replicate n ?w" using P by blast
      then have "cmds_of s' = cmds_of tr @ replicate (Suc n) ?w"
        using sendsD [OF round r] by (simp add: replicate_append_same)
      then show ?thesis by blast
    qed
    obtain b s and r1 :: "(emmc_error, unit + unit) outcome" where P: "?P b s"
        and last: "voltage_round hw p t0 b s = (r1, tr')" and r1: "Ok () = loop_result r1"
      by (rule aloop_last [OF loop nh, where P = ?P]) (rule P0 | erule (1) step | erule (2) that)+
    then obtain x where "r1 = Ok x" by (cases r1) auto
    then obtain n where "cmds_of s = cmds_of tr @ replicate n ?w" "cmds_of tr' = cmds_of s @ [?w]"
      using P sendsD [OF round, of t0 b s x tr'] last by auto
    then show ?thesis by (intro exI [of _ n]) (simp add: replicate_append_same)
  qed
  then have "sends (conc {[]} {replicate (Suc n) ?w | n. True}) (voltage_validation hw p)"
    unfolding voltage_validation_def
    by (intro sends_abind send_rules) (fastforce simp: sends_def)
  then show ?thesis by simp
qed

lemma sends_frequency [send_rules]: "sends {[]} (change_frequency hw f)"
proof -
  have "sends (conc {[]} (conc {[]} (conc {[]} (conc {[]} {[]})))) (change_frequency hw f)"
    unfolding change_frequency_def Let_def
    by (cases f; simp only: frequency.case prod.case) (rule send_rules | simp)+
  then show ?thesis by simp
qed

lemma sends_width_only [send_rules]: "sends {[]} (change_bus_width hw p E w False)"
proof -
  have "sends (conc {[]} (conc {[]} {[]})) (change_bus_width hw p E w False)"
    unfolding change_bus_width_def if_False by (rule send_rules | simp)+
  then show ?thesis by simp
qed

lemma sends_width [send_rules]: "sends {[cmd_word 0 (Switch 0)]} (change_bus_width hw p E w True)"
proof -
  have "sends (conc (conc {[cmd_word 0 (Switch (case w of Width1 \<Rightarrow> 0x03B70000 | Width8 \<Rightarrow> 0x03B70200))]} {[]}) (conc {[]} {[]}))
      (change_bus_width hw p E w True)"
    unfolding change_bus_width_def if_True by (rule send_rules | simp)+
  then show ?thesis by (simp add: cmd_word_simps)
qed

lemma sends_reset [send_rules]: "sends {[]} (software_reset hw p E)"
proof -
  have "sends (conc {[]} (conc {[]} (conc {[]} (conc {[]} (conc {[]} (conc {[]} (conc {[]} (conc {[]} {[]}))))))))
      (software_reset hw p E)"
    unfolding software_reset_def by (rule send_rules | simp)+
  then show ?thesis by simp
qed

lemma sends_select [send_rules]:
  "sends {map (cmd_word 0) [SelectCard (Some rca), SetBlockLen (of_nat BLOCK_SIZE)]} (select_card hw p E rca)"
proof -
  have "sends (conc {[]} (conc {[cmd_word 0 (SelectCard (Some rca))]} (conc {[cmd_word 0 (SetBlockLen (of_nat BLOCK_SIZE))]} {[]})))
      (select_card hw p E rca)"
    unfolding select_card_def by (rule send_rules)+
  then show ?thesis by simp
qed

lemma sends_register [send_rules]:
  "sends {map (cmd_word 0) [AllSendCid, SetRelativeAddr RCA]} (register_cards hw p)"
proof -
  have "sends (conc {[cmd_word 0 AllSendCid]} (conc {[]} (conc {[]} (conc {[]} (conc {[cmd_word 0 (SetRelativeAddr RCA)]} {[]})))))
      (register_cards hw p)"
    unfolding register_cards_def by (rule send_rules)+
  then show ?thesis by simp
qed

lemma sends_idle [send_rules]: "sends {[cmd_word 0 GoIdleState]} (reset_cards hw p)"
proof -
  have "sends (conc {[cmd_word 0 GoIdleState]} {[]}) (reset_cards hw p)"
    unfolding reset_cards_def by (rule send_rules)+
  then show ?thesis by simp
qed

lemma sends_ext_csd [send_rules]:
  assumes "selected E = Some rca"
  shows "sends {map (cmd_word 0) [SendStatus rca, SendExtCsd]} (read_single_block hw p E None addr)"
proof -
  have "sends (conc {[cmd_word 0 (SendStatus rca)]} (conc {[]} (conc {[cmd_word 0 SendExtCsd]} {[]})))
      (read_single_block hw p E None addr)"
    unfolding read_single_block_def option.case by (rule send_rules assms)+
  then show ?thesis by simp
qed

section \<open>Properties\<close>

text \<open>The state after initialisation.\<close>

lemma change_bus_width_Ok: "change_bus_width hw p E w sw tr = (Ok E', tr') \<Longrightarrow> E' = E\<lparr>width := w\<rparr>"
  by (auto simp: change_bus_width_def abind_Ok_iff)

lemma select_card_Ok: "select_card hw p E rca tr = (Ok E', tr') \<Longrightarrow> E' = E\<lparr>selected := Some rca\<rparr>"
  by (auto simp: select_card_def abind_Ok_iff)

lemma fatal_Ok [simp]: "fatal m tr = (Ok a, tr') \<longleftrightarrow> m tr = (Ok a, tr')"
  by (auto simp: fatal_def split: prod.splits outcome.splits)

lemma emmc_take_steps:
  assumes "emmc_take hw p addr tr = (Ok E, tr')"
  obtains s0 s1 s2 s3 s4 s5 s6 s7 s8 E0 E1 E2 where
    "cmds_of s0 = cmds_of tr" "software_reset hw p \<lparr>selected = Some RCA, blocks = 0, width = Width8\<rparr> s0 = (Ok E0, s1)"
    "reset_cards hw p s1 = (Ok (), s2)" "voltage_validation hw p s2 = (Ok (), s3)"
    "register_cards hw p s3 = (Ok (), s4)" "select_card hw p E0 RCA s4 = (Ok E1, s5)"
    "change_bus_width hw p E1 Width8 True s5 = (Ok E2, s6)" "change_frequency hw M20 s6 = (Ok (), s7)"
    "read_single_block hw p E2 None addr s7 = (Ok (), tr')"
    "E = E2\<lparr>blocks := (let x = dma_memory hw tr' addr 512 in le32_of (x ! 212) (x ! 213) (x ! 214) (x ! 215))\<rparr>"
proof -
  from assms show ?thesis
    unfolding emmc_take_def
    by (clarsimp simp: abind_Ok_iff Let_def) (rule that; auto simp: rmw_def rd_def wr_def Let_def SBMR1_def)
qed



text \<open>
  A partition on the eMMC is a disk: on a card that keeps the contract \<open>emmc_card\<close>, what was
  written to a block is read back from it, every other block of the partition reads as the card
  stored it before, and both go to blocks of the card.
\<close>

lemma emmc_write_read:
  fixes k :: u64
  assumes "emmc_card hw stored" "length b = BLOCK_SIZE"
    and "dev_write (partition_dev (emmc_dev hw p E addr) x) b lba tr = (Ok (), tr1)"
    and "dev_read (partition_dev (emmc_dev hw p E addr) x) k tr1 = (Ok c, tr2)"
  shows "c = (if k = lba then b else stored tr (ucast (k + ucast (start x)))) \<and>
    unat k + unat (start x) < unat (blocks E) \<and> unat lba + unat (start x) < unat (blocks E)"
proof -
  have dev: "block_device (emmc_dev hw p E addr) (\<lambda>_. True) (emmc_blk stored E)"
    using emmc_driver.driver_is_block_device [of hw stored] assms(1) by (simp add: emmc_driver_def)
  have k: "k < ucast (sectors x)" and l: "lba < ucast (sectors x)"
    using assms(3,4) by (auto simp: partition_dev_def split: if_splits)
  obtain w where w: "dev_write (emmc_dev hw p E addr) b (lba + ucast (start x)) tr = (Ok (), tr1)"
      and r: "dev_read (emmc_dev hw p E addr) (k + ucast (start x)) tr1 = (Ok c, tr2)"
    using assms(3,4) k l by (auto simp: partition_dev_def amap_err_def split: prod.splits if_splits)
  note W = block_device.write_Ok [OF dev _ assms(2) w, simplified]
    and R = block_device.read_Ok [OF dev _ r, simplified]
  have tot: "total_blocks (emmc_dev hw p E addr) s = ucast (blocks E)" for s by (simp add: emmc_dev_def)
  have lt: "k + ucast (start x) < ucast (blocks E)" "lba + ucast (start x) < ucast (blocks E)"
    using R(3) W(2) tot by simp_all
  then have "unat k + unat (start x) < unat (blocks E)" "unat lba + unat (start x) < unat (blocks E)"
    using shifted_lba [OF k] shifted_lba [OF l] by (simp_all add: word_less_nat_alt)
  moreover have "c = (if k = lba then b else stored tr (ucast (k + ucast (start x))))"
    using R(1) W(1) lt by (auto simp: emmc_blk_def)
  ultimately show ?thesis by simp
qed

definition example_emmc :: emmc where
  "example_emmc = \<lparr>selected = Some 2, blocks = 16, width = Width8\<rparr>"

lemma emmc_write_read_witness:
  "\<exists>tr1 tr2 c. dev_write (partition_dev (emmc_dev mmc_hw Dev example_emmc 0) \<lparr>start = 3, sectors = 5\<rparr>)
       (replicate 512 7) 4 [] = (Ok (), tr1) \<and>
     dev_read (partition_dev (emmc_dev mmc_hw Dev example_emmc 0) \<lparr>start = 3, sectors = 5\<rparr>) 4 tr1 = (Ok c, tr2) \<and>
     c = replicate 512 7"
proof -
  obtain s tr' c where w: "emmc_write mmc_hw Dev example_emmc 0 7 (replicate 512 7) [] = (Ok (), s)"
      and r: "emmc_read mmc_hw Dev example_emmc 0 7 s = (Ok c, tr')"
    using write_then_read [of example_emmc 2 0 7 Dev "replicate 512 7"] by (auto simp: example_emmc_def)
  let ?d = "partition_dev (emmc_dev mmc_hw Dev example_emmc 0) \<lparr>start = 3, sectors = 5\<rparr>"
  have W: "dev_write ?d (replicate 512 7) 4 [] = (Ok (), s)" and R: "dev_read ?d 4 s = (Ok c, tr')"
    using w r by (simp_all add: partition_dev_def emmc_dev_def example_emmc_def amap_err_def)
  have "c = replicate 512 7"
    using emmc_write_read [OF mmc_card.emmc_card_axioms _ W R] by (simp add: BLOCK_SIZE_def)
  then show ?thesis using W R by blast
qed

text \<open>
  C25. A successful command: its argument and then its type word are written, after which only the
  interrupt status is touched (the bits that were waited for are cleared, for a data command
  also those of the transfer); a data command ends only after the status showed the transfer
  complete without an error bit, and a card response with an error bit is not a success.
\<close>

theorem send_cmd_protocol:
  assumes "send_cmd hw p c tr = (Ok rsp, tr')"
  shows "effects tr' = (if data_present c then [Wr (Usdhc INT_STATUS) (INT_STATUS_TC OR INT_STATUS_DINT)] else []) @
      [Wr (Usdhc INT_STATUS) INT_STATUS_CC, Wr (Usdhc CMD_XFR_TYP) (cmd_word 0 c), Wr (Usdhc CMD_ARG) (cmd_arg c)] @
      effects tr \<and>
    (\<exists>es s. tr' = es @ Wr (Usdhc CMD_XFR_TYP) (cmd_word 0 c) # s \<and> (transfer_seen es \<or> cmd_type c \<noteq> ADTC)) \<and>
    rsp AND (if cmd_response c \<in> {R1, R1b} then error_mask else 0) = 0"
proof -
  obtain tr0 es where s: "tr' = es @ Wr (Usdhc CMD_XFR_TYP) (cmd_word 0 c) # Wr (Usdhc CMD_ARG) (cmd_arg c) # tr0"
      "data_present c \<Longrightarrow> transfer_seen es" "cmd_response c = R1 \<or> cmd_response c = R1b \<Longrightarrow> rsp AND error_mask = 0"
    by (rule send_cmd_Ok [OF assms]) blast
  show ?thesis
    using send_cmd_effects [OF assms] s
    by (auto simp: emmc_command_effects_def completion_effects_def data_present_def)
qed

theorem send_cmd_protocol_witness:
  "\<exists>tr'. send_cmd mmc_hw Release (ReadSingleBlock 5) [] = (Ok 0x900, tr') \<and>
     effects tr' = [Wr (Usdhc INT_STATUS) 10, Wr (Usdhc INT_STATUS) 1, Wr (Usdhc CMD_XFR_TYP) 0x113A0000, Wr (Usdhc CMD_ARG) 5]"
proof -
  obtain tr' where s: "send_cmd mmc_hw Release (ReadSingleBlock 5) [] = (Ok 0x900, tr')"
    using runs_inD [OF runs_send [OF rsp_status], of "ReadSingleBlock 5" "[]" Release] by (auto simp: unat_tick_clk)
  then show ?thesis
    using send_cmd_protocol [OF s] by (auto simp: int_status_bits cmd_word_simps cmd_arg_def data_present_def cmd_type_def)
qed

text \<open>
  C32. Reads and writes return: with a clock that runs and a controller that does not stay busy for
  ever, neither hangs (before the clock has run for four million years), whatever the card and
  the interrupt status do.
\<close>

theorem emmc_transfers_return:
  assumes "responsive_card hw clk K L"
  shows "hangs_late clk (emmc_read hw p E addr n) \<and> hangs_late clk (emmc_write hw p E addr n b)"
  using responsive_card.hangs_late_transfer [OF assms] by blast

theorem emmc_transfers_return_witness:
  "hangs_late tick_clk (emmc_read mmc_hw Dev example_emmc 0 7) \<and>
   hangs_late tick_clk (emmc_write mmc_hw Dev example_emmc 0 7 (replicate 512 7))"
  using emmc_transfers_return [OF mmc_resp.responsive_card_axioms] .

text \<open>
  A block address out of range: beyond the last block the driver gives an error, but for the
  address that equals the number of blocks it panics, for reads and writes; the trait of block
  devices promises an error there too.
\<close>

lemma emmc_end_panics:
  "dev_read (emmc_dev hw p E addr) (ucast (blocks E) + 1) tr = (Err Other, tr) \<and>
   dev_write (emmc_dev hw p E addr) b (ucast (blocks E) + 1) tr = (Err Other, tr) \<and>
   dev_read (emmc_dev hw p E addr) (ucast (blocks E)) tr = (Panic, tr) \<and>
   dev_write (emmc_dev hw p E addr) b (ucast (blocks E)) tr = (Panic, tr)"
proof -
  have "unat (ucast (blocks E) + 1 :: u64) = unat (blocks E) + 1"
    using unat_less_exp [of "blocks E"] by (simp add: unat_word_ariths)
  then have "(ucast (blocks E) :: u64) < ucast (blocks E) + 1" by (simp add: word_less_nat_alt)
  moreover have "(ucast (ucast (blocks E) :: u64) :: u32) = blocks E"
    by (rule bit_word_eqI) (simp add: bit_simps)
  ultimately show ?thesis
    by (simp add: emmc_dev_def emmc_read_def emmc_write_def oassert_def)
qed

text \<open>
  The card status: \<^verbatim>\<open>Status::from\<close> rejects exactly the responses in which one of the eighteen
  error conditions is set, and the conditions and the state are those of the response.
\<close>

lemma status_from_errors:
  "status_from b = (let s = status_of b in
     if address_out_of_range s \<or> address_misalign s \<or> block_len_error s \<or> erase_seq_error s \<or>
        erase_param s \<or> wp_violation s \<or> lock_unlock_failed s \<or> com_crc_error s \<or> illegal_command s \<or>
        card_ecc_failed s \<or> cc_error s \<or> general_error s \<or> underrun s \<or> overrun s \<or>
        cid_csd_overwrite s \<or> wp_erase_skip s \<or> erase_reset s \<or> switch_error s
     then Err s else Ok s) \<and>
   (state (status_of b) = Transfer) = (b AND 0x1E00 = 0x800) \<and> bits (status_of b) = b"
proof -
  have test: "b AND 2 ^ e \<noteq> 0 \<longleftrightarrow> bit b e" for e using and_push_bit_test [of b e] by simp
  have ex: "b AND foldr (\<lambda>e m. push_bit e 1 OR m) es 0 \<noteq> 0 \<longleftrightarrow> (\<exists>e \<in> set es. bit b e)" for es
    by (induction es) (use test in \<open>auto simp: bit.conj_disj_distrib or_eq_0_iff\<close>)
  have "b AND push_bit 9 x = push_bit 9 (drop_bit 9 b AND x)" for x
    by (rule bit_word_eqI) (auto simp: bit_push_bit_iff bit_and_iff bit_drop_bit_eq)
  from this [of 15] have up: "b AND 0x1E00 = push_bit 9 (drop_bit 9 b AND 15)" by simp
  have down: "drop_bit 9 (b AND 0x1E00) = drop_bit 9 b AND 15" by simp
  have "drop_bit 9 b AND 15 = 4 \<longleftrightarrow> b AND 0x1E00 = 0x800"
  proof
    assume "drop_bit 9 b AND 15 = 4"
    then show "b AND 0x1E00 = 0x800" by (subst up) simp
  next
    assume "b AND 0x1E00 = 0x800"
    then show "drop_bit 9 b AND 15 = 4" by (subst down [symmetric]) simp
  qed
  moreover have "card_state_of b = Transfer \<longleftrightarrow> drop_bit 9 b AND 15 = 4"
    by (auto simp: card_state_of_def Let_def)
  ultimately have st: "(state (status_of b) = Transfer) = (b AND 0x1E00 = 0x800)"
    by (simp add: status_of_def)
  have "b AND error_mask \<noteq> 0 \<longleftrightarrow> (\<exists>e \<in> set error_positions. bit b e)"
    using ex [of error_positions] by (simp only: error_mask_def)
  then have "status_from b = (if \<exists>e \<in> set error_positions. bit b e then Err (status_of b) else Ok (status_of b))"
    by (simp only: status_from_def)
  then show ?thesis
    by (simp add: st Let_def error_positions_def) (simp add: status_of_def)
qed

text \<open>
  The size field of the CSD crosses a register: \<^verbatim>\<open>extract\<close> reads a single register and drops its
  two upper bits.
\<close>

lemma csd_size_truncated: "unat (csd_size (csd_from rsps)) < 2 ^ 10"
proof -
  have "take_bit 10 (ucast (drop_bit 22 w AND m) :: u16) = ucast (drop_bit 22 w AND m)" for w m :: u32
    by (rule bit_word_eqI) (auto simp: bit_simps dest: bit_imp_le_length)
  then have "take_bit 10 (csd_size (csd_from rsps)) = csd_size (csd_from rsps)"
    by (simp add: csd_from_def csd_extract_def Let_def)
  then have "unat (csd_size (csd_from rsps)) = take_bit 10 (unat (csd_size (csd_from rsps)))"
    by (metis unsigned_take_bit_eq)
  then show ?thesis by (metis take_bit_nat_less_exp)
qed

end
