(* ===== verification/Stack.thy ===== *)
theory Stack
  imports Lfs EmmcInit
begin

text \<open>
  The storage stack put together: littlefs2's storage driver (theory Lfs) on a partition (Storage) of the eMMC driver
  (Emmc) on a card.
\<close>

text \<open>Blocks of at most \<open>k\<close> bytes that are \<open>k\<close> bytes each on average have \<open>k\<close> bytes each.\<close>

lemma concat_full:
  assumes "\<forall>x \<in> set xs. length x \<le> k" "length (concat xs) = k * length xs"
  shows "\<forall>x \<in> set xs. length x = k"
proof -
  have "length (concat ys) \<le> k * length ys" if "\<forall>x \<in> set ys. length x \<le> k" for ys :: "'a list list"
    using that by (induction ys) auto
  then show ?thesis using assms by (induction xs) (fastforce+)
qed

lemma part_of_emmc:
  assumes "emmc_card hw stored"
  shows "block_device (partition_dev (emmc_dev hw p E addr) x) (\<lambda>_. True) (\<lambda>d lba. emmc_blk stored E d (lba + ucast (start x)))"
proof -
  have "block_device (emmc_dev hw p E addr) (\<lambda>_. True) (emmc_blk stored E)"
    using emmc_driver.driver_is_block_device [of hw stored] assms by (simp add: emmc_driver_def)
  then show ?thesis
    using partition_of_device.part_is_block_device [of _ _ _ x] by (simp add: partition_of_device_def)
qed

text \<open>The sectors of the card that a region of the partition is on.\<close>

definition sectors_at :: "(trace \<Rightarrow> u32 \<Rightarrow> bytes) \<Rightarrow> trace \<Rightarrow> nat \<Rightarrow> nat \<Rightarrow> bytes" where
  "sectors_at stored tr s n = concat (map (\<lambda>i. stored tr (of_nat (s + i))) [0..<n])"

lemma emmc_region:
  fixes x :: part_extent
  assumes "emmc_card hw stored" "length (block_device.region (\<lambda>d lba. emmc_blk stored E d (lba + ucast (start x))) tr lba n) = BLOCK_SIZE * n"
    and "lba + n \<le> 2 ^ 32"
  shows "block_device.region (\<lambda>d lba. emmc_blk stored E d (lba + ucast (start x))) tr lba n = sectors_at stored tr (unat (start x) + lba) n"
    and "0 < n \<Longrightarrow> unat (start x) + lba + n \<le> unat (blocks E)"
proof -
  let ?blk = "\<lambda>i. emmc_blk stored E tr (of_nat (lba + i) + ucast (start x))"
  have dev: "block_device (partition_dev (emmc_dev hw p E addr) x) (\<lambda>_. True) (\<lambda>d lba. emmc_blk stored E d (lba + ucast (start x)))" for p addr
    by (rule part_of_emmc [OF assms(1)])
  have region: "block_device.region (\<lambda>d lba. emmc_blk stored E d (lba + ucast (start x))) tr lba n = concat (map ?blk [0..<n])"
    using block_device.region_def [OF dev] by simp
  have "length (?blk i) \<le> BLOCK_SIZE" for i
    using emmc_card.stored_length [OF assms(1)] by (simp add: emmc_blk_def)
  then have "\<forall>b \<in> set (map ?blk [0..<n]). length b = BLOCK_SIZE"
    using assms(2) unfolding region by (intro concat_full) auto
  then have full: "length (?blk i) = BLOCK_SIZE" if "i < n" for i using that by auto
  have at: "unat (start x) + lba + i < unat (blocks E) \<and> ?blk i = stored tr (of_nat (unat (start x) + lba + i))" if "i < n" for i
  proof -
    have lt: "of_nat (lba + i) + ucast (start x) < (ucast (blocks E) :: u64)"
      using full [OF that] by (simp add: emmc_blk_def BLOCK_SIZE_def split: if_splits)
    have s: "of_nat (lba + i) + ucast (start x) = (of_nat (unat (start x) + lba + i) :: u64)" by simp
    have "unat (start x) + lba + i < 2 ^ 64" using that assms(3) unat_less_exp [of "start x"] by simp
    then have u: "unat (of_nat (unat (start x) + lba + i) :: u64) = unat (start x) + lba + i" by (intro unat_of_nat_small) simp
    then have "unat (start x) + lba + i < unat (blocks E)" using lt unfolding s by (simp add: word_less_nat_alt)
    moreover have "(ucast (of_nat (unat (start x) + lba + i) :: u64) :: u32) = of_nat (unat (start x) + lba + i)"
      by (rule bit_word_eqI) (simp only: bit_simps, auto)
    ultimately show ?thesis using lt unfolding s by (simp add: emmc_blk_def)
  qed
  have "concat (map ?blk [0..<n]) = sectors_at stored tr (unat (start x) + lba) n"
    unfolding sectors_at_def using at by (intro arg_cong [where f = concat] map_cong) auto
  then show "block_device.region (\<lambda>d lba. emmc_blk stored E d (lba + ucast (start x))) tr lba n = sectors_at stored tr (unat (start x) + lba) n"
    by (simp only: region)
  show "unat (start x) + lba + n \<le> unat (blocks E)" if "0 < n"
  proof -
    have "unat (start x) + lba + (n - 1) < unat (blocks E)" using at [of "n - 1"] that by (metis diff_less zero_less_one)
    then show ?thesis using that by linarith
  qed
qed



end
