(* ===== verification/RegTable.thy ===== *)
theory RegTable
  imports Prelude "HOL-Library.Sublist"
begin

text \<open>
  \<^verbatim>\<open>host/txt2rust/src/parse.rs\<close>: reading register tables out of the text of the reference manual.
  Strings are lists of ASCII characters. A panic is an outcome; \<^verbatim>\<open>?\<close> on an option is \<open>Ok None\<close>.
\<close>

section \<open>Strings\<close>

definition is_space :: "char \<Rightarrow> bool" where
  "is_space c \<longleftrightarrow> c = CHR '' '' \<or> (9 \<le> (of_char c :: nat) \<and> (of_char c :: nat) \<le> 13)"

definition trim :: "string \<Rightarrow> string" where
  "trim s = rev (dropWhile is_space (rev (dropWhile is_space s)))"

text \<open>\<^verbatim>\<open>splitn(2, c)\<close> and \<^verbatim>\<open>rsplitn(2, c)\<close>: the first part and, if \<open>c\<close> occurs, the second.\<close>

definition splitn2 :: "char \<Rightarrow> string \<Rightarrow> string \<times> string option" where
  "splitn2 c s = (takeWhile (\<lambda>x. x \<noteq> c) s, if c \<in> set s then Some (tl (dropWhile (\<lambda>x. x \<noteq> c) s)) else None)"

definition rsplitn2 :: "char \<Rightarrow> string \<Rightarrow> string \<times> string option" where
  "rsplitn2 c s = (case splitn2 c (rev s) of (a, b) \<Rightarrow> (rev a, map_option rev b))"

definition is_digit :: "char \<Rightarrow> bool" where
  "is_digit c \<longleftrightarrow> 48 \<le> (of_char c :: nat) \<and> (of_char c :: nat) \<le> 57"

text \<open>\<^verbatim>\<open>from_str_radix\<close> of an unsigned type: an optional plus sign, at least one digit, no overflow.\<close>

definition digit_value :: "nat \<Rightarrow> char \<Rightarrow> nat option" where
  "digit_value radix c =
     (let n = of_char c :: nat;
          d = (if 48 \<le> n \<and> n \<le> 57 then n - 48
               else if 97 \<le> n \<and> n \<le> 122 then n - 87
               else if 65 \<le> n \<and> n \<le> 90 then n - 55 else radix)
      in if d < radix then Some d else None)"

fun digits_value :: "nat \<Rightarrow> nat \<Rightarrow> string \<Rightarrow> nat option" where
  "digits_value radix acc [] = Some acc"
| "digits_value radix acc (c # cs) =
     (case digit_value radix c of None \<Rightarrow> None | Some d \<Rightarrow> digits_value radix (radix * acc + d) cs)"

definition from_str_radix :: "nat \<Rightarrow> nat \<Rightarrow> string \<Rightarrow> nat option" where
  "from_str_radix bits radix s =
     (let ds = (if s \<noteq> [] \<and> hd s = CHR ''+'' then tl s else s) in
      if ds = [] then None
      else case digits_value radix 0 ds of
        None \<Rightarrow> None
      | Some n \<Rightarrow> if n < 2 ^ bits then Some n else None)"

text \<open>\<^verbatim>\<open>str::lines\<close>.\<close>

definition drop_cr :: "string \<Rightarrow> string" where
  "drop_cr s = (if s \<noteq> [] \<and> last s = CHR 0x0D then butlast s else s)"

function txt_lines :: "string \<Rightarrow> string list" where
  "txt_lines s =
     (if s = [] then []
      else case splitn2 (CHR 0x0A) s of
        (l, None) \<Rightarrow> [drop_cr l]
      | (l, Some rest) \<Rightarrow> drop_cr l # txt_lines rest)"
  by auto

termination txt_lines
proof (relation "measure length")
  fix s a b and rest :: string
  assume "s \<noteq> []" "(a, b) = splitn2 (CHR 0x0A) s" "b = Some rest"
  then have r: "rest = tl (dropWhile (\<lambda>x. x \<noteq> CHR 0x0A) s)" "CHR 0x0A \<in> set s"
    by (auto simp: splitn2_def split: if_splits)
  have "length (dropWhile (\<lambda>x. x \<noteq> CHR 0x0A) s) \<le> length s" by (rule length_dropWhile_le)
  then show "(rest, s) \<in> measure length" using \<open>s \<noteq> []\<close> r by (cases s) auto
qed simp

declare txt_lines.simps [simp del]

lemma txt_lines_Nil [simp]: "txt_lines [] = []"
  by (simp add: txt_lines.simps)

section \<open>The fields of a row\<close>

datatype access = ReadOnly | ReadWrite | WriteOnly | WriteOneToClear

record parsed_reg =
  abs_addr :: u32
  description :: string
  reg_name :: string
  reg_width :: u8
  reg_access :: access
  reset_value :: u32

text \<open>\<^verbatim>\<open>abs_addr\<close>: \<^verbatim>\<open>C\<close> or \<^verbatim>\<open>210_34DC\<close>.\<close>

definition parse_abs_addr :: "string \<Rightarrow> u32 option" where
  "parse_abs_addr txt =
     (case splitn2 (CHR ''_'') txt of (first, rest) \<Rightarrow>
      case from_str_radix 16 16 first of
        None \<Rightarrow> None
      | Some halfword \<Rightarrow>
          (case rest of
             None \<Rightarrow> Some (of_nat halfword)
           | Some r \<Rightarrow> (case from_str_radix 16 16 r of
               None \<Rightarrow> None
             | Some lower \<Rightarrow> Some (push_bit 16 (of_nat halfword) OR of_nat lower))))"

definition parse_width :: "string \<Rightarrow> u8 option" where
  "parse_width txt =
     (if txt = ''8'' then Some 8 else if txt = ''16'' then Some 16 else if txt = ''32'' then Some 32 else None)"

definition parse_access :: "string \<Rightarrow> access option" where
  "parse_access txt =
     (if txt = ''R'' then Some ReadOnly else if txt = ''R/W'' then Some ReadWrite
      else if txt = ''W'' then Some WriteOnly else if txt = ''w1c'' then Some WriteOneToClear else None)"

text \<open>\<^verbatim>\<open>reset_value\<close>: \<^verbatim>\<open>12AB_34CDh\<close> or \<^verbatim>\<open>0030h\<close>.\<close>

definition parse_reset_value :: "string \<Rightarrow> u32 option" where
  "parse_reset_value txt =
     (if txt = [] \<or> last txt \<noteq> CHR ''h'' then None
      else case splitn2 (CHR ''_'') (butlast txt) of
        (a, Some b) \<Rightarrow> (case from_str_radix 16 16 a of
            None \<Rightarrow> None
          | Some higher \<Rightarrow> (case from_str_radix 16 16 b of
              None \<Rightarrow> None
            | Some lower \<Rightarrow> Some (push_bit 16 (of_nat higher) OR of_nat lower)))
      | (a, None) \<Rightarrow> map_option of_nat (from_str_radix 16 16 a))"

section \<open>A row\<close>

text \<open>
  A row split in three lines: description and identifier are in the lines before and after. The
  result is the description and the identifier.
\<close>

definition split_row :: "string \<Rightarrow> string \<Rightarrow> ('e, string \<times> string) outcome" where
  "split_row prev next =
     (if CHR ''('' \<in> set next \<and> CHR '')'' \<in> set next then
        (case rsplitn2 (CHR ''('') next of (last_part, before) \<Rightarrow>
         obind (oexpect before) (\<lambda>b.
         let name = fst (splitn2 (CHR '')'') last_part);
             more = trim b
         in
           (case rsplitn2 (CHR '' '') prev of (tail, front) \<Rightarrow>
            obind (if tail \<noteq> [] \<and> is_digit (hd tail) \<and> CHR ''.'' \<in> set tail
                   then obind (oexpect front) (\<lambda>f. Ok (trim f)) else Ok prev) (\<lambda>desc.
            Ok (if more = [] then desc else desc @ '' '' @ more, name)))))
      else Panic)"

text \<open>The description, identifier, width and the rest of a row in one line.\<close>

definition whole_row :: "string \<Rightarrow> (string \<times> string \<times> u8 \<times> string) option" where
  "whole_row rest =
     (case rsplitn2 (CHR ''('') rest of
        (_, None) \<Rightarrow> None
      | (r, Some desc) \<Rightarrow>
          (case splitn2 (CHR '')'') r of (name, after) \<Rightarrow>
           if CHR '' '' \<in> set name \<or> CHR ''_'' \<notin> set name then None
           else case after of
             None \<Rightarrow> None
           | Some a \<Rightarrow>
               (case splitn2 (CHR '' '') (trim a) of (w, r') \<Rightarrow>
                case parse_width w of
                  None \<Rightarrow> None
                | Some width \<Rightarrow> (case r' of None \<Rightarrow> None | Some x \<Rightarrow> Some (trim desc, name, width, trim x)))))"

text \<open>The end of a row: access and reset value.\<close>

definition row_end :: "u32 \<Rightarrow> string \<times> string \<times> u8 \<times> string \<Rightarrow> parsed_reg option" where
  "row_end addr = (\<lambda>(desc, name, width, rest).
     case splitn2 (CHR '' '') rest of (acc, r) \<Rightarrow>
     case parse_access acc of
       None \<Rightarrow> None
     | Some access \<Rightarrow>
         (case r of
            None \<Rightarrow> None
          | Some x \<Rightarrow>
              (case parse_reset_value (fst (splitn2 (CHR '' '') (trim x))) of
                 None \<Rightarrow> None
               | Some reset \<Rightarrow> Some \<lparr>abs_addr = addr, description = desc, reg_name = name, reg_width = width,
                   reg_access = access, reset_value = reset\<rparr>)))"

definition parse_line :: "string \<Rightarrow> string option \<Rightarrow> string option \<Rightarrow> ('e, parsed_reg option) outcome" where
  "parse_line line prev next =
     (case splitn2 (CHR '' '') (trim line) of (a, r) \<Rightarrow>
      case parse_abs_addr a of
        None \<Rightarrow> Ok None
      | Some addr \<Rightarrow>
          (case r of
             None \<Rightarrow> Ok None
           | Some r' \<Rightarrow>
               (let rest = trim r' in
                case splitn2 (CHR '' '') rest of (w, after) \<Rightarrow>
                case parse_width w of
                  Some width \<Rightarrow>
                    obind (oexpect prev) (\<lambda>p.
                    obind (oexpect next) (\<lambda>n.
                    obind (split_row (trim p) (trim n)) (\<lambda>(desc, name).
                    Ok (case after of None \<Rightarrow> None | Some x \<Rightarrow> row_end addr (desc, name, width, trim x)))))
                | None \<Rightarrow> Ok (Option.bind (whole_row rest) (row_end addr)))))"

fun register_rows :: "string option \<Rightarrow> string list \<Rightarrow> ('e, parsed_reg list) outcome" where
  "register_rows prev [] = Ok []"
| "register_rows prev (l # ls) =
     obind (parse_line l prev (case ls of [] \<Rightarrow> None | n # _ \<Rightarrow> Some n)) (\<lambda>r.
     obind (register_rows (Some l) ls) (\<lambda>rs.
     Ok (case r of None \<Rightarrow> rs | Some x \<Rightarrow> x # rs)))"

definition register_table :: "string \<Rightarrow> ('e, parsed_reg list) outcome" where
  "register_table txt = register_rows None (txt_lines txt)"

section \<open>Reading a printed table\<close>

lemma splitn2_at: "c \<notin> set a \<Longrightarrow> splitn2 c (a @ c # b) = (a, Some b)"
  by (induction a) (auto simp: splitn2_def)

lemma splitn2_none: "c \<notin> set a \<Longrightarrow> splitn2 c a = (a, None)"
  by (induction a) (auto simp: splitn2_def)

lemma rsplitn2_at: "c \<notin> set b \<Longrightarrow> rsplitn2 c (a @ c # b) = (b, Some a)"
  using splitn2_at [of c "rev b" "rev a"] by (simp add: rsplitn2_def)

lemma trim_pad:
  assumes "s \<noteq> []" "\<not> is_space (hd s)" "\<not> is_space (last s)" "\<forall>c \<in> set a. is_space c" "\<forall>c \<in> set b. is_space c"
  shows "trim (a @ s @ b) = s"
proof -
  have "dropWhile is_space (a @ s @ b) = s @ b"
    using assms by (simp add: dropWhile_append2 dropWhile_eq_self_iff [THEN iffD2])
  moreover have "dropWhile is_space (rev b @ rev s) = dropWhile is_space (rev s)"
    by (rule dropWhile_append2) (use assms(5) in simp)
  moreover have "dropWhile is_space (rev s) = rev s"
    using assms(1,3) by (simp add: dropWhile_eq_self_iff hd_rev)
  ultimately show ?thesis by (simp add: trim_def)
qed

lemma trim_id: "s \<noteq> [] \<Longrightarrow> \<not> is_space (hd s) \<Longrightarrow> \<not> is_space (last s) \<Longrightarrow> trim s = s"
  using trim_pad [of s "[]" "[]"] by simp

definition hex_digit :: "nat \<Rightarrow> char" where
  "hex_digit n = ''0123456789ABCDEF'' ! n"

definition hex4 :: "nat \<Rightarrow> string" where
  "hex4 n = [hex_digit (n div 4096 mod 16), hex_digit (n div 256 mod 16), hex_digit (n div 16 mod 16), hex_digit (n mod 16)]"

lemma less16_cases: "n < 16 \<Longrightarrow> n \<in> {0, 1, 2, 3, 4, 5, 6, 7, 8, 9, 10, 11, 12, 13, 14, 15 :: nat}"
  by (simp, presburger)

lemma hex_digit:
  assumes "n < 16"
  shows "digit_value 16 (hex_digit n) = Some n" "\<not> is_space (hex_digit n)"
    "hex_digit n \<notin> {CHR '' '', CHR ''_'', CHR ''+'', CHR ''('', CHR '')'', CHR ''h'', CHR 0x0A}"
  using less16_cases [OF assms]
  by (auto simp: hex_digit_def digit_value_def is_space_def)

lemma hex4_value: "n < 2 ^ 16 \<Longrightarrow> from_str_radix 16 16 (hex4 n) = Some n"
proof -
  assume "n < 2 ^ 16"
  then have "n div 4096 mod 16 = n div 4096" by simp
  moreover have "n div 256 = n div 16 div 16" "n div 4096 = n div 16 div 16 div 16"
    by (simp_all flip: div_mult2_eq)
  ultimately have "n = 16 * (16 * (16 * (n div 4096 mod 16) + n div 256 mod 16) + n div 16 mod 16) + n mod 16"
    by simp
  then show "from_str_radix 16 16 (hex4 n) = Some n"
    using \<open>n < 2 ^ 16\<close> hex_digit(3) [of "n div 4096 mod 16"]
    by (simp add: from_str_radix_def hex4_def hex_digit(1))
qed

lemma hex4_chars:
  "c \<in> set (hex4 n) \<Longrightarrow> \<not> is_space c \<and> c \<notin> {CHR '' '', CHR ''_'', CHR ''+'', CHR ''('', CHR '')'', CHR ''h'', CHR 0x0A}"
  using hex_digit(2,3) [of "_ mod 16"] by (auto simp: hex4_def)

definition hex_u32 :: "u32 \<Rightarrow> string" where
  "hex_u32 w = hex4 (unat w div 2 ^ 16) @ ''_'' @ hex4 (unat w mod 2 ^ 16)"

lemma u32_halves: "push_bit 16 (of_nat (unat w div 2 ^ 16)) OR of_nat (unat w mod 2 ^ 16) = (w :: u32)"
proof -
  have "of_nat (unat w div 2 ^ 16) = drop_bit 16 w" "of_nat (unat w mod 2 ^ 16) = take_bit 16 w"
    using unat_less_exp [of w]
    by (simp_all add: drop_bit_eq_div take_bit_eq_mod word_unat_eq_iff unat_div unat_mod unat_of_nat_small)
  then show ?thesis
    by (simp only:) (rule bit_word_eqI, auto simp: bit_simps)
qed

lemma halves_small: "unat (w :: u32) div 2 ^ 16 < 2 ^ 16" "unat w mod 2 ^ 16 < 2 ^ 16"
  using unat_less_exp [of w] by (simp_all add: less_mult_imp_div_less)

lemma hex_u32_chars:
  "c \<in> set (hex_u32 w) \<Longrightarrow> \<not> is_space c \<and> c \<notin> {CHR '' '', CHR ''('', CHR '')'', CHR ''h'', CHR 0x0A}"
  using hex4_chars by (fastforce simp: hex_u32_def is_space_def)

lemma hex_u32_split: "splitn2 (CHR ''_'') (hex_u32 w) = (hex4 (unat w div 2 ^ 16), Some (hex4 (unat w mod 2 ^ 16)))"
  unfolding hex_u32_def append_Cons append_Nil by (rule splitn2_at) (use hex4_chars in blast)

lemma parse_hex_u32:
  "parse_abs_addr (hex_u32 w) = Some w" "parse_reset_value (hex_u32 w @ ''h'') = Some w"
  by (simp_all add: parse_abs_addr_def parse_reset_value_def hex_u32_split hex4_value [OF halves_small(1)]
      hex4_value [OF halves_small(2)] u32_halves del: power_numeral)

section \<open>Round trip\<close>

fun access_text :: "access \<Rightarrow> string" where
  "access_text ReadOnly = ''R''"
| "access_text ReadWrite = ''R/W''"
| "access_text WriteOnly = ''W''"
| "access_text WriteOneToClear = ''w1c''"

definition width_text :: "u8 \<Rightarrow> string" where
  "width_text w = (if w = 8 then ''8'' else if w = 16 then ''16'' else ''32'')"

text \<open>A row of the table, in one line.\<close>

definition row_text :: "parsed_reg \<Rightarrow> string" where
  "row_text r = hex_u32 (abs_addr r) @ CHR '' '' # description r @ '' ('' @ reg_name r @ '') '' @
     width_text (reg_width r) @ CHR '' '' # access_text (reg_access r) @ CHR '' '' # hex_u32 (reset_value r) @ ''h''"

text \<open>What a register in the manual satisfies.\<close>

definition table_reg :: "parsed_reg \<Rightarrow> bool" where
  "table_reg r \<longleftrightarrow> reg_width r \<in> {8, 16, 32} \<and>
     description r \<noteq> [] \<and> \<not> is_space (hd (description r)) \<and> \<not> is_space (last (description r)) \<and>
     CHR 0x0A \<notin> set (description r) \<and> parse_width (fst (splitn2 (CHR '' '') (description r))) = None \<and>
     CHR ''_'' \<in> set (reg_name r) \<and> set (reg_name r) \<inter> {CHR '' '', CHR ''('', CHR '')'', CHR 0x0A} = {}"

lemma row_end_text:
  "row_end a (d, n, w, access_text acc @ CHR '' '' # hex_u32 v @ ''h'') =
     Some \<lparr>abs_addr = a, description = d, reg_name = n, reg_width = w, reg_access = acc, reset_value = v\<rparr>"
proof -
  let ?v = "hex_u32 v @ ''h''"
  have acc: "CHR '' '' \<notin> set (access_text acc)" "parse_access (access_text acc) = Some acc"
    by (cases acc; simp add: parse_access_def)+
  have "trim ?v = ?v"
  proof (rule trim_id)
    have "hd ?v \<in> set (hex_u32 v)" by (simp add: hex_u32_def hex4_def)
    then show "\<not> is_space (hd ?v)" using hex_u32_chars by blast
  qed (simp_all add: is_space_def)
  moreover have "splitn2 (CHR '' '') ?v = (?v, None)"
    by (rule splitn2_none) (use hex_u32_chars in fastforce)
  ultimately show ?thesis
    by (simp add: row_end_def splitn2_at acc parse_hex_u32)
qed

lemma splitn2_fst_append: "fst (splitn2 (CHR '' '') (d @ CHR '' '' # x)) = fst (splitn2 (CHR '' '') d)"
  by (induction d) (auto simp: splitn2_def)

lemma parse_row:
  assumes "table_reg r"
  shows "parse_line (row_text r) prev next = Ok (Some r)"
proof -
  let ?e = "access_text (reg_access r) @ CHR '' '' # hex_u32 (reset_value r) @ ''h''"
  let ?w = "width_text (reg_width r) @ CHR '' '' # ?e"
  let ?rest = "(description r @ '' '') @ CHR ''('' # reg_name r @ CHR '')'' # CHR '' '' # ?w"
  let ?row = "hex_u32 (abs_addr r) @ CHR '' '' # ?rest"
  have row: "row_text r = ?row" by (simp add: row_text_def)
  have last: "last ?row = CHR ''h''" "last ?rest = CHR ''h''" by simp_all
  have h: "\<not> is_space (CHR ''h'')" by (simp add: is_space_def)
  have "hd ?row \<in> set (hex_u32 (abs_addr r))" by (simp add: hex_u32_def hex4_def)
  then have t1: "trim ?row = ?row" by (intro trim_id) (use last h hex_u32_chars in auto)
  have "\<not> is_space (hd ?rest)" using assms by (cases "description r") (auto simp: table_reg_def)
  then have t2: "trim ?rest = ?rest" by (intro trim_id) (use last h in auto)
  have s1: "splitn2 (CHR '' '') ?row = (hex_u32 (abs_addr r), Some ?rest)"
    by (rule splitn2_at) (use hex_u32_chars in blast)
  have "parse_width (fst (splitn2 (CHR '' '') ?rest)) = None"
    using assms splitn2_fst_append [of "description r"] by (simp add: table_reg_def)
  then obtain a b where w: "splitn2 (CHR '' '') ?rest = (a, b)" "parse_width a = None" by (metis prod.collapse)
  have no_open: "CHR ''('' \<notin> set (reg_name r @ CHR '')'' # CHR '' '' # ?w)"
    using assms hex_u32_chars [of "CHR ''(''"] by (cases "reg_access r") (auto simp: table_reg_def width_text_def)
  have e: "width_text (reg_width r) \<noteq> []" "\<not> is_space (hd (width_text (reg_width r)))"
      "CHR '' '' \<notin> set (width_text (reg_width r))" "parse_width (width_text (reg_width r)) = Some (reg_width r)"
    using assms by (auto simp: width_text_def is_space_def parse_width_def table_reg_def)
  have "last ?w = CHR ''h''" "\<not> is_space (hd ?w)" "?w \<noteq> []" using e by simp_all
  then have tw: "trim (CHR '' '' # ?w) = ?w"
    using trim_pad [of ?w "'' ''" "[]"] h by (simp add: is_space_def)
  have "last ?e = CHR ''h''" "\<not> is_space (hd ?e)" "?e \<noteq> []"
    by (cases "reg_access r"; simp add: is_space_def)+
  then have te: "trim ?e = ?e" using trim_id h by metis
  have td: "trim (description r @ '' '') = description r"
    using assms trim_pad [of "description r" "[]" "'' ''"] by (simp add: table_reg_def is_space_def)
  have n: "CHR '')'' \<notin> set (reg_name r)" "CHR '' '' \<notin> set (reg_name r)" "CHR ''_'' \<in> set (reg_name r)"
    using assms by (auto simp: table_reg_def)
  have "whole_row ?rest = Some (description r, reg_name r, reg_width r, ?e)"
    unfolding whole_row_def rsplitn2_at [OF no_open] splitn2_at [OF n(1)]
    using n by (simp add: tw splitn2_at e te td)
  note whole = this
  show ?thesis
    unfolding parse_line_def row t1 s1 prod.case parse_hex_u32 option.case Let_def t2 w whole
    by (simp add: row_end_text)
qed

lemma row_no_newline: "table_reg r \<Longrightarrow> CHR 0x0A \<notin> set (row_text r)"
  using hex_u32_chars [of "CHR 0x0A"]
  by (cases "reg_access r") (auto simp: row_text_def table_reg_def width_text_def)

lemma txt_lines_row:
  assumes "table_reg r"
  shows "txt_lines (row_text r @ CHR 0x0A # s) = row_text r # txt_lines s"
proof -
  have "last (row_text r) = CHR ''h''" by (simp add: row_text_def)
  then have "drop_cr (row_text r) = row_text r" by (simp add: drop_cr_def)
  then show ?thesis
    by (subst txt_lines.simps) (simp add: splitn2_at [OF row_no_newline [OF assms]])
qed

definition table_text :: "parsed_reg list \<Rightarrow> string" where
  "table_text rs = concat (map (\<lambda>r. row_text r @ [CHR 0x0A]) rs)"

lemma rows_read: "\<forall>r \<in> set rs. table_reg r \<Longrightarrow> register_rows prev (map row_text rs) = Ok rs"
  by (induction rs arbitrary: prev) (simp_all add: parse_row)

lemma lines_read: "\<forall>r \<in> set rs. table_reg r \<Longrightarrow> txt_lines (table_text rs) = map row_text rs"
  by (induction rs) (simp_all add: table_text_def txt_lines_row)

text \<open>
  C34. A printed register table is read back: for registers whose description has no width as its first
  word and whose identifier has an underscore and neither blanks nor parentheses, the parser gives from
  the lines \<^verbatim>\<open>12AB_56CD Description (PERIPHERAL_REGISTER) 32 R/W 0000_8000h\<close> exactly the registers,
  in order, with all fields.
\<close>

theorem register_table_roundtrip:
  assumes "\<forall>r \<in> set rs. table_reg r"
  shows "register_table (table_text rs) = Ok rs"
  by (simp add: register_table_def lines_read [OF assms] rows_read [OF assms])

theorem register_table_roundtrip_witness:
  "register_table (table_text [\<lparr>abs_addr = 0x02018000, description = ''UART Receiver Register'',
     reg_name = ''UART7_URXD'', reg_width = 32, reg_access = ReadOnly, reset_value = 0x8000\<rparr>]) =
   (Ok [\<lparr>abs_addr = 0x02018000, description = ''UART Receiver Register'',
     reg_name = ''UART7_URXD'', reg_width = 32, reg_access = ReadOnly, reset_value = 0x8000\<rparr>] :: (unit, _) outcome)"
  by (rule register_table_roundtrip) (simp add: table_reg_def splitn2_def parse_width_def is_space_def)

end
