(* ===== verification/Compress.thy ===== *)
theory Compress
  imports RegTable Mmio
begin

text \<open>
  \<^verbatim>\<open>host/txt2rust/src/compress.rs\<close>: registers of one table become peripherals, instances of the same
  peripheral with the same registers being merged. A \<^verbatim>\<open>BTreeMap\<close> is an association list in which a key
  occurs once; the loop over the instances is \<open>aloop\<close>, so that one that never ends is \<open>Hang\<close>.
\<close>

section \<open>Data\<close>

record register =
  offset :: u32
  rdescription :: string
  rname :: string
  rwidth :: u8
  raccess :: access
  rreset :: "u32 option"
  instances :: u16
  unsafe_write :: bool

text \<open>\<^verbatim>\<open>PartialEq for Register\<close>.\<close>

definition register_eq :: "register \<Rightarrow> register \<Rightarrow> bool" where
  "register_eq a b \<longleftrightarrow> offset a = offset b \<and> rname a = rname b \<and> raccess a = raccess b \<and> rreset a = rreset b"

datatype peripheral_instances = Single u32 | Many "(u8 \<times> u32) list"

record peripheral =
  pname :: string
  pinstances :: peripheral_instances
  pregisters :: "register list"

section \<open>Strings\<close>

text \<open>\<^verbatim>\<open>trim_start_matches\<close>: as often as the pattern occurs; an empty pattern removes nothing.\<close>

function trim_start_matches :: "string \<Rightarrow> string \<Rightarrow> string" where
  "trim_start_matches pat s =
     (if pat \<noteq> [] \<and> prefix pat s then trim_start_matches pat (drop (length pat) s) else s)"
  by auto

termination trim_start_matches
  by (relation "measure (\<lambda>(pat, s). length s)") (auto simp: prefix_def)

declare trim_start_matches.simps [simp del]

text \<open>Decimal numbers, as \<^verbatim>\<open>format!\<close> prints and \<^verbatim>\<open>parse\<close> reads them.\<close>

definition show_u8 :: "u8 \<Rightarrow> string" where
  "show_u8 w = (let n = unat w in
     (if n < 100 then [] else [hex_digit (n div 100)]) @
     (if n < 10 then [] else [hex_digit (n div 10 mod 10)]) @ [hex_digit (n mod 10)])"

definition extract_instance :: "string \<Rightarrow> ('e, u8) outcome" where
  "extract_instance s = oexpect (map_option of_nat (from_str_radix 8 10 (fst (splitn2 (CHR ''_'') s))))"

text \<open>The trailing digits of a prefix are cut off.\<close>

definition strip_digits :: "string \<Rightarrow> string \<times> bool" where
  "strip_digits s = (rev (dropWhile is_digit (rev s)), s \<noteq> [] \<and> is_digit (last s))"

function find_prefix :: "string list \<Rightarrow> string \<Rightarrow> ('e, string \<times> bool) outcome" where
  "find_prefix regs s =
     (case snd (rsplitn2 (CHR ''_'') s) of
        None \<Rightarrow> Panic
      | Some maybe \<Rightarrow>
          if length regs \<le> 1 then Panic
          else if prefix maybe (regs ! 1) then
            (case strip_digits maybe of (mp, numbered) \<Rightarrow>
             if list_all (prefix mp) regs then Ok (mp, numbered) else find_prefix regs mp)
          else find_prefix regs maybe)"
  by auto

lemma rsplit_shorter: "snd (rsplitn2 c s) = Some t \<Longrightarrow> length t < length s"
proof -
  assume "snd (rsplitn2 c s) = Some t"
  then have t: "t = rev (tl (dropWhile (\<lambda>x. x \<noteq> c) (rev s)))" "c \<in> set s"
    by (auto simp: rsplitn2_def splitn2_def split: if_splits)
  have "length (dropWhile (\<lambda>x. x \<noteq> c) (rev s)) \<le> length (rev s)" by (rule length_dropWhile_le)
  then show ?thesis using t by (cases s) auto
qed

lemma strip_digits_shorter: "strip_digits s = (t, b) \<Longrightarrow> length t \<le> length s"
  using length_dropWhile_le [of is_digit "rev s"] by (auto simp: strip_digits_def)

termination find_prefix
  by (relation "measure (\<lambda>(regs, s). length s)")
    (auto dest!: rsplit_shorter strip_digits_shorter [OF sym])

declare find_prefix.simps [simp del]

definition find_common_prefix :: "string list \<Rightarrow> ('e, string \<times> bool) outcome" where
  "find_common_prefix regs = (if regs = [] then Panic else find_prefix regs (hd regs))"

section \<open>Compression\<close>

definition to_register :: "profile \<Rightarrow> u32 \<Rightarrow> (string \<Rightarrow> string) \<Rightarrow> parsed_reg \<Rightarrow> ('e, register) outcome" where
  "to_register p base_addr name reg =
     obind (prof_sub p (abs_addr reg) base_addr) (\<lambda>off.
     Ok \<lparr>offset = off, rdescription = description reg, rname = name (reg_name reg), rwidth = reg_width reg,
       raccess = reg_access reg, rreset = Some (reset_value reg), instances = 1, unsafe_write = False\<rparr>)"

fun omap :: "('a \<Rightarrow> ('e, 'b) outcome) \<Rightarrow> 'a list \<Rightarrow> ('e, 'b list) outcome" where
  "omap f [] = Ok []"
| "omap f (x # xs) = obind (f x) (\<lambda>y. obind (omap f xs) (\<lambda>ys. Ok (y # ys)))"

definition map_insert :: "'k \<Rightarrow> 'v \<Rightarrow> ('k \<times> 'v) list \<Rightarrow> ('k \<times> 'v) list" where
  "map_insert k v m = (if k \<in> fst ` set m then map (\<lambda>(k', v'). (k', if k' = k then v else v')) m else m @ [(k, v)])"

text \<open>The registers of an instance join the first peripheral with equal registers, or make a new one.\<close>

fun add_instance :: "string \<Rightarrow> u8 \<Rightarrow> u32 \<Rightarrow> register list \<Rightarrow> peripheral list \<Rightarrow> ('e, peripheral list) outcome" where
  "add_instance name i base_addr regs [] =
     Ok [\<lparr>pname = name, pinstances = Many [(i, base_addr)], pregisters = regs\<rparr>]"
| "add_instance name i base_addr regs (p # ps) =
     (if list_all2 register_eq (pregisters p) regs then
        (case pinstances p of
           Many m \<Rightarrow> Ok (p\<lparr>pinstances := Many (map_insert i base_addr m)\<rparr> # ps)
         | Single _ \<Rightarrow> Panic)
      else obind (add_instance name i base_addr regs ps) (\<lambda>ps'. Ok (p # ps')))"

definition instance_round ::
  "profile \<Rightarrow> string \<Rightarrow> parsed_reg list \<times> peripheral list \<Rightarrow>
   (unit, 'e, parsed_reg list \<times> peripheral list + peripheral list) act" where
  "instance_round p name = (\<lambda>(regs, ps). alift (
     if regs = [] then Ok (Inr ps)
     else
       (let first = hd regs in
        obind (extract_instance (trim_start_matches name (reg_name first))) (\<lambda>i.
        let inst_prefix = name @ show_u8 i @ ''_'';
            same = (\<lambda>r. prefix inst_prefix (reg_name r))
        in
        obind (omap (to_register p (abs_addr first) (trim_start_matches inst_prefix)) (takeWhile same regs)) (\<lambda>registers.
        obind (add_instance name i (abs_addr first) registers ps) (\<lambda>ps'.
        Ok (Inl (dropWhile same regs, ps'))))))))"

definition compress_registers :: "profile \<Rightarrow> parsed_reg list \<Rightarrow> ('e, peripheral list) outcome" where
  "compress_registers p rows =
     (let all_registers = sort_key abs_addr rows in
      obind (find_common_prefix (map reg_name all_registers)) (\<lambda>(name, numbered).
      if numbered then fst (aloop (instance_round p name) (all_registers, []) ())
      else
        (let base_addr = abs_addr (hd all_registers) in
         obind (omap (to_register p base_addr (\<lambda>s. trim_start_matches ''_'' (trim_start_matches name s))) all_registers)
           (\<lambda>registers. Ok [\<lparr>pname = name, pinstances = Single base_addr, pregisters = registers\<rparr>]))))"

section \<open>Nothing is lost, nothing is made up\<close>

fun bases :: "peripheral_instances \<Rightarrow> u32 set" where
  "bases (Single b) = {b}"
| "bases (Many m) = snd ` set m"

fun keys :: "peripheral_instances \<Rightarrow> u8 set" where
  "keys (Single b) = {}"
| "keys (Many m) = fst ` set m"

text \<open>The generated register \<open>g\<close> of an instance at \<open>b\<close> is the row of the table.\<close>

definition generated :: "register \<Rightarrow> u32 \<Rightarrow> parsed_reg \<Rightarrow> bool" where
  "generated g b row \<longleftrightarrow> b + offset g = abs_addr row \<and> raccess g = reg_access row \<and>
     rreset g = Some (reset_value row) \<and> suffix (rname g) (reg_name row)"

definition covers :: "peripheral list \<Rightarrow> parsed_reg list \<Rightarrow> bool" where
  "covers ps rows \<longleftrightarrow>
     (\<forall>P \<in> set ps. \<forall>b \<in> bases (pinstances P). \<forall>g \<in> set (pregisters P). \<exists>row \<in> set rows. generated g b row) \<and>
     (\<forall>row \<in> set rows. \<exists>P \<in> set ps. \<exists>b \<in> bases (pinstances P). \<exists>g \<in> set (pregisters P). generated g b row)"

lemma suffix_trim: "suffix (trim_start_matches pat s) s"
proof (induction pat s rule: trim_start_matches.induct)
  case (1 pat s)
  then show ?case
    by (subst trim_start_matches.simps) (auto intro: suffix_order.trans [OF _ suffix_drop])
qed

lemma omap_Ok: "omap f xs = Ok ys \<longleftrightarrow> list_all2 (\<lambda>x y. f x = Ok y) xs ys"
  by (induction xs arbitrary: ys) (auto simp: obind_Ok_iff list_all2_Cons1)

lemma to_register_generated:
  "to_register p b name row = Ok g \<Longrightarrow> suffix (name (reg_name row)) (reg_name row) \<Longrightarrow> generated g b row"
  by (auto simp: to_register_def obind_Ok_iff generated_def dest!: prof_sub_Ok)

lemma registers_generated:
  assumes "omap (to_register p b name) rows = Ok gs" "\<And>s. suffix (name s) s"
  shows "list_all2 (\<lambda>row g. generated g b row) rows gs"
  using assms(1) unfolding omap_Ok by (rule list_all2_mono) (use to_register_generated assms(2) in blast)

lemma register_eq_generated: "register_eq a g \<Longrightarrow> generated g b row \<longleftrightarrow> generated a b row"
  by (auto simp: register_eq_def generated_def)

lemma list_all2_both:
  "list_all2 R xs ys \<Longrightarrow> (\<forall>x \<in> set xs. \<exists>y \<in> set ys. R x y) \<and> (\<forall>y \<in> set ys. \<exists>x \<in> set xs. R x y)"
  by (induction rule: list_all2_induct) auto

text \<open>One more instance.\<close>

lemma add_instance_covers:
  assumes "add_instance name i b regs ps = (Ok ps' :: ('e, _) outcome)"
    and new: "list_all2 (\<lambda>row g. generated g b row) rows regs" "\<forall>P \<in> set ps. i \<notin> keys (pinstances P)"
  shows "(\<forall>P \<in> set ps'. \<forall>b' \<in> bases (pinstances P). \<forall>g \<in> set (pregisters P).
        (\<exists>row \<in> set rows. generated g b' row) \<or>
        (\<exists>P \<in> set ps. b' \<in> bases (pinstances P) \<and> g \<in> set (pregisters P))) \<and>
    (\<forall>P \<in> set ps. \<exists>P' \<in> set ps'. pregisters P' = pregisters P \<and> bases (pinstances P) \<subseteq> bases (pinstances P')) \<and>
    (\<forall>row \<in> set rows. \<exists>P \<in> set ps'. \<exists>b \<in> bases (pinstances P). \<exists>g \<in> set (pregisters P). generated g b row) \<and>
    (\<forall>P \<in> set ps'. keys (pinstances P) \<subseteq> insert i (\<Union>P \<in> set ps. keys (pinstances P)))"
  using assms(1) new(2)
proof (induction ps arbitrary: ps')
  case Nil
  then show ?case using list_all2_both [OF new(1)] by auto
next
  case (Cons P ps)
  show ?case
  proof (cases "list_all2 register_eq (pregisters P) regs")
    case True
    with Cons.prems obtain m where m: "pinstances P = Many m" "i \<notin> fst ` set m"
        "ps' = P\<lparr>pinstances := Many (m @ [(i, b)])\<rparr> # ps"
      by (auto simp: map_insert_def split: peripheral_instances.splits)
    have 1: "\<exists>row \<in> set rows. generated g b row" if "g \<in> set (pregisters P)" for g
      using list_all2_both [OF True] list_all2_both [OF new(1)] that register_eq_generated by metis
    have 2: "\<exists>g \<in> set (pregisters P). generated g b row" if "row \<in> set rows" for row
      using list_all2_both [OF True] list_all2_both [OF new(1)] that register_eq_generated by metis
    show ?thesis using m 1 2 by auto
  next
    case False
    with Cons.prems obtain qs where q: "add_instance name i b regs ps = (Ok qs :: ('e, _) outcome)" "ps' = P # qs"
      by (auto simp: obind_Ok_iff)
    have "\<forall>P \<in> set ps. i \<notin> keys (pinstances P)" using Cons.prems by simp
    from Cons.IH [OF q(1) this] show ?thesis
      unfolding q(2) by auto
  qed
qed

lemma covers_more:
  assumes "covers ps before"
    and "\<And>P b g. P \<in> set ps' \<Longrightarrow> b \<in> bases (pinstances P) \<Longrightarrow> g \<in> set (pregisters P) \<Longrightarrow>
      (\<exists>row \<in> set rows. generated g b row) \<or> (\<exists>P \<in> set ps. b \<in> bases (pinstances P) \<and> g \<in> set (pregisters P))"
    and "\<And>P. P \<in> set ps \<Longrightarrow> \<exists>P' \<in> set ps'. pregisters P' = pregisters P \<and> bases (pinstances P) \<subseteq> bases (pinstances P')"
    and "\<And>row. row \<in> set rows \<Longrightarrow> \<exists>P \<in> set ps'. \<exists>b \<in> bases (pinstances P). \<exists>g \<in> set (pregisters P). generated g b row"
  shows "covers ps' (before @ rows)"
  unfolding covers_def
proof (intro conjI ballI)
  fix P b g assume *: "P \<in> set ps'" "b \<in> bases (pinstances P)" "g \<in> set (pregisters P)"
  from assms(2) [OF *] show "\<exists>row \<in> set (before @ rows). generated g b row"
    using assms(1) by (fastforce simp: covers_def)
next
  fix row assume "row \<in> set (before @ rows)"
  then consider "row \<in> set before" | "row \<in> set rows" by auto
  then show "\<exists>P \<in> set ps'. \<exists>b \<in> bases (pinstances P). \<exists>g \<in> set (pregisters P). generated g b row"
  proof cases
    case 1
    then obtain P b g where "P \<in> set ps" "b \<in> bases (pinstances P)" "g \<in> set (pregisters P)" "generated g b row"
      using assms(1) by (auto simp: covers_def)
    then show ?thesis using assms(3) [of P] by (metis subsetD)
  qed (use assms(4) in blast)
qed

text \<open>The rows that satisfy \<open>Q\<close> stand next to each other.\<close>

definition grouped :: "('a \<Rightarrow> bool) \<Rightarrow> 'a list \<Rightarrow> bool" where
  "grouped Q xs \<longleftrightarrow> (\<forall>a x b y c z d. xs = a @ x # b @ y # c @ z # d \<longrightarrow> Q x \<longrightarrow> Q z \<longrightarrow> Q y)"

lemma grouped_rest:
  assumes "grouped Q (before @ x # xs)" "Q x" "z \<in> set (dropWhile Q (x # xs))"
  shows "\<not> Q z"
proof
  assume z: "Q z"
  from assms(2,3) obtain y ys where y: "dropWhile Q xs = y # ys" by (cases "dropWhile Q xs") auto
  then have ny: "\<not> Q y" by (metis hd_dropWhile list.discI list.sel(1))
  have "z \<in> set (y # ys)" "z \<noteq> y" using assms(2,3) y z ny by auto
  then obtain c d where "ys = c @ z # d" by (auto simp: in_set_conv_decomp)
  then have "before @ x # xs = before @ x # takeWhile Q xs @ y # c @ z # d"
    using y takeWhile_dropWhile_id [of Q xs] by simp
  then show False using assms(1,2) z ny unfolding grouped_def by blast
qed

definition of_instance :: "string \<Rightarrow> u8 \<Rightarrow> parsed_reg \<Rightarrow> bool" where
  "of_instance name i r \<longleftrightarrow> prefix (name @ show_u8 i @ ''_'') (reg_name r)"

definition loop_inv :: "string \<Rightarrow> parsed_reg list \<Rightarrow> parsed_reg list \<times> peripheral list \<Rightarrow> bool" where
  "loop_inv name rows = (\<lambda>(regs, ps). \<exists>before. rows = before @ regs \<and> covers ps before \<and>
     (\<forall>P \<in> set ps. \<forall>i \<in> keys (pinstances P). \<forall>r \<in> set regs. \<not> of_instance name i r))"

definition loop_stuck :: "string \<Rightarrow> parsed_reg list \<times> peripheral list \<Rightarrow> bool" where
  "loop_stuck name = (\<lambda>(regs, ps). regs \<noteq> [] \<and> (\<forall>i. (extract_instance (trim_start_matches name (reg_name (hd regs))) :: (unit, u8) outcome) = Ok i
     \<longrightarrow> \<not> of_instance name i (hd regs)))"

lemma extract_any: "(extract_instance s :: ('e, u8) outcome) = Ok i \<longleftrightarrow> (extract_instance s :: (unit, u8) outcome) = Ok i"
  by (auto simp: extract_instance_def oexpect_def split: option.splits)

lemma round_Inl:
  assumes "instance_round p name (regs, ps) u = (Ok (Inl (regs', ps')) :: ('e, _) outcome, u')"
  obtains r rs i registers where "regs = r # rs"
    "(extract_instance (trim_start_matches name (reg_name r)) :: (unit, u8) outcome) = Ok i"
    "omap (to_register p (abs_addr r) (trim_start_matches (name @ show_u8 i @ ''_''))) (takeWhile (of_instance name i) regs) =
       (Ok registers :: ('e, _) outcome)"
    "add_instance name i (abs_addr r) registers ps = (Ok ps' :: ('e, _) outcome)"
    "regs' = dropWhile (of_instance name i) regs"
proof -
  have same: "(\<lambda>r. prefix (name @ show_u8 i @ ''_'') (reg_name r)) = of_instance name i" for i
    by (simp add: of_instance_def fun_eq_iff)
  from assms obtain r rs where r: "regs = r # rs" by (cases regs) (auto simp: instance_round_def)
  have "\<exists>i registers. (extract_instance (trim_start_matches name (reg_name r)) :: ('e, u8) outcome) = Ok i \<and>
    omap (to_register p (abs_addr r) (trim_start_matches (name @ show_u8 i @ ''_''))) (takeWhile (of_instance name i) regs) =
       (Ok registers :: ('e, _) outcome) \<and>
    add_instance name i (abs_addr r) registers ps = (Ok ps' :: ('e, _) outcome) \<and>
    regs' = dropWhile (of_instance name i) regs"
    using assms unfolding instance_round_def
    by (simp add: r Let_def same obind_Ok_iff del: takeWhile.simps dropWhile.simps) metis
  then show ?thesis using that [OF r] extract_any by blast
qed

lemma round_keeps:
  assumes "instance_round p name (regs, ps) u = (Ok (Inl (regs', ps')) :: ('e, _) outcome, u')"
    and grp: "\<And>i. grouped (of_instance name i) rows"
    and P: "loop_inv name rows (regs, ps) \<or> loop_stuck name (regs, ps)"
  shows "loop_inv name rows (regs', ps') \<or> loop_stuck name (regs', ps')"
  using assms(1)
proof (rule round_Inl)
  fix r rs i registers assume r: "regs = r # rs"
    and i: "(extract_instance (trim_start_matches name (reg_name r)) :: (unit, u8) outcome) = Ok i"
    and registers: "omap (to_register p (abs_addr r) (trim_start_matches (name @ show_u8 i @ ''_'')))
      (takeWhile (of_instance name i) regs) = (Ok registers :: ('e, _) outcome)"
    and add: "add_instance name i (abs_addr r) registers ps = (Ok ps' :: ('e, _) outcome)"
    and regs': "regs' = dropWhile (of_instance name i) regs"
  show ?thesis
  proof (cases "of_instance name i r")
    case False
    then show ?thesis using i r by (simp add: loop_stuck_def regs')
  next
    case True
    let ?group = "takeWhile (of_instance name i) regs"
    have "\<not> loop_stuck name (regs, ps)" using True i r by (auto simp: loop_stuck_def)
    then obtain before where before: "rows = before @ regs" "covers ps before"
      and old: "\<forall>P \<in> set ps. \<forall>i \<in> keys (pinstances P). \<forall>r \<in> set regs. \<not> of_instance name i r"
      using P by (auto simp: loop_inv_def)
    have "\<forall>P \<in> set ps. i \<notin> keys (pinstances P)" using old True r by auto
    note A = add_instance_covers [OF add registers_generated [OF registers suffix_trim] this]
    have "covers ps' (before @ ?group)"
      by (rule covers_more [OF before(2)]) (use A in blast)+
    moreover have "rows = (before @ ?group) @ regs'" using before(1) by (simp add: regs')
    moreover have "\<not> of_instance name j z" if "Q \<in> set ps'" "j \<in> keys (pinstances Q)" "z \<in> set regs'" for Q j z
    proof (cases "j = i")
      case True
      then show ?thesis
        using grouped_rest [of "of_instance name i" before r rs z] grp [of i] before(1) \<open>of_instance name i r\<close> that(3)
        by (simp add: r regs' del: dropWhile.simps)
    next
      case False
      then have "\<exists>P \<in> set ps. j \<in> keys (pinstances P)" using A that(1,2) by blast
      then show ?thesis using old that(3) set_dropWhileD [of z] by (auto simp: regs')
    qed
    ultimately show ?thesis by (auto simp: loop_inv_def)
  qed
qed

lemma covers_set: "covers ps rows \<Longrightarrow> set rows = set rows' \<Longrightarrow> covers ps rows'"
  by (simp add: covers_def)

lemma numbered_covers:
  assumes "fst (aloop (instance_round p name) (rows, []) ()) = (Ok ps :: ('e, _) outcome)"
    and grp: "\<And>i. grouped (of_instance name i) rows"
  shows "covers ps rows"
proof -
  let ?P = "\<lambda>x (_ :: unit). loop_inv name rows x \<or> loop_stuck name x"
  obtain u where loop: "aloop (instance_round p name) (rows, []) () = (Ok ps :: ('e, _) outcome, u)"
    using assms(1) by (cases "aloop (instance_round p name) (rows, []) () :: ('e, _) outcome \<times> unit") auto
  have nh: "(Ok ps :: ('e, _) outcome) \<noteq> Hang" by simp
  have P0: "?P (rows, []) ()" by (simp add: loop_inv_def covers_def)
  have step: "?P x' u'" if "?P x u" "instance_round p name x u = (Ok (Inl x') :: ('e, _) outcome, u')" for x u x' u'
    by (rule round_keeps [of p name "fst x" "snd x" u "fst x'" "snd x'" u' rows, simplified]) (use that grp in simp_all)
  obtain x u1 and r1 :: "('e, parsed_reg list \<times> peripheral list + peripheral list) outcome"
    where P: "?P x u1" and last: "instance_round p name x u1 = (r1, u)" and r1: "Ok ps = loop_result r1"
    by (rule aloop_last [OF loop nh, where P = ?P]) (rule P0 | erule (1) step | erule (2) that)+
  have "r1 = Ok (Inr ps)" using r1 by (cases r1) (auto simp: loop_result_def split: sum.splits)
  then have "fst x = [] \<and> snd x = ps"
    using last by (cases x) (auto simp: instance_round_def Let_def obind_Ok_iff split: if_splits)
  then show ?thesis using P by (cases x) (auto simp: loop_inv_def loop_stuck_def)
qed

definition instances_grouped :: "parsed_reg list \<Rightarrow> bool" where
  "instances_grouped rows \<longleftrightarrow> (\<forall>name i. grouped (of_instance name i) (sort_key abs_addr rows))"

text \<open>
  Compression neither loses nor invents a register: each generated register of each instance is a row of
  the table (instance base plus offset is the row's address, access and reset value are the row's, the
  name is the end of the row's name), and each row is generated, although instances with equal registers are
  merged into one peripheral. The one condition is that, by address, the rows of an instance stand next to
  each other.
\<close>

lemma compress_covers:
  assumes "compress_registers p rows = (Ok ps :: ('e, _) outcome)" "instances_grouped rows"
  shows "covers ps rows"
proof -
  let ?rows = "sort_key abs_addr rows"
  from assms(1) [unfolded compress_registers_def Let_def] obtain name numbered where f: "find_common_prefix (map reg_name ?rows) = (Ok (name, numbered) :: ('e, _) outcome)"
      and c: "(if numbered then fst (aloop (instance_round p name) (?rows, []) ())
        else obind (omap (to_register p (abs_addr (hd ?rows)) (\<lambda>s. trim_start_matches ''_'' (trim_start_matches name s))) ?rows)
           (\<lambda>registers. Ok [\<lparr>pname = name, pinstances = Single (abs_addr (hd ?rows)), pregisters = registers\<rparr>])) = (Ok ps :: ('e, _) outcome)"
    by (auto simp: obind_Ok_iff)
  have "covers ps ?rows"
  proof (cases numbered)
    case True
    with c have "fst (aloop (instance_round p name) (?rows, []) ()) = (Ok ps :: ('e, _) outcome)" by simp
    then show ?thesis by (rule numbered_covers) (use assms(2) in \<open>simp add: instances_grouped_def\<close>)
  next
    case False
    then obtain gs where gs: "omap (to_register p (abs_addr (hd ?rows)) (\<lambda>s. trim_start_matches ''_'' (trim_start_matches name s))) ?rows = (Ok gs :: ('e, _) outcome)"
        "ps = [\<lparr>pname = name, pinstances = Single (abs_addr (hd ?rows)), pregisters = gs\<rparr>]"
      using c by (auto simp: obind_Ok_iff)
    have "suffix (trim_start_matches ''_'' (trim_start_matches name s)) s" for s
      using suffix_trim suffix_order.trans by blast
    from list_all2_both [OF registers_generated [OF gs(1) this]] show ?thesis
      by (simp add: covers_def gs(2))
  qed
  then show ?thesis by (rule covers_set) simp
qed

definition urxd :: parsed_reg where
  "urxd = \<lparr>abs_addr = 0x02018000, description = ''UART Receiver Register'', reg_name = ''UART7_URXD'', reg_width = 32,
     reg_access = ReadOnly, reset_value = 0\<rparr>"

definition utxd :: parsed_reg where
  "utxd = \<lparr>abs_addr = 0x02018040, description = ''UART Transmitter Register'', reg_name = ''UART7_UTXD'', reg_width = 32,
     reg_access = WriteOnly, reset_value = 0\<rparr>"

lemma example_prefix:
  "find_common_prefix [''UART7_URXD'', ''UART7_UTXD''] = Ok (''UART'', True)"
  by (simp add: find_common_prefix_def find_prefix.simps rsplitn2_def splitn2_def strip_digits_def is_digit_def)

lemma example_round:
  "\<exists>ps. instance_round Dev ''UART'' ([urxd, utxd], []) () = (Ok (Inl ([], ps)) :: (unit, _) outcome, ())"
proof -
  have t: "trim_start_matches ''UART'' ''UART7_URXD'' = ''7_URXD''"
    by (simp add: trim_start_matches.simps)
  have e: "extract_instance ''7_URXD'' = (Ok 7 :: (unit, u8) outcome)"
    by (simp add: extract_instance_def splitn2_def from_str_radix_def digit_value_def Let_def)
  have s: "show_u8 7 = ''7''" by (simp add: show_u8_def hex_digit_def)
  show ?thesis
    by (simp add: instance_round_def t e s urxd_def utxd_def to_register_def prof_sub_def checked_sub_def Let_def)
qed

lemma example_compresses: "\<exists>ps. compress_registers Dev [utxd, urxd] = (Ok ps :: (unit, _) outcome)"
proof -
  have s: "sort_key abs_addr [utxd, urxd] = [urxd, utxd]" by (simp add: urxd_def utxd_def)
  have n: "reg_name urxd = ''UART7_URXD''" "reg_name utxd = ''UART7_UTXD''"
    "\<not> abs_addr utxd \<le> abs_addr urxd" by (simp_all add: urxd_def utxd_def)
  obtain ps where "instance_round Dev ''UART'' ([urxd, utxd], []) () = (Ok (Inl ([], ps)) :: (unit, _) outcome, ())"
    using example_round by blast
  moreover have "aloop (instance_round Dev ''UART'') ([], ps) () = (Ok ps :: (unit, _) outcome, ())"
    by (rule aloop_break) (simp add: instance_round_def)
  ultimately have "aloop (instance_round Dev ''UART'') ([urxd, utxd], []) () = (Ok ps :: (unit, _) outcome, ())"
    by (rule aloop_continue) simp
  then have c: "compress_registers Dev [utxd, urxd] = (Ok ps :: (unit, _) outcome)"
    by (simp add: compress_registers_def s n example_prefix Let_def)
  then show ?thesis by blast
qed

lemma example_grouped: "instances_grouped [utxd, urxd]"
proof -
  have s: "sort_key abs_addr [utxd, urxd] = [urxd, utxd]" by (simp add: urxd_def utxd_def)
  show ?thesis unfolding instances_grouped_def s by (auto simp: grouped_def Cons_eq_append_conv)
qed

text \<open>The equality that decides about merging ignores the width, as well as the description.\<close>

lemma merge_ignores_width: "register_eq (r\<lparr>rwidth := w\<rparr>) (r\<lparr>rwidth := w'\<rparr>)"
  by (simp add: register_eq_def)

end
