(* ===== verification/Codegen.thy ===== *)
theory Codegen
  imports Compress
begin

text \<open>
  \<^verbatim>\<open>host/txt2rust/src/codegen.rs\<close>: the crate that is generated from the peripherals, as data (its modules,
  registers, methods, literals, in the order in which they are emitted), and what the emitted methods do when
  they are called. The tokens and the fixed preamble (\<^verbatim>\<open>common\<close>) are not modelled.
\<close>

section \<open>Text\<close>

definition lower_char :: "char \<Rightarrow> char" where
  "lower_char c = (let n = of_char c :: nat in if 65 \<le> n \<and> n \<le> 90 then char_of (n + 32) else c)"

definition lowercase :: "string \<Rightarrow> string" where
  "lowercase s = map lower_char s"

fun show_dec :: "nat \<Rightarrow> string" where
  "show_dec n = (if n < 10 then [hex_digit n] else show_dec (n div 10) @ [hex_digit (n mod 10)])"

declare show_dec.simps [simp del]

text \<open>\<^verbatim>\<open>unsuffixed_hex\<close>, with the digits of \<^verbatim>\<open>format!\<close>'s lower-case hexadecimal numbers.\<close>

definition lhex_digit :: "nat \<Rightarrow> char" where
  "lhex_digit n = ''0123456789abcdef'' ! n"

definition lhex2 :: "nat \<Rightarrow> string" where
  "lhex2 n = [lhex_digit (n div 16 mod 16), lhex_digit (n mod 16)]"

definition lhex4 :: "nat \<Rightarrow> string" where
  "lhex4 n = lhex2 (n div 256) @ lhex2 n"

definition unsuffixed_hex :: "u32 \<Rightarrow> bool \<Rightarrow> string" where
  "unsuffixed_hex val compact =
     (if compact \<and> val \<le> 0xFF then ''0x'' @ lhex2 (unat val)
      else if compact \<and> val \<le> 0xFFFF then ''0x'' @ lhex4 (unat val)
      else ''0x'' @ lhex4 (unat (drop_bit 16 val)) @ ''_'' @ lhex4 (unat (val AND 0xFFFF)))"

text \<open>What the compiler reads: a hexadecimal literal, in which underscores do not count.\<close>

definition literal_value :: "string \<Rightarrow> nat option" where
  "literal_value s = digits_value 16 0 (filter (\<lambda>c. c \<noteq> CHR ''_'') (drop 2 s))"

section \<open>The generated items\<close>

datatype reg_method = ReadM | WriteM | ClearM | RmwM | ResetM | AddressM

text \<open>
  A register with several instances is accessed with an index: \<open>(bits, max)\<close> is the type of the index
  (\<^verbatim>\<open>u8\<close> or \<^verbatim>\<open>u16\<close>) and the number of instances, of type \<^verbatim>\<open>u16\<close>.
\<close>

record gen_reg =
  gname :: string
  gdoc :: string
  gwidth :: u8
  goffset :: string
  greset :: "string option"
  gindex :: "(nat \<times> u16) option"
  gmethods :: "(reg_method \<times> bool) list"

text \<open>A singleton: the exported type, the marker type of the instance, the base address.\<close>

record gen_singleton =
  sname :: string
  smarker :: "string option"
  sbase :: string

record gen_mod =
  mod_name :: string
  mod_feature :: string
  mod_doc :: string
  mod_regs :: "gen_reg list"
  mod_singletons :: "gen_singleton list"

text \<open>Each method with a flag for \<^verbatim>\<open>unsafe\<close>.\<close>

definition reg_methods :: "register \<Rightarrow> (reg_method \<times> bool) list" where
  "reg_methods r =
     (if raccess r \<noteq> WriteOnly then [(ReadM, False)] else []) @
     (if raccess r \<noteq> ReadOnly then
        [(if raccess r = WriteOneToClear then ClearM else WriteM, unsafe_write r)] @
        (if raccess r = ReadWrite then [(RmwM, unsafe_write r)] else [])
      else []) @
     (if rreset r \<noteq> None \<and> (raccess r = ReadWrite \<or> raccess r = WriteOnly) then [(ResetM, unsafe_write r)] else []) @
     [(AddressM, False)]"

definition reg_index :: "register \<Rightarrow> (nat \<times> u16) option" where
  "reg_index r =
     (if instances r = 1 then None
      else if instances r \<le> push_bit 8 1 then Some (8, instances r) else Some (16, instances r))"

definition reg_doc :: "register \<Rightarrow> string" where
  "reg_doc r =
     (if instances r = 1 then rdescription r
      else rdescription r @ '' ('' @ show_dec (unat (instances r)) @ '' instances)'')"

definition gen_register :: "register \<Rightarrow> gen_reg" where
  "gen_register r =
     \<lparr>gname = rname r, gdoc = reg_doc r, gwidth = rwidth r, goffset = unsuffixed_hex (offset r) True,
       greset = map_option (\<lambda>rv. unsuffixed_hex rv False) (rreset r), gindex = reg_index r, gmethods = reg_methods r\<rparr>"

text \<open>The instances come in the order of the \<^verbatim>\<open>BTreeMap\<close>'s keys.\<close>

definition gen_singletons :: "string \<Rightarrow> peripheral_instances \<Rightarrow> gen_singleton list" where
  "gen_singletons name i =
     (case i of
        Single base_addr \<Rightarrow> [\<lparr>sname = name, smarker = None, sbase = unsuffixed_hex base_addr False\<rparr>]
      | Many ms \<Rightarrow>
          map (\<lambda>(inst, base_addr).
            \<lparr>sname = name @ show_u8 inst, smarker = Some (''_'' @ show_u8 inst),
              sbase = unsuffixed_hex base_addr False\<rparr>) (sort_key fst ms))"

definition gen_peripheral :: "peripheral \<Rightarrow> gen_mod" where
  "gen_peripheral p =
     \<lparr>mod_name = lowercase (pname p), mod_feature = lowercase (pname p), mod_doc = pname p,
       mod_regs = map gen_register (pregisters p), mod_singletons = gen_singletons (pname p) (pinstances p)\<rparr>"

definition krate :: "peripheral list \<Rightarrow> gen_mod list" where
  "krate = map gen_peripheral"

section \<open>What the generated methods do\<close>

text \<open>
  The generated assertion is \<^verbatim>\<open>assert!(idx < max as uN)\<close>: the cast cuts the number of instances down to
  the type of the index. \<^verbatim>\<open>address\<close> has no assertion.
\<close>

definition index_check :: "gen_reg \<Rightarrow> nat \<Rightarrow> ('e, unit) outcome" where
  "index_check g idx =
     (case gindex g of None \<Rightarrow> Ok () | Some (bits, cap) \<Rightarrow> oassert (idx < take_bit bits (unat cap)))"

definition method_address :: "gen_singleton \<Rightarrow> gen_reg \<Rightarrow> nat \<Rightarrow> u32 option" where
  "method_address s g idx =
     (case literal_value (sbase s) of None \<Rightarrow> None
      | Some b \<Rightarrow> (case literal_value (goffset g) of None \<Rightarrow> None
        | Some off \<Rightarrow>
            Some (of_nat b + of_nat off + (if gindex g = None then 0 else of_nat (idx * (unat (gwidth g) div 8))))))"

definition method_access :: "gen_singleton \<Rightarrow> gen_reg \<Rightarrow> nat \<Rightarrow> ('e, u32) outcome" where
  "method_access s g idx = obind (index_check g idx) (\<lambda>_. oexpect (method_address s g idx))"

text \<open>
  \<^verbatim>\<open>take\<close> of a singleton: one atomic exchange of the flag \<^verbatim>\<open>TAKEN\<close>, \<open>True\<close> when it hands out the
  registers.
\<close>

definition take_singleton :: "bool \<Rightarrow> bool \<times> bool" where
  "take_singleton taken = (if taken then (False, True) else (True, True))"

fun takes :: "nat \<Rightarrow> bool \<Rightarrow> bool list" where
  "takes 0 taken = []"
| "takes (Suc n) taken = (let (got, taken') = take_singleton taken in got # takes n taken')"

lemma takes_once: "takes n False = (if n = 0 then [] else True # replicate (n - 1) False)"
proof -
  have "takes n True = replicate n False" for n
    by (induction n) (simp_all add: take_singleton_def)
  then show ?thesis by (cases n) (simp_all add: take_singleton_def)
qed

section \<open>Literals\<close>

lemma lhex_digit_value: "n < 16 \<Longrightarrow> digit_value 16 (lhex_digit n) = Some n \<and> lhex_digit n \<noteq> CHR ''_''"
  by (auto simp: less_Suc_eq numeral_eq_Suc lhex_digit_def digit_value_def)

lemma digits_lhex2:
  "digits_value 16 acc (filter (\<lambda>c. c \<noteq> CHR ''_'') (lhex2 n @ rest)) =
     digits_value 16 (256 * acc + n mod 256) (filter (\<lambda>c. c \<noteq> CHR ''_'') rest)"
proof -
  have "n mod 256 = 16 * (n div 16 mod 16) + n mod 16"
    using mod_mult2_eq [of n 16 16] by simp
  then show ?thesis
    using lhex_digit_value [of "n div 16 mod 16"] lhex_digit_value [of "n mod 16"]
    by (simp add: lhex2_def algebra_simps)
qed

lemma digits_lhex4:
  "digits_value 16 acc (filter (\<lambda>c. c \<noteq> CHR ''_'') (lhex4 n @ rest)) =
     digits_value 16 (65536 * acc + n mod 65536) (filter (\<lambda>c. c \<noteq> CHR ''_'') rest)"
proof -
  have "n mod 65536 = 256 * (n div 256 mod 256) + n mod 256"
    using mod_mult2_eq [of n 256 256] by simp
  then show ?thesis by (simp add: lhex4_def digits_lhex2 algebra_simps del: filter_append)
qed

lemma literal_hex [simp]: "literal_value (unsuffixed_hex v compact) = Some (unat v)"
proof -
  have hi: "unat (drop_bit 16 v) = unat v div 65536"
    by (simp add: drop_bit_eq_div unat_div_distrib)
  have lo: "unat (v AND 0xFFFF) = unat v mod 65536"
    using take_bit_eq_mask [of 16 v] unsigned_take_bit_eq [of 16 v]
    by (simp add: take_bit_eq_mod mask_eq_exp_minus_1)
  have "unat v < 2 ^ 32" using unat_less_exp [of v] by simp
  then have "unat v div 65536 mod 65536 = unat v div 65536" by simp
  then have split: "65536 * (unat v div 65536 mod 65536) + unat v mod 65536 = unat v" by simp
  have "v \<le> 0xFF \<Longrightarrow> unat v mod 256 = unat v" "v \<le> 0xFFFF \<Longrightarrow> unat v mod 65536 = unat v"
    by (simp_all add: word_le_nat_alt)
  then show ?thesis
    using digits_lhex2 [of 0 "unat v" "[]"] digits_lhex4 [of 0 "unat v" "[]"]
      digits_lhex4 [of 0 "unat v div 65536" "''_'' @ lhex4 (unat v mod 65536)"]
      digits_lhex4 [of "unat v div 65536 mod 65536" "unat v mod 65536" "[]"] split
    by (auto simp: unsuffixed_hex_def literal_value_def hi lo)
qed

section \<open>From the table to the generated crate\<close>

text \<open>The compression only makes registers with one instance.\<close>

lemma add_instance_single:
  assumes "add_instance name i b regs ps = (Ok ps' :: ('e, _) outcome)"
    and "\<forall>g \<in> set regs. instances g = 1" "\<forall>P \<in> set ps. \<forall>g \<in> set (pregisters P). instances g = 1"
  shows "\<forall>P \<in> set ps'. \<forall>g \<in> set (pregisters P). instances g = 1"
  using assms
  by (induction name i b regs ps arbitrary: ps' rule: add_instance.induct)
    (auto simp: obind_Ok_iff split: if_splits peripheral_instances.splits)

lemma to_register_single: "omap (to_register p b name) rows = Ok gs \<Longrightarrow> \<forall>g \<in> set gs. instances g = 1"
proof -
  assume "omap (to_register p b name) rows = Ok gs"
  then have "list_all2 (\<lambda>row g. instances g = 1) rows gs"
    unfolding omap_Ok by (rule list_all2_mono) (auto simp: to_register_def obind_Ok_iff)
  then show ?thesis using list_all2_both by blast
qed

lemma loop_single:
  assumes "aloop (instance_round p name) (rows, []) () = (Ok ps :: ('e, _) outcome, u)"
  shows "\<forall>P \<in> set ps. \<forall>g \<in> set (pregisters P). instances g = 1"
proof -
  let ?P = "\<lambda>x (_ :: unit). \<forall>P \<in> set (snd x). \<forall>g \<in> set (pregisters P). instances g = 1"
  have nh: "(Ok ps :: ('e, _) outcome) \<noteq> Hang" by simp
  have P0: "?P (rows, []) ()" by simp
  have step: "?P x' u'" if "?P x u" "instance_round p name x u = (Ok (Inl x') :: ('e, _) outcome, u')" for x u x' u'
  proof -
    have "instance_round p name (fst x, snd x) u = (Ok (Inl (fst x', snd x')) :: ('e, _) outcome, u')"
      using that(2) by simp
    then show ?thesis
      by (rule round_Inl) (rule add_instance_single, assumption, erule to_register_single, rule that(1))
  qed
  obtain x u1 and r1 :: "('e, parsed_reg list \<times> peripheral list + peripheral list) outcome"
    where P: "?P x u1" and last: "instance_round p name x u1 = (r1, u)" and r1: "Ok ps = loop_result r1"
    by (rule aloop_last [OF assms nh, where P = ?P]) (rule P0 | erule (1) step | erule (2) that)+
  have "r1 = Ok (Inr ps)" using r1 by (cases r1) (auto simp: loop_result_def split: sum.splits)
  then have "snd x = ps"
    using last by (cases x) (auto simp: instance_round_def Let_def obind_Ok_iff split: if_splits)
  then show ?thesis using P by simp
qed

lemma compress_single:
  assumes "compress_registers p rows = (Ok ps :: ('e, _) outcome)"
  shows "\<forall>P \<in> set ps. \<forall>g \<in> set (pregisters P). instances g = 1"
proof -
  let ?rows = "sort_key abs_addr rows"
  from assms [unfolded compress_registers_def Let_def] obtain name numbered where
    c: "(if numbered then fst (aloop (instance_round p name) (?rows, []) ())
        else obind (omap (to_register p (abs_addr (hd ?rows)) (\<lambda>s. trim_start_matches ''_'' (trim_start_matches name s))) ?rows)
           (\<lambda>registers. Ok [\<lparr>pname = name, pinstances = Single (abs_addr (hd ?rows)), pregisters = registers\<rparr>])) = (Ok ps :: ('e, _) outcome)"
    by (auto simp: obind_Ok_iff)
  show ?thesis
  proof (cases numbered)
    case True
    then show ?thesis using c loop_single [of p name ?rows ps]
      by (cases "aloop (instance_round p name) (?rows, []) () :: ('e, _) outcome \<times> unit") simp
  next
    case False
    then show ?thesis using c by (auto simp: obind_Ok_iff dest!: to_register_single)
  qed
qed

text \<open>A generated register of a singleton serves a row of the table.\<close>

definition serves :: "gen_singleton \<Rightarrow> gen_reg \<Rightarrow> parsed_reg \<Rightarrow> bool" where
  "serves s g row \<longleftrightarrow>
     (method_access s g 0 :: (unit, u32) outcome) = Ok (abs_addr row) \<and>
     (ReadM \<in> fst ` set (gmethods g) \<longleftrightarrow> reg_access row \<noteq> WriteOnly) \<and>
     (WriteM \<in> fst ` set (gmethods g) \<longleftrightarrow> reg_access row \<in> {ReadWrite, WriteOnly}) \<and>
     (ClearM \<in> fst ` set (gmethods g) \<longleftrightarrow> reg_access row = WriteOneToClear) \<and>
     (\<exists>l. greset g = Some l \<and> literal_value l = Some (unat (reset_value row)))"

lemma methods_of_access:
  "ReadM \<in> fst ` set (reg_methods r) \<longleftrightarrow> raccess r \<noteq> WriteOnly"
  "WriteM \<in> fst ` set (reg_methods r) \<longleftrightarrow> raccess r \<in> {ReadWrite, WriteOnly}"
  "ClearM \<in> fst ` set (reg_methods r) \<longleftrightarrow> raccess r = WriteOneToClear"
  by (cases "raccess r"; auto simp: reg_methods_def)+

lemma generated_serves:
  "generated r b row \<Longrightarrow> instances r = 1 \<Longrightarrow> sbase s = unsuffixed_hex b False \<Longrightarrow> serves s (gen_register r) row"
  by (auto simp: generated_def serves_def gen_register_def method_access_def index_check_def method_address_def
      reg_index_def methods_of_access)

lemma singletons_bases:
  "s \<in> set (gen_singletons n i) \<Longrightarrow> \<exists>b \<in> bases i. sbase s = unsuffixed_hex b False"
  "b \<in> bases i \<Longrightarrow> \<exists>s \<in> set (gen_singletons n i). sbase s = unsuffixed_hex b False"
  by (cases i; force simp: gen_singletons_def)+

text \<open>
  C10. The generated crate is the table: each register of each singleton accesses the address of a row, has the
  methods the row's access allows (\<^verbatim>\<open>read\<close> unless it is write-only, \<^verbatim>\<open>write\<close> if it is writable, \<^verbatim>\<open>clear\<close>
  if it is write-one-to-clear) and its reset value; and each row is served by some register, although the
  registers of instances are merged and addresses pass through the printed literals. The condition is that,
  by address, the rows of an instance stand next to each other.
\<close>

theorem krate_is_the_table:
  assumes "compress_registers p rows = (Ok ps :: ('e, _) outcome)" "instances_grouped rows"
  shows "(\<forall>m \<in> set (krate ps). \<forall>s \<in> set (mod_singletons m). \<forall>g \<in> set (mod_regs m). \<exists>row \<in> set rows. serves s g row) \<and>
    (\<forall>row \<in> set rows. \<exists>m \<in> set (krate ps). \<exists>s \<in> set (mod_singletons m). \<exists>g \<in> set (mod_regs m). serves s g row)"
proof (intro conjI ballI)
  note single = compress_single [OF assms(1)] and covers = compress_covers [OF assms, unfolded covers_def]
  {
    fix m s g assume "m \<in> set (krate ps)" and s: "s \<in> set (mod_singletons m)" and "g \<in> set (mod_regs m)"
    then obtain P r where P: "P \<in> set ps" "m = gen_peripheral P" "r \<in> set (pregisters P)" "g = gen_register r"
      by (auto simp: krate_def gen_peripheral_def)
    with s obtain b where "b \<in> bases (pinstances P)" "sbase s = unsuffixed_hex b False"
      using singletons_bases(1) by (fastforce simp: gen_peripheral_def)
    then show "\<exists>row \<in> set rows. serves s g row"
      using covers P single generated_serves by metis
  next
    fix row assume "row \<in> set rows"
    with covers obtain P b r where P: "P \<in> set ps" "b \<in> bases (pinstances P)" "r \<in> set (pregisters P)" "generated r b row"
      by blast
    from singletons_bases(2) [OF P(2)] obtain s where
      "s \<in> set (gen_singletons (pname P) (pinstances P))" "sbase s = unsuffixed_hex b False" by blast
    moreover have "instances r = 1" using single P by blast
    ultimately show "\<exists>m \<in> set (krate ps). \<exists>s \<in> set (mod_singletons m). \<exists>g \<in> set (mod_regs m). serves s g row"
      using P generated_serves [OF P(4)] by (fastforce simp: krate_def gen_peripheral_def)
  }
qed

theorem krate_is_the_table_witness:
  "\<exists>ps. compress_registers Dev [utxd, urxd] = (Ok ps :: (unit, _) outcome) \<and>
     (\<exists>m \<in> set (krate ps). \<exists>s \<in> set (mod_singletons m). \<exists>g \<in> set (mod_regs m). serves s g utxd)"
proof -
  obtain ps where c: "compress_registers Dev [utxd, urxd] = (Ok ps :: (unit, _) outcome)"
    using example_compresses by blast
  from krate_is_the_table [OF c example_grouped] show ?thesis using c by simp
qed

text \<open>
  C35. Access by index: an index below the number of instances gives the address of that instance, another index
  fails the assertion, for every number of instances but one: for 256 the index is a \<^verbatim>\<open>u8\<close> and the bound
  \<^verbatim>\<open>256u16 as u8\<close> is 0, so that every access panics.
\<close>

theorem indexed_access:
  assumes "instances r \<noteq> 1" "sbase s = unsuffixed_hex b False"
  shows "(method_access s (gen_register r) idx :: ('e, u32) outcome) =
    (if idx < unat (instances r) \<and> instances r \<noteq> 256
     then Ok (b + offset r + of_nat (idx * (unat (rwidth r) div 8))) else Panic)"
proof -
  have wide: "take_bit 16 (unat (instances r)) = unat (instances r)"
    using unat_less_exp [of "instances r"] by (simp add: take_bit_nat_eq_self)
  have "instances r \<le> 256 \<Longrightarrow> instances r \<noteq> 256 \<Longrightarrow> unat (instances r) < 256"
    by (simp add: word_le_nat_alt word_unat_eq_iff)
  then show ?thesis
    using assms wide
    by (auto simp: method_access_def index_check_def method_address_def gen_register_def reg_index_def
        oassert_def take_bit_nat_eq_self dest: order.strict_trans2 [OF _ take_bit_nat_less_eq_self])
qed

definition isenabler_reg :: register where
  "isenabler_reg = \<lparr>offset = 0x100, rdescription = [], rname = ''ISENABLER'', rwidth = 32, raccess = ReadWrite,
     rreset = None, instances = 4, unsafe_write = True\<rparr>"

definition gicd_singleton :: gen_singleton where
  "gicd_singleton = \<lparr>sname = ''GICD'', smarker = None, sbase = unsuffixed_hex 0xA01000 False\<rparr>"

theorem indexed_access_witness:
  "(method_access gicd_singleton (gen_register isenabler_reg) 3 :: (unit, u32) outcome) = Ok 0xA0110C \<and>
   (method_access gicd_singleton (gen_register isenabler_reg) 4 :: (unit, u32) outcome) = Panic"
proof -
  have "instances isenabler_reg \<noteq> 1" "sbase gicd_singleton = unsuffixed_hex 0xA01000 False"
    by (simp_all add: isenabler_reg_def gicd_singleton_def)
  note access = indexed_access [OF this]
  show ?thesis unfolding access by (simp add: isenabler_reg_def)
qed

end
