(* ===== verification/Txt2rust.thy ===== *)
theory Txt2rust
  imports Codegen
begin

text \<open>
  The rest of \<^verbatim>\<open>host/txt2rust\<close>: the fix-ups of \<^verbatim>\<open>main.rs\<close> before compression, and the two peripherals of
  the interrupt controller (\<^verbatim>\<open>gic.rs\<close>).
\<close>

section \<open>main\<close>

text \<open>The SNVS is split in a low-power and a high-power peripheral; identifiers get an underscore.\<close>

definition snvs_rename :: "string \<Rightarrow> parsed_reg \<Rightarrow> parsed_reg" where
  "snvs_rename p r = r\<lparr>reg_name := p @ ''_'' @ drop (length p) (reg_name r)\<rparr>"

fun snvs_split :: "parsed_reg list \<Rightarrow> ('e, parsed_reg list \<times> parsed_reg list) outcome" where
  "snvs_split [] = Ok ([], [])"
| "snvs_split (r # rs) =
     (if prefix ''SNVS_LP'' (reg_name r) then
        obind (snvs_split rs) (\<lambda>(lp, hp). Ok (snvs_rename ''SNVS_LP'' r # lp, hp))
      else if prefix ''SNVS_HP'' (reg_name r) then
        obind (snvs_split rs) (\<lambda>(lp, hp). Ok (lp, snvs_rename ''SNVS_HP'' r # hp))
      else Panic)"

definition IMX28_BASE :: u32 where "IMX28_BASE = 0x80028000"
definition IMX6ULZ_BASE :: u32 where "IMX6ULZ_BASE = 0x02280000"

definition dcp_move :: "profile \<Rightarrow> parsed_reg \<Rightarrow> ('e, parsed_reg) outcome" where
  "dcp_move p r =
     obind (prof_sub p (abs_addr r) IMX28_BASE) (\<lambda>a.
     obind (prof_add p a IMX6ULZ_BASE) (\<lambda>a'.
     Ok (r\<lparr>abs_addr := a'\<rparr>)))"

text \<open>SET and CLR registers are added for \<^verbatim>\<open>HW_DCP_CHANNELCTRL\<close>.\<close>

definition set_clr :: "profile \<Rightarrow> parsed_reg \<Rightarrow> ('e, parsed_reg list) outcome" where
  "set_clr p r =
     (if reg_name r = ''HW_DCP_CHANNELCTRL'' then
        obind (prof_add p (abs_addr r) 4) (\<lambda>s.
        obind (prof_add p (abs_addr r) 8) (\<lambda>c.
        Ok [r\<lparr>abs_addr := s, reg_name := reg_name r @ ''_SET'', reg_access := WriteOnly, reset_value := 0\<rparr>,
            r\<lparr>abs_addr := c, reg_name := reg_name r @ ''_CLR'', reg_access := WriteOnly, reset_value := 0\<rparr>]))
      else Ok [])"

definition dcp_fixup :: "profile \<Rightarrow> parsed_reg list \<Rightarrow> ('e, parsed_reg list) outcome" where
  "dcp_fixup p rs =
     obind (omap (dcp_move p) rs) (\<lambda>rs'.
     obind (omap (set_clr p) rs') (\<lambda>new.
     Ok (rs' @ concat new)))"

text \<open>The peripherals of one file: \<open>None\<close> when it has no register table (an error of \<^verbatim>\<open>main\<close>).\<close>

definition file_peripherals :: "profile \<Rightarrow> string \<Rightarrow> (unit, peripheral list) outcome" where
  "file_peripherals p txt =
     obind (register_table txt) (\<lambda>registers.
     if registers = [] then Err ()
     else if prefix ''SNVS_'' (reg_name (hd registers)) then
       obind (snvs_split registers) (\<lambda>(lp, hp).
       obind (compress_registers p lp) (\<lambda>a.
       obind (compress_registers p hp) (\<lambda>b.
       Ok (a @ b))))
     else
       obind (if prefix ''HW_DCP_'' (reg_name (hd registers)) then dcp_fixup p registers else Ok registers) (\<lambda>rs.
       compress_registers p rs))"

section \<open>The interrupt controller\<close>

definition GIC_BASE :: u32 where "GIC_BASE = 0xA00000"

definition plain_reg :: "u32 \<Rightarrow> string \<Rightarrow> string \<Rightarrow> u32 option \<Rightarrow> access \<Rightarrow> bool \<Rightarrow> register" where
  "plain_reg off desc name reset acc unsafe_w =
     \<lparr>offset = off, rdescription = desc, rname = name, rwidth = 32, raccess = acc, rreset = reset, instances = 1,
       unsafe_write = unsafe_w\<rparr>"

definition gicc :: peripheral where
  "gicc = \<lparr>pname = ''GICC'', pinstances = Single (GIC_BASE + 0x2000), pregisters =
     [plain_reg 0x0 ''CPU Interface Control Register'' ''CTLR'' (Some 0) ReadWrite False,
      plain_reg 0x4 ''Interrupt Priority Mask Register'' ''PMR'' (Some 0) ReadWrite True,
      plain_reg 0xC ''Interrupt Acknowledge Register'' ''IAR'' (Some 0x3FF) ReadOnly False,
      plain_reg 0x10 ''End of Interrupt Register'' ''EOIR'' None WriteOnly False,
      plain_reg 0x14 ''Running Priority Register'' ''RPR'' (Some 0xFF) ReadOnly False]\<rparr>"

definition INTERRUPTS :: u16 where "INTERRUPTS = 128"

definition gicd :: peripheral where
  "gicd = \<lparr>pname = ''GICD'', pinstances = Single (GIC_BASE + 0x1000), pregisters =
     [plain_reg 0x0 ''Distributor Control Register'' ''CTLR'' (Some 0) ReadWrite False,
      (plain_reg 0x100 ''Interrupt Set-Enable Registers'' ''ISENABLER'' None ReadWrite True)
        \<lparr>instances := INTERRUPTS div 32\<rparr>,
      (plain_reg 0x400 ''Interrupt Priority Registers'' ''IPRIORITYR'' None ReadWrite True)
        \<lparr>rwidth := 8, instances := INTERRUPTS\<rparr>,
      plain_reg 0xF00 ''Software Generated Interrupt Register'' ''SGIR'' None WriteOnly False]\<rparr>"

text \<open>The moved registers of the DCP keep their offsets.\<close>

lemma dcp_move_offset:
  assumes "dcp_move p r = Ok r'" "dcp_move p q = Ok q'"
  shows "abs_addr r' - abs_addr q' = abs_addr r - abs_addr q"
  using assms by (auto simp: dcp_move_def obind_Ok_iff dest!: prof_sub_Ok prof_add_Ok)

text \<open>The registers of the distributor do not overlap.\<close>

lemma gicd_disjoint:
  "\<forall>r \<in> set (pregisters gicd). \<forall>q \<in> set (pregisters gicd). offset r < offset q \<longrightarrow>
     unat (offset r) + unat (instances r) * (unat (rwidth r) div 8) \<le> unat (offset q)"
  by (simp add: gicd_def plain_reg_def INTERRUPTS_def)

end
