(* ===== verification/Gic.thy ===== *)
theory Gic
  imports Txt2rust
begin

text \<open>
  Accesses of the firmware to the interrupt controller, through the crate generated for it: a register
  is found by its name, its address is that of the generated method, and an index out of range panics.
\<close>

definition gic_at :: "peripheral \<Rightarrow> string \<Rightarrow> nat \<Rightarrow> ('e, u32) outcome" where
  "gic_at P name idx =
     (case (find (\<lambda>g. gname g = name) (mod_regs (gen_peripheral P)), mod_singletons (gen_peripheral P)) of
        (Some g, s # _) \<Rightarrow> method_access s g idx
      | _ \<Rightarrow> Panic)"

definition gic_write :: "peripheral \<Rightarrow> string \<Rightarrow> nat \<Rightarrow> u32 \<Rightarrow> ('e, unit) io" where
  "gic_write P name idx v = abind (alift (gic_at P name idx)) (\<lambda>a. wr (Reg a) v)"

definition gic_read :: "hw \<Rightarrow> peripheral \<Rightarrow> string \<Rightarrow> nat \<Rightarrow> ('e, u32) io" where
  "gic_read hw P name idx = abind (alift (gic_at P name idx)) (\<lambda>a. rd hw (Reg a))"

text \<open>The registers of the CPU interface.\<close>

lemma gicc_registers:
  "(gic_at gicc ''IAR'' 0 :: ('e, u32) outcome) = Ok 0xA0200C"
  "(gic_at gicc ''EOIR'' 0 :: ('e, u32) outcome) = Ok 0xA02010"
  "(gic_at gicc ''RPR'' 0 :: ('e, u32) outcome) = Ok 0xA02014"
  by (auto simp: gic_at_def gicc_def plain_reg_def gen_peripheral_def gen_register_def gen_singletons_def
      GIC_BASE_def method_access_def index_check_def method_address_def reg_index_def oassert_def)

end
