(* ===== verification/Pac.thy ===== *)
theory Pac
  imports Gic
begin

text \<open>
  \<^verbatim>\<open>firmware/imx6ul-pac/src/lib.rs\<close>, the peripheral access crate that is checked in: the registers that the firmware accesses, as
  the generated code has them (in the terms of theory Codegen), and the two peripherals of the interrupt controller in full.
  The register names of the traces (theory Mmio) stand for these registers.
\<close>

section \<open>Registers\<close>

text \<open>The methods of a register that can be read and written, only read, only written, or cleared by writing ones.\<close>

definition rw_methods :: "(reg_method \<times> bool) list" where
  "rw_methods = [(ReadM, False), (WriteM, False), (RmwM, False), (ResetM, False), (AddressM, False)]"

definition ro_methods :: "(reg_method \<times> bool) list" where
  "ro_methods = [(ReadM, False), (AddressM, False)]"

definition wo_methods :: "(reg_method \<times> bool) list" where
  "wo_methods = [(WriteM, False), (ResetM, False), (AddressM, False)]"

definition w1c_methods :: "(reg_method \<times> bool) list" where
  "w1c_methods = [(ReadM, False), (ClearM, False), (AddressM, False)]"

definition pac_reg :: "string \<Rightarrow> string \<Rightarrow> u8 \<Rightarrow> string \<Rightarrow> string \<Rightarrow> (reg_method \<times> bool) list \<Rightarrow> gen_reg" where
  "pac_reg name doc w off reset methods =
     \<lparr>gname = name, gdoc = doc, gwidth = w, goffset = off, greset = Some reset, gindex = None, gmethods = methods\<rparr>"

text \<open>\<^verbatim>\<open>snvs_hp\<close>\<close>

definition snvs_RTCMR :: gen_reg where
  "snvs_RTCMR = pac_reg ''RTCMR'' ''SNVS_HP Real-Time Counter MSB Register'' 32 ''0x24'' ''0x0000_0000'' rw_methods"

definition snvs_RTCLR :: gen_reg where
  "snvs_RTCLR = pac_reg ''RTCLR'' ''SNVS_HP Real-Time Counter LSB Register'' 32 ''0x28'' ''0x0000_0000'' rw_methods"

definition snvs_CR :: gen_reg where
  "snvs_CR = pac_reg ''CR'' ''SNVS_HP Control register'' 32 ''0x08'' ''0x0000_0000'' rw_methods"

text \<open>\<^verbatim>\<open>usdhc\<close>\<close>

definition usdhc_DS_ADDR :: gen_reg where
  "usdhc_DS_ADDR = pac_reg ''DS_ADDR'' ''DMA System Address'' 32 ''0x00'' ''0x0000_0000'' rw_methods"

definition usdhc_BLK_ATT :: gen_reg where
  "usdhc_BLK_ATT = pac_reg ''BLK_ATT'' ''Block Attributes'' 32 ''0x04'' ''0x0000_0000'' rw_methods"

definition usdhc_CMD_ARG :: gen_reg where
  "usdhc_CMD_ARG = pac_reg ''CMD_ARG'' ''Command Argument'' 32 ''0x08'' ''0x0000_0000'' rw_methods"

definition usdhc_CMD_XFR_TYP :: gen_reg where
  "usdhc_CMD_XFR_TYP = pac_reg ''CMD_XFR_TYP'' ''Command Transfer Type'' 32 ''0x0c'' ''0x0000_0000'' rw_methods"

definition usdhc_CMD_RSP0 :: gen_reg where
  "usdhc_CMD_RSP0 = pac_reg ''CMD_RSP0'' ''Command Response0'' 32 ''0x10'' ''0x0000_0000'' ro_methods"

definition usdhc_CMD_RSP1 :: gen_reg where
  "usdhc_CMD_RSP1 = pac_reg ''CMD_RSP1'' ''Command Response1'' 32 ''0x14'' ''0x0000_0000'' ro_methods"

definition usdhc_CMD_RSP2 :: gen_reg where
  "usdhc_CMD_RSP2 = pac_reg ''CMD_RSP2'' ''Command Response2'' 32 ''0x18'' ''0x0000_0000'' ro_methods"

definition usdhc_CMD_RSP3 :: gen_reg where
  "usdhc_CMD_RSP3 = pac_reg ''CMD_RSP3'' ''Command Response3'' 32 ''0x1c'' ''0x0000_0000'' ro_methods"

definition usdhc_PRES_STATE :: gen_reg where
  "usdhc_PRES_STATE = pac_reg ''PRES_STATE'' ''Present State'' 32 ''0x24'' ''0x0000_8080'' ro_methods"

definition usdhc_PROT_CTRL :: gen_reg where
  "usdhc_PROT_CTRL = pac_reg ''PROT_CTRL'' ''Protocol Control'' 32 ''0x28'' ''0x0880_0020'' rw_methods"

definition usdhc_SYS_CTRL :: gen_reg where
  "usdhc_SYS_CTRL = pac_reg ''SYS_CTRL'' ''System Control'' 32 ''0x2c'' ''0x8080_800f'' rw_methods"

definition usdhc_INT_STATUS :: gen_reg where
  "usdhc_INT_STATUS = pac_reg ''INT_STATUS'' ''Interrupt Status'' 32 ''0x30'' ''0x0000_0000'' w1c_methods"

definition usdhc_WTMK_LVL :: gen_reg where
  "usdhc_WTMK_LVL = pac_reg ''WTMK_LVL'' ''Watermark Level'' 32 ''0x44'' ''0x0810_0810'' rw_methods"

definition usdhc_MIX_CTRL :: gen_reg where
  "usdhc_MIX_CTRL = pac_reg ''MIX_CTRL'' ''Mixer Control'' 32 ''0x48'' ''0x8000_0000'' rw_methods"

definition usdhc_VEND_SPEC :: gen_reg where
  "usdhc_VEND_SPEC = pac_reg ''VEND_SPEC'' ''Vendor Specific Register'' 32 ''0xc0'' ''0x2000_7809'' rw_methods"

text \<open>\<^verbatim>\<open>hw_dcp\<close>\<close>

definition dcp_CONTEXT :: gen_reg where
  "dcp_CONTEXT = pac_reg ''CONTEXT'' ''DCP Context Buffer Pointer'' 32 ''0x50'' ''0x0000_0000'' rw_methods"

definition dcp_VERSION :: gen_reg where
  "dcp_VERSION = pac_reg ''VERSION'' ''DCP Version Register'' 32 ''0x0430'' ''0x0201_0000'' rw_methods"

definition dcp_CAPABILITY1 :: gen_reg where
  "dcp_CAPABILITY1 = pac_reg ''CAPABILITY1'' ''DCP Capability 1 Register'' 32 ''0x40'' ''0x0007_0001'' rw_methods"

definition dcp_STAT :: gen_reg where
  "dcp_STAT = pac_reg ''STAT'' ''DCP Status Register'' 32 ''0x10'' ''0x1000_0000'' rw_methods"

definition dcp_CHANNELCTRL_SET :: gen_reg where
  "dcp_CHANNELCTRL_SET = pac_reg ''CHANNELCTRL_SET'' ''DCP Channel Control Register'' 32 ''0x24'' ''0x0000_0000'' wo_methods"

definition dcp_CHANNELCTRL_CLR :: gen_reg where
  "dcp_CHANNELCTRL_CLR = pac_reg ''CHANNELCTRL_CLR'' ''DCP Channel Control Register'' 32 ''0x28'' ''0x0000_0000'' wo_methods"

definition dcp_KEY :: gen_reg where
  "dcp_KEY = pac_reg ''KEY'' ''DCP Key Index'' 32 ''0x60'' ''0x0000_0000'' rw_methods"

definition dcp_KEYDATA :: gen_reg where
  "dcp_KEYDATA = pac_reg ''KEYDATA'' ''DCP Key Data'' 32 ''0x70'' ''0x0000_0000'' rw_methods"

definition dcp_CH2CMDPTR :: gen_reg where
  "dcp_CH2CMDPTR = pac_reg ''CH2CMDPTR'' ''DCP Channel 2 Command Pointer Address Register'' 32 ''0x0180'' ''0x0000_0000'' rw_methods"

definition dcp_CH2SEMA :: gen_reg where
  "dcp_CH2SEMA = pac_reg ''CH2SEMA'' ''DCP Channel 2 Semaphore Register'' 32 ''0x0190'' ''0x0000_0000'' rw_methods"

definition dcp_CH2STAT :: gen_reg where
  "dcp_CH2STAT = pac_reg ''CH2STAT'' ''DCP Channel 2 Status Register'' 32 ''0x01a0'' ''0x0000_0000'' rw_methods"

definition dcp_CH3CMDPTR :: gen_reg where
  "dcp_CH3CMDPTR = pac_reg ''CH3CMDPTR'' ''DCP Channel 3 Command Pointer Address Register'' 32 ''0x01c0'' ''0x0000_0000'' rw_methods"

definition dcp_CH3SEMA :: gen_reg where
  "dcp_CH3SEMA = pac_reg ''CH3SEMA'' ''DCP Channel 3 Semaphore Register'' 32 ''0x01d0'' ''0x0000_0000'' rw_methods"

definition dcp_CH3STAT :: gen_reg where
  "dcp_CH3STAT = pac_reg ''CH3STAT'' ''DCP Channel 3 Status Register'' 32 ''0x01e0'' ''0x0000_0000'' rw_methods"

text \<open>\<^verbatim>\<open>rng\<close>\<close>

definition rng_VER :: gen_reg where
  "rng_VER = pac_reg ''VER'' ''RNGB version ID register'' 32 ''0x00'' ''0x1000_0280'' ro_methods"

definition rng_CMD :: gen_reg where
  "rng_CMD = pac_reg ''CMD'' ''RNGB command register'' 32 ''0x04'' ''0x0000_0000'' rw_methods"

definition rng_CR :: gen_reg where
  "rng_CR = pac_reg ''CR'' ''RNGB control register'' 32 ''0x08'' ''0x0000_0000'' rw_methods"

definition rng_SR :: gen_reg where
  "rng_SR = pac_reg ''SR'' ''RNGB status register'' 32 ''0x0c'' ''0x0000_500d'' ro_methods"

definition rng_ESR :: gen_reg where
  "rng_ESR = pac_reg ''ESR'' ''RNGB error status register'' 32 ''0x10'' ''0x0000_0000'' ro_methods"

definition rng_OUT :: gen_reg where
  "rng_OUT = pac_reg ''OUT'' ''RNGB Output FIFO'' 32 ''0x14'' ''0x0000_0000'' ro_methods"

text \<open>\<^verbatim>\<open>usb_uog\<close>\<close>

definition usb_USBCMD :: gen_reg where
  "usb_USBCMD = pac_reg ''USBCMD'' ''USB Command Register'' 32 ''0x0140'' ''0x0008_0000'' rw_methods"

definition usb_USBSTS :: gen_reg where
  "usb_USBSTS = pac_reg ''USBSTS'' ''USB Status Register'' 32 ''0x0144'' ''0x0000_0000'' rw_methods"

definition usb_USBINTR :: gen_reg where
  "usb_USBINTR = pac_reg ''USBINTR'' ''Interrupt Enable Register'' 32 ''0x0148'' ''0x0000_0000'' rw_methods"

definition usb_USBMODE :: gen_reg where
  "usb_USBMODE = pac_reg ''USBMODE'' ''USB Device Mode'' 32 ''0x01a8'' ''0x0000_5000'' rw_methods"

definition usb_DEVICEADDR :: gen_reg where
  "usb_DEVICEADDR = pac_reg ''DEVICEADDR'' ''Device Address'' 32 ''0x0154'' ''0x0000_0000'' rw_methods"

definition usb_ENDPTLISTADDR :: gen_reg where
  "usb_ENDPTLISTADDR = pac_reg ''ENDPTLISTADDR'' ''Endpoint List Address'' 32 ''0x0158'' ''0x0000_0000'' rw_methods"

definition usb_ENDPTSETUPSTAT :: gen_reg where
  "usb_ENDPTSETUPSTAT = pac_reg ''ENDPTSETUPSTAT'' ''Endpoint Setup Status'' 32 ''0x01ac'' ''0x0000_0000'' rw_methods"

definition usb_ENDPTPRIME :: gen_reg where
  "usb_ENDPTPRIME = pac_reg ''ENDPTPRIME'' ''Endpoint Prime'' 32 ''0x01b0'' ''0x0000_0000'' rw_methods"

definition usb_ENDPTFLUSH :: gen_reg where
  "usb_ENDPTFLUSH = pac_reg ''ENDPTFLUSH'' ''Endpoint Flush'' 32 ''0x01b4'' ''0x0000_0000'' rw_methods"

definition usb_ENDPTCOMPLETE :: gen_reg where
  "usb_ENDPTCOMPLETE = pac_reg ''ENDPTCOMPLETE'' ''Endpoint Complete'' 32 ''0x01bc'' ''0x0000_0000'' rw_methods"

definition usb_ENDPTCTRL1 :: gen_reg where
  "usb_ENDPTCTRL1 = pac_reg ''ENDPTCTRL1'' ''Endpoint Control 1'' 32 ''0x01c4'' ''0x0000_0000'' rw_methods"

definition usb_PORTSC1 :: gen_reg where
  "usb_PORTSC1 = pac_reg ''PORTSC1'' ''Port Status & Control'' 32 ''0x0184'' ''0x1000_0000'' rw_methods"

definition usb_OTGSC :: gen_reg where
  "usb_OTGSC = pac_reg ''OTGSC'' ''On-The-Go Status & control'' 32 ''0x01a4'' ''0x0000_1120'' rw_methods"

text \<open>\<^verbatim>\<open>ccm_analog\<close>\<close>

definition ccm_analog_PLL_USB1 :: gen_reg where
  "ccm_analog_PLL_USB1 = pac_reg ''PLL_USB1'' ''Analog USB1 480MHz PLL Control Register'' 32 ''0x10'' ''0x0001_2000'' rw_methods"

definition ccm_analog_PLL_USB1_SET :: gen_reg where
  "ccm_analog_PLL_USB1_SET = pac_reg ''PLL_USB1_SET'' ''Analog USB1 480MHz PLL Control Register'' 32 ''0x14'' ''0x0001_2000'' rw_methods"

definition ccm_analog_PLL_USB1_CLR :: gen_reg where
  "ccm_analog_PLL_USB1_CLR = pac_reg ''PLL_USB1_CLR'' ''Analog USB1 480MHz PLL Control Register'' 32 ''0x18'' ''0x0001_2000'' rw_methods"

text \<open>\<^verbatim>\<open>usbphy\<close>\<close>

definition usbphy_CTRL_SET :: gen_reg where
  "usbphy_CTRL_SET = pac_reg ''CTRL_SET'' ''USB PHY General Control Register'' 32 ''0x34'' ''0xc020_0000'' rw_methods"

definition usbphy_CTRL_CLR :: gen_reg where
  "usbphy_CTRL_CLR = pac_reg ''CTRL_CLR'' ''USB PHY General Control Register'' 32 ''0x38'' ''0xc020_0000'' rw_methods"

definition usbphy_PWD_CLR :: gen_reg where
  "usbphy_PWD_CLR = pac_reg ''PWD_CLR'' ''USB PHY Power-Down Register'' 32 ''0x08'' ''0x001e_1c00'' rw_methods"

text \<open>\<^verbatim>\<open>usb_analog\<close>\<close>

definition usb_analog_USB1_CHRG_DETECT_SET :: gen_reg where
  "usb_analog_USB1_CHRG_DETECT_SET = pac_reg ''USB1_CHRG_DETECT_SET'' ''USB Charger Detect Register'' 32 ''0x14'' ''0x0000_0000'' rw_methods"

text \<open>\<^verbatim>\<open>uart\<close>\<close>

definition uart_URXD :: gen_reg where
  "uart_URXD = pac_reg ''URXD'' ''UART Receiver Register'' 32 ''0x00'' ''0x0000_0000'' ro_methods"

definition uart_UTXD :: gen_reg where
  "uart_UTXD = pac_reg ''UTXD'' ''UART Transmitter Register'' 32 ''0x40'' ''0x0000_0000'' wo_methods"

definition uart_UCR1 :: gen_reg where
  "uart_UCR1 = pac_reg ''UCR1'' ''UART Control Register 1'' 32 ''0x80'' ''0x0000_0000'' rw_methods"

definition uart_UCR2 :: gen_reg where
  "uart_UCR2 = pac_reg ''UCR2'' ''UART Control Register 2'' 32 ''0x84'' ''0x0000_0001'' rw_methods"

definition uart_UCR3 :: gen_reg where
  "uart_UCR3 = pac_reg ''UCR3'' ''UART Control Register 3'' 32 ''0x88'' ''0x0000_0700'' rw_methods"

definition uart_UCR4 :: gen_reg where
  "uart_UCR4 = pac_reg ''UCR4'' ''UART Control Register 4'' 32 ''0x8c'' ''0x0000_8000'' rw_methods"

definition uart_UFCR :: gen_reg where
  "uart_UFCR = pac_reg ''UFCR'' ''UART FIFO Control Register'' 32 ''0x90'' ''0x0000_0801'' rw_methods"

definition uart_USR1 :: gen_reg where
  "uart_USR1 = pac_reg ''USR1'' ''UART Status Register 1'' 32 ''0x94'' ''0x0000_2040'' rw_methods"

definition uart_USR2 :: gen_reg where
  "uart_USR2 = pac_reg ''USR2'' ''UART Status Register 2'' 32 ''0x98'' ''0x0000_4028'' rw_methods"

definition uart_UBIR :: gen_reg where
  "uart_UBIR = pac_reg ''UBIR'' ''UART BRM Incremental Register'' 32 ''0xa4'' ''0x0000_0000'' rw_methods"

definition uart_UBMR :: gen_reg where
  "uart_UBMR = pac_reg ''UBMR'' ''UART BRM Modulator Register'' 32 ''0xa8'' ''0x0000_0000'' rw_methods"

definition uart_UTS :: gen_reg where
  "uart_UTS = pac_reg ''UTS'' ''UART Test Register'' 32 ''0xb4'' ''0x0000_0060'' rw_methods"

definition uart_UMCR :: gen_reg where
  "uart_UMCR = pac_reg ''UMCR'' ''UART RS-485 Mode Control Register'' 32 ''0xb8'' ''0x0000_0000'' rw_methods"

text \<open>\<^verbatim>\<open>i2c\<close>\<close>

definition i2c_IFDR :: gen_reg where
  "i2c_IFDR = pac_reg ''IFDR'' ''I2C Frequency Divider Register'' 16 ''0x04'' ''0x0000_0000'' rw_methods"

definition i2c_I2CR :: gen_reg where
  "i2c_I2CR = pac_reg ''I2CR'' ''I2C Control Register'' 16 ''0x08'' ''0x0000_0000'' rw_methods"

definition i2c_I2SR :: gen_reg where
  "i2c_I2SR = pac_reg ''I2SR'' ''I2C Status Register'' 16 ''0x0c'' ''0x0000_0081'' rw_methods"

definition i2c_I2DR :: gen_reg where
  "i2c_I2DR = pac_reg ''I2DR'' ''I2C Data I/O Register'' 16 ''0x10'' ''0x0000_0000'' rw_methods"

text \<open>\<^verbatim>\<open>gpio\<close>\<close>

definition gpio_GDIR :: gen_reg where
  "gpio_GDIR = pac_reg ''GDIR'' ''GPIO direction register'' 32 ''0x04'' ''0x0000_0000'' rw_methods"

definition gpio_DR :: gen_reg where
  "gpio_DR = pac_reg ''DR'' ''GPIO data register'' 32 ''0x00'' ''0x0000_0000'' rw_methods"

text \<open>\<^verbatim>\<open>ccm\<close>\<close>

definition ccm_CCGR0 :: gen_reg where
  "ccm_CCGR0 = pac_reg ''CCGR0'' ''CCM Clock Gating Register 0'' 32 ''0x68'' ''0xffff_ffff'' rw_methods"

definition ccm_CCGR2 :: gen_reg where
  "ccm_CCGR2 = pac_reg ''CCGR2'' ''CCM Clock Gating Register 2'' 32 ''0x70'' ''0xfc3f_ffff'' rw_methods"

text \<open>\<^verbatim>\<open>iomuxc\<close>\<close>

definition iomuxc_I2C1_SCL_SELECT_INPUT :: gen_reg where
  "iomuxc_I2C1_SCL_SELECT_INPUT = pac_reg ''I2C1_SCL_SELECT_INPUT'' ''I2C1_SCL_SELECT_INPUT DAISY Register'' 32 ''0x0590'' ''0x0000_0000'' rw_methods"

definition iomuxc_I2C1_SDA_SELECT_INPUT :: gen_reg where
  "iomuxc_I2C1_SDA_SELECT_INPUT = pac_reg ''I2C1_SDA_SELECT_INPUT'' ''I2C1_SDA_SELECT_INPUT DAISY Register'' 32 ''0x0594'' ''0x0000_0000'' rw_methods"

text \<open>\<^verbatim>\<open>wdog\<close>\<close>

definition wdog_WCR :: gen_reg where
  "wdog_WCR = pac_reg ''WCR'' ''Watchdog Control Register'' 16 ''0x00'' ''0x0000_0030'' rw_methods"

section \<open>Singletons\<close>

definition the_SNVS_HP :: gen_singleton where
  "the_SNVS_HP = \<lparr>sname = ''SNVS_HP'', smarker = None, sbase = ''0x020c_c000''\<rparr>"

definition the_uSDHC2 :: gen_singleton where
  "the_uSDHC2 = \<lparr>sname = ''uSDHC2'', smarker = Some ''_2'', sbase = ''0x0219_4000''\<rparr>"

definition the_HW_DCP :: gen_singleton where
  "the_HW_DCP = \<lparr>sname = ''HW_DCP'', smarker = None, sbase = ''0x0228_0000''\<rparr>"

definition the_RNG :: gen_singleton where
  "the_RNG = \<lparr>sname = ''RNG'', smarker = None, sbase = ''0x0228_4000''\<rparr>"

definition the_USB_UOG1 :: gen_singleton where
  "the_USB_UOG1 = \<lparr>sname = ''USB_UOG1'', smarker = Some ''_1'', sbase = ''0x0218_4000''\<rparr>"

definition the_CCM_ANALOG :: gen_singleton where
  "the_CCM_ANALOG = \<lparr>sname = ''CCM_ANALOG'', smarker = None, sbase = ''0x020c_8000''\<rparr>"

definition the_USBPHY1 :: gen_singleton where
  "the_USBPHY1 = \<lparr>sname = ''USBPHY1'', smarker = Some ''_1'', sbase = ''0x020c_9000''\<rparr>"

definition the_USB_ANALOG :: gen_singleton where
  "the_USB_ANALOG = \<lparr>sname = ''USB_ANALOG'', smarker = None, sbase = ''0x020c_81a0''\<rparr>"

definition the_UART2 :: gen_singleton where
  "the_UART2 = \<lparr>sname = ''UART2'', smarker = Some ''_2'', sbase = ''0x021e_8000''\<rparr>"

definition the_I2C1 :: gen_singleton where
  "the_I2C1 = \<lparr>sname = ''I2C1'', smarker = Some ''_1'', sbase = ''0x021a_0000''\<rparr>"

definition the_GPIO4 :: gen_singleton where
  "the_GPIO4 = \<lparr>sname = ''GPIO4'', smarker = Some ''_4'', sbase = ''0x020a_8000''\<rparr>"

definition the_CCM :: gen_singleton where
  "the_CCM = \<lparr>sname = ''CCM'', smarker = None, sbase = ''0x020c_4000''\<rparr>"

definition the_IOMUXC :: gen_singleton where
  "the_IOMUXC = \<lparr>sname = ''IOMUXC'', smarker = None, sbase = ''0x020e_0014''\<rparr>"

definition the_WDOG1 :: gen_singleton where
  "the_WDOG1 = \<lparr>sname = ''WDOG1'', smarker = Some ''_1'', sbase = ''0x020b_c000''\<rparr>"

section \<open>The interrupt controller\<close>

definition gicc_CTLR :: gen_reg where
  "gicc_CTLR = \<lparr>gname = ''CTLR'', gdoc = ''CPU Interface Control Register'', gwidth = 32, goffset = ''0x00'', greset = Some ''0x0000_0000'', gindex = None,
     gmethods = [(ReadM, False), (WriteM, False), (RmwM, False), (ResetM, False), (AddressM, False)]\<rparr>"

definition gicc_PMR :: gen_reg where
  "gicc_PMR = \<lparr>gname = ''PMR'', gdoc = ''Interrupt Priority Mask Register'', gwidth = 32, goffset = ''0x04'', greset = Some ''0x0000_0000'', gindex = None,
     gmethods = [(ReadM, False), (WriteM, True), (RmwM, True), (ResetM, True), (AddressM, False)]\<rparr>"

definition gicc_IAR :: gen_reg where
  "gicc_IAR = \<lparr>gname = ''IAR'', gdoc = ''Interrupt Acknowledge Register'', gwidth = 32, goffset = ''0x0c'', greset = Some ''0x0000_03ff'', gindex = None,
     gmethods = [(ReadM, False), (AddressM, False)]\<rparr>"

definition gicc_EOIR :: gen_reg where
  "gicc_EOIR = \<lparr>gname = ''EOIR'', gdoc = ''End of Interrupt Register'', gwidth = 32, goffset = ''0x10'', greset = None, gindex = None,
     gmethods = [(WriteM, False), (AddressM, False)]\<rparr>"

definition gicc_RPR :: gen_reg where
  "gicc_RPR = \<lparr>gname = ''RPR'', gdoc = ''Running Priority Register'', gwidth = 32, goffset = ''0x14'', greset = Some ''0x0000_00ff'', gindex = None,
     gmethods = [(ReadM, False), (AddressM, False)]\<rparr>"

definition pac_gicc :: gen_mod where
  "pac_gicc =
     \<lparr>mod_name = ''gicc'', mod_feature = ''gicc'', mod_doc = ''GICC'', mod_regs = [gicc_CTLR, gicc_PMR, gicc_IAR, gicc_EOIR, gicc_RPR],
      mod_singletons = [\<lparr>sname = ''GICC'', smarker = None, sbase = ''0x00a0_2000''\<rparr>]\<rparr>"

definition gicd_CTLR :: gen_reg where
  "gicd_CTLR = \<lparr>gname = ''CTLR'', gdoc = ''Distributor Control Register'', gwidth = 32, goffset = ''0x00'', greset = Some ''0x0000_0000'', gindex = None,
     gmethods = [(ReadM, False), (WriteM, False), (RmwM, False), (ResetM, False), (AddressM, False)]\<rparr>"

definition gicd_ISENABLER :: gen_reg where
  "gicd_ISENABLER = \<lparr>gname = ''ISENABLER'', gdoc = ''Interrupt Set-Enable Registers (4 instances)'', gwidth = 32, goffset = ''0x0100'', greset = None, gindex = Some (8, 4),
     gmethods = [(ReadM, False), (WriteM, True), (RmwM, True), (AddressM, False)]\<rparr>"

definition gicd_IPRIORITYR :: gen_reg where
  "gicd_IPRIORITYR = \<lparr>gname = ''IPRIORITYR'', gdoc = ''Interrupt Priority Registers (128 instances)'', gwidth = 8, goffset = ''0x0400'', greset = None, gindex = Some (8, 128),
     gmethods = [(ReadM, False), (WriteM, True), (RmwM, True), (AddressM, False)]\<rparr>"

definition gicd_SGIR :: gen_reg where
  "gicd_SGIR = \<lparr>gname = ''SGIR'', gdoc = ''Software Generated Interrupt Register'', gwidth = 32, goffset = ''0x0f00'', greset = None, gindex = None,
     gmethods = [(WriteM, False), (AddressM, False)]\<rparr>"

definition pac_gicd :: gen_mod where
  "pac_gicd =
     \<lparr>mod_name = ''gicd'', mod_feature = ''gicd'', mod_doc = ''GICD'', mod_regs = [gicd_CTLR, gicd_ISENABLER, gicd_IPRIORITYR, gicd_SGIR],
      mod_singletons = [\<lparr>sname = ''GICD'', smarker = None, sbase = ''0x00a0_1000''\<rparr>]\<rparr>"

section \<open>The registers of the traces\<close>

fun snvs_item :: "snvs_reg \<Rightarrow> gen_singleton \<times> gen_reg" where
  "snvs_item RTCMR = (the_SNVS_HP, snvs_RTCMR)"
| "snvs_item RTCLR = (the_SNVS_HP, snvs_RTCLR)"
| "snvs_item HPCR = (the_SNVS_HP, snvs_CR)"

fun usdhc_item :: "usdhc_reg \<Rightarrow> gen_singleton \<times> gen_reg" where
  "usdhc_item DS_ADDR = (the_uSDHC2, usdhc_DS_ADDR)"
| "usdhc_item BLK_ATT = (the_uSDHC2, usdhc_BLK_ATT)"
| "usdhc_item CMD_ARG = (the_uSDHC2, usdhc_CMD_ARG)"
| "usdhc_item CMD_XFR_TYP = (the_uSDHC2, usdhc_CMD_XFR_TYP)"
| "usdhc_item CMD_RSP0 = (the_uSDHC2, usdhc_CMD_RSP0)"
| "usdhc_item CMD_RSP1 = (the_uSDHC2, usdhc_CMD_RSP1)"
| "usdhc_item CMD_RSP2 = (the_uSDHC2, usdhc_CMD_RSP2)"
| "usdhc_item CMD_RSP3 = (the_uSDHC2, usdhc_CMD_RSP3)"
| "usdhc_item PRES_STATE = (the_uSDHC2, usdhc_PRES_STATE)"
| "usdhc_item PROT_CTRL = (the_uSDHC2, usdhc_PROT_CTRL)"
| "usdhc_item SYS_CTRL = (the_uSDHC2, usdhc_SYS_CTRL)"
| "usdhc_item INT_STATUS = (the_uSDHC2, usdhc_INT_STATUS)"
| "usdhc_item WTMK_LVL = (the_uSDHC2, usdhc_WTMK_LVL)"
| "usdhc_item MIX_CTRL = (the_uSDHC2, usdhc_MIX_CTRL)"
| "usdhc_item VEND_SPEC = (the_uSDHC2, usdhc_VEND_SPEC)"

text \<open>The driver uses the channels 2 and 3.\<close>

fun dcp_item :: "dcp_reg \<Rightarrow> (gen_singleton \<times> gen_reg) option" where
  "dcp_item CONTEXT = Some (the_HW_DCP, dcp_CONTEXT)"
| "dcp_item VERSION = Some (the_HW_DCP, dcp_VERSION)"
| "dcp_item CAPABILITY1 = Some (the_HW_DCP, dcp_CAPABILITY1)"
| "dcp_item STAT = Some (the_HW_DCP, dcp_STAT)"
| "dcp_item CHANNELCTRL_SET = Some (the_HW_DCP, dcp_CHANNELCTRL_SET)"
| "dcp_item CHANNELCTRL_CLR = Some (the_HW_DCP, dcp_CHANNELCTRL_CLR)"
| "dcp_item KEY = Some (the_HW_DCP, dcp_KEY)"
| "dcp_item KEYDATA = Some (the_HW_DCP, dcp_KEYDATA)"
| "dcp_item (CHCMDPTR n) = (if n = 2 then Some (the_HW_DCP, dcp_CH2CMDPTR) else if n = 3 then Some (the_HW_DCP, dcp_CH3CMDPTR) else None)"
| "dcp_item (CHSEMA n) = (if n = 2 then Some (the_HW_DCP, dcp_CH2SEMA) else if n = 3 then Some (the_HW_DCP, dcp_CH3SEMA) else None)"
| "dcp_item (CHSTAT n) = (if n = 2 then Some (the_HW_DCP, dcp_CH2STAT) else if n = 3 then Some (the_HW_DCP, dcp_CH3STAT) else None)"

fun rng_item :: "rng_reg \<Rightarrow> gen_singleton \<times> gen_reg" where
  "rng_item RNG_VER = (the_RNG, rng_VER)"
| "rng_item RNG_CMD = (the_RNG, rng_CMD)"
| "rng_item RNG_CR = (the_RNG, rng_CR)"
| "rng_item RNG_SR = (the_RNG, rng_SR)"
| "rng_item RNG_ESR = (the_RNG, rng_ESR)"
| "rng_item RNG_OUT = (the_RNG, rng_OUT)"

fun usb_item :: "usb_reg \<Rightarrow> gen_singleton \<times> gen_reg" where
  "usb_item USBCMD = (the_USB_UOG1, usb_USBCMD)"
| "usb_item USBSTS = (the_USB_UOG1, usb_USBSTS)"
| "usb_item USBINTR = (the_USB_UOG1, usb_USBINTR)"
| "usb_item USBMODE = (the_USB_UOG1, usb_USBMODE)"
| "usb_item DEVICEADDR = (the_USB_UOG1, usb_DEVICEADDR)"
| "usb_item ENDPTLISTADDR = (the_USB_UOG1, usb_ENDPTLISTADDR)"
| "usb_item ENDPTSETUPSTAT = (the_USB_UOG1, usb_ENDPTSETUPSTAT)"
| "usb_item ENDPTPRIME = (the_USB_UOG1, usb_ENDPTPRIME)"
| "usb_item ENDPTFLUSH = (the_USB_UOG1, usb_ENDPTFLUSH)"
| "usb_item ENDPTCOMPLETE = (the_USB_UOG1, usb_ENDPTCOMPLETE)"
| "usb_item ENDPTCTRL1 = (the_USB_UOG1, usb_ENDPTCTRL1)"
| "usb_item PORTSC1 = (the_USB_UOG1, usb_PORTSC1)"
| "usb_item OTGSC = (the_USB_UOG1, usb_OTGSC)"
| "usb_item PLL_USB1 = (the_CCM_ANALOG, ccm_analog_PLL_USB1)"
| "usb_item PLL_USB1_SET = (the_CCM_ANALOG, ccm_analog_PLL_USB1_SET)"
| "usb_item PLL_USB1_CLR = (the_CCM_ANALOG, ccm_analog_PLL_USB1_CLR)"
| "usb_item PHY_CTRL_SET = (the_USBPHY1, usbphy_CTRL_SET)"
| "usb_item PHY_CTRL_CLR = (the_USBPHY1, usbphy_CTRL_CLR)"
| "usb_item PHY_PWD_CLR = (the_USBPHY1, usbphy_PWD_CLR)"
| "usb_item USB1_CHRG_DETECT_SET = (the_USB_ANALOG, usb_analog_USB1_CHRG_DETECT_SET)"

fun uart_item :: "uart_reg \<Rightarrow> gen_singleton \<times> gen_reg" where
  "uart_item URXD = (the_UART2, uart_URXD)"
| "uart_item UTXD = (the_UART2, uart_UTXD)"
| "uart_item UCR1 = (the_UART2, uart_UCR1)"
| "uart_item UCR2 = (the_UART2, uart_UCR2)"
| "uart_item UCR3 = (the_UART2, uart_UCR3)"
| "uart_item UCR4 = (the_UART2, uart_UCR4)"
| "uart_item UFCR = (the_UART2, uart_UFCR)"
| "uart_item USR1 = (the_UART2, uart_USR1)"
| "uart_item USR2 = (the_UART2, uart_USR2)"
| "uart_item UBIR = (the_UART2, uart_UBIR)"
| "uart_item UBMR = (the_UART2, uart_UBMR)"
| "uart_item UTS = (the_UART2, uart_UTS)"
| "uart_item UMCR = (the_UART2, uart_UMCR)"

fun i2c_item :: "i2c_reg \<Rightarrow> gen_singleton \<times> gen_reg" where
  "i2c_item IFDR = (the_I2C1, i2c_IFDR)"
| "i2c_item I2CR = (the_I2C1, i2c_I2CR)"
| "i2c_item I2SR = (the_I2C1, i2c_I2SR)"
| "i2c_item I2DR = (the_I2C1, i2c_I2DR)"

fun gpio_item :: "gpio_reg \<Rightarrow> gen_singleton \<times> gen_reg" where
  "gpio_item GDIR = (the_GPIO4, gpio_GDIR)"
| "gpio_item GPIO_DR = (the_GPIO4, gpio_DR)"

fun soc_item :: "soc_reg \<Rightarrow> gen_singleton \<times> gen_reg" where
  "soc_item CCGR0 = (the_CCM, ccm_CCGR0)"
| "soc_item CCGR2 = (the_CCM, ccm_CCGR2)"
| "soc_item I2C1_SCL_SELECT_INPUT = (the_IOMUXC, iomuxc_I2C1_SCL_SELECT_INPUT)"
| "soc_item I2C1_SDA_SELECT_INPUT = (the_IOMUXC, iomuxc_I2C1_SDA_SELECT_INPUT)"
| "soc_item WCR = (the_WDOG1, wdog_WCR)"

fun reg_item :: "reg \<Rightarrow> (gen_singleton \<times> gen_reg) option" where
  "reg_item (Snvs r) = Some (snvs_item r)"
| "reg_item (Usdhc r) = Some (usdhc_item r)"
| "reg_item (Dcp r) = dcp_item r"
| "reg_item (Rng r) = Some (rng_item r)"
| "reg_item (Usb r) = Some (usb_item r)"
| "reg_item (Uart r) = Some (uart_item r)"
| "reg_item (I2c r) = Some (i2c_item r)"
| "reg_item (Gpio r) = Some (gpio_item r)"
| "reg_item (Soc r) = Some (soc_item r)"
| "reg_item (Reg a) = None"

text \<open>Where a register is: its address and its size in bytes.\<close>

definition reg_extent :: "reg \<Rightarrow> (nat \<times> nat) option" where
  "reg_extent r =
     (case reg_item r of None \<Rightarrow> None
      | Some (s, g) \<Rightarrow> map_option (\<lambda>a. (unat a, unat (gwidth g) div 8)) (method_address s g 0))"

text \<open>All of them, in the order of their addresses.\<close>

definition reg_table :: "(reg \<times> nat \<times> nat) list" where
  "reg_table =
     [(Gpio GPIO_DR, 0x20A8000, 4),
      (Gpio GDIR, 0x20A8004, 4),
      (Soc WCR, 0x20BC000, 2),
      (Soc CCGR0, 0x20C4068, 4),
      (Soc CCGR2, 0x20C4070, 4),
      (Usb PLL_USB1, 0x20C8010, 4),
      (Usb PLL_USB1_SET, 0x20C8014, 4),
      (Usb PLL_USB1_CLR, 0x20C8018, 4),
      (Usb USB1_CHRG_DETECT_SET, 0x20C81B4, 4),
      (Usb PHY_PWD_CLR, 0x20C9008, 4),
      (Usb PHY_CTRL_SET, 0x20C9034, 4),
      (Usb PHY_CTRL_CLR, 0x20C9038, 4),
      (Snvs HPCR, 0x20CC008, 4),
      (Snvs RTCMR, 0x20CC024, 4),
      (Snvs RTCLR, 0x20CC028, 4),
      (Soc I2C1_SCL_SELECT_INPUT, 0x20E05A4, 4),
      (Soc I2C1_SDA_SELECT_INPUT, 0x20E05A8, 4),
      (Usb USBCMD, 0x2184140, 4),
      (Usb USBSTS, 0x2184144, 4),
      (Usb USBINTR, 0x2184148, 4),
      (Usb DEVICEADDR, 0x2184154, 4),
      (Usb ENDPTLISTADDR, 0x2184158, 4),
      (Usb PORTSC1, 0x2184184, 4),
      (Usb OTGSC, 0x21841A4, 4),
      (Usb USBMODE, 0x21841A8, 4),
      (Usb ENDPTSETUPSTAT, 0x21841AC, 4),
      (Usb ENDPTPRIME, 0x21841B0, 4),
      (Usb ENDPTFLUSH, 0x21841B4, 4),
      (Usb ENDPTCOMPLETE, 0x21841BC, 4),
      (Usb ENDPTCTRL1, 0x21841C4, 4),
      (Usdhc DS_ADDR, 0x2194000, 4),
      (Usdhc BLK_ATT, 0x2194004, 4),
      (Usdhc CMD_ARG, 0x2194008, 4),
      (Usdhc CMD_XFR_TYP, 0x219400C, 4),
      (Usdhc CMD_RSP0, 0x2194010, 4),
      (Usdhc CMD_RSP1, 0x2194014, 4),
      (Usdhc CMD_RSP2, 0x2194018, 4),
      (Usdhc CMD_RSP3, 0x219401C, 4),
      (Usdhc PRES_STATE, 0x2194024, 4),
      (Usdhc PROT_CTRL, 0x2194028, 4),
      (Usdhc SYS_CTRL, 0x219402C, 4),
      (Usdhc INT_STATUS, 0x2194030, 4),
      (Usdhc WTMK_LVL, 0x2194044, 4),
      (Usdhc MIX_CTRL, 0x2194048, 4),
      (Usdhc VEND_SPEC, 0x21940C0, 4),
      (I2c IFDR, 0x21A0004, 2),
      (I2c I2CR, 0x21A0008, 2),
      (I2c I2SR, 0x21A000C, 2),
      (I2c I2DR, 0x21A0010, 2),
      (Uart URXD, 0x21E8000, 4),
      (Uart UTXD, 0x21E8040, 4),
      (Uart UCR1, 0x21E8080, 4),
      (Uart UCR2, 0x21E8084, 4),
      (Uart UCR3, 0x21E8088, 4),
      (Uart UCR4, 0x21E808C, 4),
      (Uart UFCR, 0x21E8090, 4),
      (Uart USR1, 0x21E8094, 4),
      (Uart USR2, 0x21E8098, 4),
      (Uart UBIR, 0x21E80A4, 4),
      (Uart UBMR, 0x21E80A8, 4),
      (Uart UTS, 0x21E80B4, 4),
      (Uart UMCR, 0x21E80B8, 4),
      (Dcp STAT, 0x2280010, 4),
      (Dcp CHANNELCTRL_SET, 0x2280024, 4),
      (Dcp CHANNELCTRL_CLR, 0x2280028, 4),
      (Dcp CAPABILITY1, 0x2280040, 4),
      (Dcp CONTEXT, 0x2280050, 4),
      (Dcp KEY, 0x2280060, 4),
      (Dcp KEYDATA, 0x2280070, 4),
      (Dcp (CHCMDPTR 2), 0x2280180, 4),
      (Dcp (CHSEMA 2), 0x2280190, 4),
      (Dcp (CHSTAT 2), 0x22801A0, 4),
      (Dcp (CHCMDPTR 3), 0x22801C0, 4),
      (Dcp (CHSEMA 3), 0x22801D0, 4),
      (Dcp (CHSTAT 3), 0x22801E0, 4),
      (Dcp VERSION, 0x2280430, 4),
      (Rng RNG_VER, 0x2284000, 4),
      (Rng RNG_CMD, 0x2284004, 4),
      (Rng RNG_CR, 0x2284008, 4),
      (Rng RNG_SR, 0x228400C, 4),
      (Rng RNG_ESR, 0x2284010, 4),
      (Rng RNG_OUT, 0x2284014, 4)]"

lemmas pac_reg_defs =
  snvs_RTCMR_def snvs_RTCLR_def snvs_CR_def usdhc_DS_ADDR_def usdhc_BLK_ATT_def
  usdhc_CMD_ARG_def usdhc_CMD_XFR_TYP_def usdhc_CMD_RSP0_def usdhc_CMD_RSP1_def usdhc_CMD_RSP2_def
  usdhc_CMD_RSP3_def usdhc_PRES_STATE_def usdhc_PROT_CTRL_def usdhc_SYS_CTRL_def usdhc_INT_STATUS_def
  usdhc_WTMK_LVL_def usdhc_MIX_CTRL_def usdhc_VEND_SPEC_def dcp_CONTEXT_def dcp_VERSION_def
  dcp_CAPABILITY1_def dcp_STAT_def dcp_CHANNELCTRL_SET_def dcp_CHANNELCTRL_CLR_def dcp_KEY_def
  dcp_KEYDATA_def dcp_CH2CMDPTR_def dcp_CH2SEMA_def dcp_CH2STAT_def dcp_CH3CMDPTR_def
  dcp_CH3SEMA_def dcp_CH3STAT_def rng_VER_def rng_CMD_def rng_CR_def
  rng_SR_def rng_ESR_def rng_OUT_def usb_USBCMD_def usb_USBSTS_def
  usb_USBINTR_def usb_USBMODE_def usb_DEVICEADDR_def usb_ENDPTLISTADDR_def usb_ENDPTSETUPSTAT_def
  usb_ENDPTPRIME_def usb_ENDPTFLUSH_def usb_ENDPTCOMPLETE_def usb_ENDPTCTRL1_def usb_PORTSC1_def
  usb_OTGSC_def ccm_analog_PLL_USB1_def ccm_analog_PLL_USB1_SET_def ccm_analog_PLL_USB1_CLR_def usbphy_CTRL_SET_def
  usbphy_CTRL_CLR_def usbphy_PWD_CLR_def usb_analog_USB1_CHRG_DETECT_SET_def uart_URXD_def uart_UTXD_def
  uart_UCR1_def uart_UCR2_def uart_UCR3_def uart_UCR4_def uart_UFCR_def
  uart_USR1_def uart_USR2_def uart_UBIR_def uart_UBMR_def uart_UTS_def
  uart_UMCR_def i2c_IFDR_def i2c_I2CR_def i2c_I2SR_def i2c_I2DR_def
  gpio_GDIR_def gpio_DR_def ccm_CCGR0_def ccm_CCGR2_def iomuxc_I2C1_SCL_SELECT_INPUT_def
  iomuxc_I2C1_SDA_SELECT_INPUT_def wdog_WCR_def

lemmas pac_singleton_defs =
  the_SNVS_HP_def the_uSDHC2_def the_HW_DCP_def the_RNG_def the_USB_UOG1_def the_CCM_ANALOG_def the_USBPHY1_def the_USB_ANALOG_def the_UART2_def the_I2C1_def the_GPIO4_def the_CCM_def the_IOMUXC_def the_WDOG1_def

definition pac_registers :: "gen_reg list" where
  "pac_registers =
     [snvs_RTCMR, snvs_RTCLR, snvs_CR, usdhc_DS_ADDR, usdhc_BLK_ATT, usdhc_CMD_ARG,
      usdhc_CMD_XFR_TYP, usdhc_CMD_RSP0, usdhc_CMD_RSP1, usdhc_CMD_RSP2, usdhc_CMD_RSP3, usdhc_PRES_STATE,
      usdhc_PROT_CTRL, usdhc_SYS_CTRL, usdhc_INT_STATUS, usdhc_WTMK_LVL, usdhc_MIX_CTRL, usdhc_VEND_SPEC,
      dcp_CONTEXT, dcp_VERSION, dcp_CAPABILITY1, dcp_STAT, dcp_CHANNELCTRL_SET, dcp_CHANNELCTRL_CLR,
      dcp_KEY, dcp_KEYDATA, dcp_CH2CMDPTR, dcp_CH2SEMA, dcp_CH2STAT, dcp_CH3CMDPTR,
      dcp_CH3SEMA, dcp_CH3STAT, rng_VER, rng_CMD, rng_CR, rng_SR,
      rng_ESR, rng_OUT, usb_USBCMD, usb_USBSTS, usb_USBINTR, usb_USBMODE,
      usb_DEVICEADDR, usb_ENDPTLISTADDR, usb_ENDPTSETUPSTAT, usb_ENDPTPRIME, usb_ENDPTFLUSH, usb_ENDPTCOMPLETE,
      usb_ENDPTCTRL1, usb_PORTSC1, usb_OTGSC, ccm_analog_PLL_USB1, ccm_analog_PLL_USB1_SET, ccm_analog_PLL_USB1_CLR,
      usbphy_CTRL_SET, usbphy_CTRL_CLR, usbphy_PWD_CLR, usb_analog_USB1_CHRG_DETECT_SET, uart_URXD, uart_UTXD,
      uart_UCR1, uart_UCR2, uart_UCR3, uart_UCR4, uart_UFCR, uart_USR1,
      uart_USR2, uart_UBIR, uart_UBMR, uart_UTS, uart_UMCR, i2c_IFDR,
      i2c_I2CR, i2c_I2SR, i2c_I2DR, gpio_GDIR, gpio_DR, ccm_CCGR0,
      ccm_CCGR2, iomuxc_I2C1_SCL_SELECT_INPUT, iomuxc_I2C1_SDA_SELECT_INPUT, wdog_WCR]"

lemma hex_digits:
  "digit_value 16 CHR ''0'' = Some 0" "digit_value 16 CHR ''1'' = Some 1" "digit_value 16 CHR ''2'' = Some 2"
  "digit_value 16 CHR ''3'' = Some 3" "digit_value 16 CHR ''4'' = Some 4" "digit_value 16 CHR ''5'' = Some 5"
  "digit_value 16 CHR ''6'' = Some 6" "digit_value 16 CHR ''7'' = Some 7" "digit_value 16 CHR ''8'' = Some 8"
  "digit_value 16 CHR ''9'' = Some 9" "digit_value 16 CHR ''a'' = Some 10" "digit_value 16 CHR ''b'' = Some 11"
  "digit_value 16 CHR ''c'' = Some 12" "digit_value 16 CHR ''d'' = Some 13" "digit_value 16 CHR ''e'' = Some 14"
  "digit_value 16 CHR ''f'' = Some 15"
  by (simp_all add: digit_value_def)

lemmas pac_eval = reg_extent_def method_address_def pac_reg_def pac_reg_defs pac_singleton_defs literal_value_def hex_digits

lemma table_extents: "list_all (\<lambda>(r, a, n). reg_extent r = Some (a, n)) reg_table"
  by (simp add: reg_table_def pac_eval)

lemma table_complete: "reg_item r \<noteq> None \<Longrightarrow> r \<in> fst ` set reg_table"
proof -
  assume i: "reg_item r \<noteq> None"
  show ?thesis
  proof (cases r)
    case (Snvs x) then show ?thesis by (cases x) (simp_all add: reg_table_def)
  next
    case (Usdhc x) then show ?thesis by (cases x) (simp_all add: reg_table_def)
  next
    case (Dcp x) then show ?thesis using i by (cases x) (auto simp: reg_table_def split: if_splits)
  next
    case (Rng x) then show ?thesis by (cases x) (simp_all add: reg_table_def)
  next
    case (Usb x) then show ?thesis by (cases x) (simp_all add: reg_table_def)
  next
    case (Uart x) then show ?thesis by (cases x) (simp_all add: reg_table_def)
  next
    case (I2c x) then show ?thesis by (cases x) (simp_all add: reg_table_def)
  next
    case (Gpio x) then show ?thesis by (cases x) (simp_all add: reg_table_def)
  next
    case (Soc x) then show ?thesis by (cases x) (simp_all add: reg_table_def)
  next
    case (Reg a) then show ?thesis using i by simp
  qed
qed

text \<open>Neighbours in the table do not overlap, so no two entries do.\<close>

definition before :: "reg \<times> nat \<times> nat \<Rightarrow> reg \<times> nat \<times> nat \<Rightarrow> bool" where
  "before x y \<longleftrightarrow> fst (snd x) + snd (snd x) \<le> fst (snd y)"

lemma table_sorted: "sorted_wrt before reg_table"
proof -
  have "transp before" by (rule transpI) (auto simp: before_def)
  moreover have "successively before reg_table" by (simp add: reg_table_def before_def)
  ultimately show ?thesis by (simp add: successively_conv_sorted_wrt)
qed

lemma sorted_wrt_apart:
  "sorted_wrt P xs \<Longrightarrow> x \<in> set xs \<Longrightarrow> y \<in> set xs \<Longrightarrow> x = y \<or> P x y \<or> P y x"
  by (induction xs) auto

lemmas literal_eval = unsuffixed_hex_def lhex4_def lhex2_def lhex_digit_def show_dec.simps hex_digit_def

lemma lowercase_gic: "lowercase ''GICC'' = ''gicc''" "lowercase ''GICD'' = ''gicd''"
  by code_simp+

lemmas generate_eval = gen_register_def reg_doc_def reg_index_def reg_methods_def literal_eval

lemma gicc_generated: "gen_peripheral gicc = pac_gicc"
  by (simp add: gicc_def pac_gicc_def gen_peripheral_def gicc_CTLR_def gicc_PMR_def gicc_IAR_def gicc_EOIR_def
      gicc_RPR_def plain_reg_def gen_singletons_def GIC_BASE_def lowercase_gic generate_eval)

lemma gicd_generated: "gen_peripheral gicd = pac_gicd"
  by (simp add: gicd_def pac_gicd_def gen_peripheral_def gicd_CTLR_def gicd_ISENABLER_def gicd_IPRIORITYR_def gicd_SGIR_def
      plain_reg_def gen_singletons_def GIC_BASE_def INTERRUPTS_def lowercase_gic generate_eval)

text \<open>The row that a register with one instance was generated from.\<close>

definition literal_word :: "string \<Rightarrow> u32" where
  "literal_word s = (case literal_value s of None \<Rightarrow> 0 | Some n \<Rightarrow> of_nat n)"

definition row_of :: "gen_reg \<Rightarrow> register" where
  "row_of g =
     \<lparr>offset = literal_word (goffset g), rdescription = gdoc g, rname = gname g, rwidth = gwidth g,
      raccess = (if gmethods g = rw_methods then ReadWrite else if gmethods g = ro_methods then ReadOnly
        else if gmethods g = wo_methods then WriteOnly else WriteOneToClear),
      rreset = map_option literal_word (greset g), instances = 1, unsafe_write = False\<rparr>"

lemmas row_eval = pac_reg_def row_of_def literal_word_def literal_value_def hex_digits generate_eval
  rw_methods_def ro_methods_def wo_methods_def w1c_methods_def

lemma rows_snvs_hp:
  "gen_register (row_of snvs_RTCMR) = snvs_RTCMR"
  "gen_register (row_of snvs_RTCLR) = snvs_RTCLR"
  "gen_register (row_of snvs_CR) = snvs_CR"
  by (simp_all add: snvs_RTCMR_def snvs_RTCLR_def snvs_CR_def row_eval)

lemma rows_usdhc_1:
  "gen_register (row_of usdhc_DS_ADDR) = usdhc_DS_ADDR"
  "gen_register (row_of usdhc_BLK_ATT) = usdhc_BLK_ATT"
  "gen_register (row_of usdhc_CMD_ARG) = usdhc_CMD_ARG"
  "gen_register (row_of usdhc_CMD_XFR_TYP) = usdhc_CMD_XFR_TYP"
  "gen_register (row_of usdhc_CMD_RSP0) = usdhc_CMD_RSP0"
  "gen_register (row_of usdhc_CMD_RSP1) = usdhc_CMD_RSP1"
  "gen_register (row_of usdhc_CMD_RSP2) = usdhc_CMD_RSP2"
  "gen_register (row_of usdhc_CMD_RSP3) = usdhc_CMD_RSP3"
  by (simp_all add: usdhc_DS_ADDR_def usdhc_BLK_ATT_def usdhc_CMD_ARG_def usdhc_CMD_XFR_TYP_def usdhc_CMD_RSP0_def usdhc_CMD_RSP1_def usdhc_CMD_RSP2_def usdhc_CMD_RSP3_def row_eval)

lemma rows_usdhc_2:
  "gen_register (row_of usdhc_PRES_STATE) = usdhc_PRES_STATE"
  "gen_register (row_of usdhc_PROT_CTRL) = usdhc_PROT_CTRL"
  "gen_register (row_of usdhc_SYS_CTRL) = usdhc_SYS_CTRL"
  "gen_register (row_of usdhc_INT_STATUS) = usdhc_INT_STATUS"
  "gen_register (row_of usdhc_WTMK_LVL) = usdhc_WTMK_LVL"
  "gen_register (row_of usdhc_MIX_CTRL) = usdhc_MIX_CTRL"
  "gen_register (row_of usdhc_VEND_SPEC) = usdhc_VEND_SPEC"
  by (simp_all add: usdhc_PRES_STATE_def usdhc_PROT_CTRL_def usdhc_SYS_CTRL_def usdhc_INT_STATUS_def usdhc_WTMK_LVL_def usdhc_MIX_CTRL_def usdhc_VEND_SPEC_def row_eval)

lemma rows_hw_dcp_1:
  "gen_register (row_of dcp_CONTEXT) = dcp_CONTEXT"
  "gen_register (row_of dcp_VERSION) = dcp_VERSION"
  "gen_register (row_of dcp_CAPABILITY1) = dcp_CAPABILITY1"
  "gen_register (row_of dcp_STAT) = dcp_STAT"
  "gen_register (row_of dcp_CHANNELCTRL_SET) = dcp_CHANNELCTRL_SET"
  "gen_register (row_of dcp_CHANNELCTRL_CLR) = dcp_CHANNELCTRL_CLR"
  "gen_register (row_of dcp_KEY) = dcp_KEY"
  "gen_register (row_of dcp_KEYDATA) = dcp_KEYDATA"
  by (simp_all add: dcp_CONTEXT_def dcp_VERSION_def dcp_CAPABILITY1_def dcp_STAT_def dcp_CHANNELCTRL_SET_def dcp_CHANNELCTRL_CLR_def dcp_KEY_def dcp_KEYDATA_def row_eval)

lemma rows_hw_dcp_2:
  "gen_register (row_of dcp_CH2CMDPTR) = dcp_CH2CMDPTR"
  "gen_register (row_of dcp_CH2SEMA) = dcp_CH2SEMA"
  "gen_register (row_of dcp_CH2STAT) = dcp_CH2STAT"
  "gen_register (row_of dcp_CH3CMDPTR) = dcp_CH3CMDPTR"
  "gen_register (row_of dcp_CH3SEMA) = dcp_CH3SEMA"
  "gen_register (row_of dcp_CH3STAT) = dcp_CH3STAT"
  by (simp_all add: dcp_CH2CMDPTR_def dcp_CH2SEMA_def dcp_CH2STAT_def dcp_CH3CMDPTR_def dcp_CH3SEMA_def dcp_CH3STAT_def row_eval)

lemma rows_rng:
  "gen_register (row_of rng_VER) = rng_VER"
  "gen_register (row_of rng_CMD) = rng_CMD"
  "gen_register (row_of rng_CR) = rng_CR"
  "gen_register (row_of rng_SR) = rng_SR"
  "gen_register (row_of rng_ESR) = rng_ESR"
  "gen_register (row_of rng_OUT) = rng_OUT"
  by (simp_all add: rng_VER_def rng_CMD_def rng_CR_def rng_SR_def rng_ESR_def rng_OUT_def row_eval)

lemma rows_usb_uog_1:
  "gen_register (row_of usb_USBCMD) = usb_USBCMD"
  "gen_register (row_of usb_USBSTS) = usb_USBSTS"
  "gen_register (row_of usb_USBINTR) = usb_USBINTR"
  "gen_register (row_of usb_USBMODE) = usb_USBMODE"
  "gen_register (row_of usb_DEVICEADDR) = usb_DEVICEADDR"
  "gen_register (row_of usb_ENDPTLISTADDR) = usb_ENDPTLISTADDR"
  "gen_register (row_of usb_ENDPTSETUPSTAT) = usb_ENDPTSETUPSTAT"
  "gen_register (row_of usb_ENDPTPRIME) = usb_ENDPTPRIME"
  by (simp_all add: usb_USBCMD_def usb_USBSTS_def usb_USBINTR_def usb_USBMODE_def usb_DEVICEADDR_def usb_ENDPTLISTADDR_def usb_ENDPTSETUPSTAT_def usb_ENDPTPRIME_def row_eval)

lemma rows_usb_uog_2:
  "gen_register (row_of usb_ENDPTFLUSH) = usb_ENDPTFLUSH"
  "gen_register (row_of usb_ENDPTCOMPLETE) = usb_ENDPTCOMPLETE"
  "gen_register (row_of usb_ENDPTCTRL1) = usb_ENDPTCTRL1"
  "gen_register (row_of usb_PORTSC1) = usb_PORTSC1"
  "gen_register (row_of usb_OTGSC) = usb_OTGSC"
  by (simp_all add: usb_ENDPTFLUSH_def usb_ENDPTCOMPLETE_def usb_ENDPTCTRL1_def usb_PORTSC1_def usb_OTGSC_def row_eval)

lemma rows_usb_clocks:
  "gen_register (row_of ccm_analog_PLL_USB1) = ccm_analog_PLL_USB1"
  "gen_register (row_of ccm_analog_PLL_USB1_SET) = ccm_analog_PLL_USB1_SET"
  "gen_register (row_of ccm_analog_PLL_USB1_CLR) = ccm_analog_PLL_USB1_CLR"
  "gen_register (row_of usbphy_CTRL_SET) = usbphy_CTRL_SET"
  "gen_register (row_of usbphy_CTRL_CLR) = usbphy_CTRL_CLR"
  "gen_register (row_of usbphy_PWD_CLR) = usbphy_PWD_CLR"
  "gen_register (row_of usb_analog_USB1_CHRG_DETECT_SET) = usb_analog_USB1_CHRG_DETECT_SET"
  by (simp_all add: ccm_analog_PLL_USB1_def ccm_analog_PLL_USB1_SET_def ccm_analog_PLL_USB1_CLR_def usbphy_CTRL_SET_def usbphy_CTRL_CLR_def usbphy_PWD_CLR_def usb_analog_USB1_CHRG_DETECT_SET_def row_eval)

lemma rows_uart_1:
  "gen_register (row_of uart_URXD) = uart_URXD"
  "gen_register (row_of uart_UTXD) = uart_UTXD"
  "gen_register (row_of uart_UCR1) = uart_UCR1"
  "gen_register (row_of uart_UCR2) = uart_UCR2"
  "gen_register (row_of uart_UCR3) = uart_UCR3"
  "gen_register (row_of uart_UCR4) = uart_UCR4"
  "gen_register (row_of uart_UFCR) = uart_UFCR"
  "gen_register (row_of uart_USR1) = uart_USR1"
  by (simp_all add: uart_URXD_def uart_UTXD_def uart_UCR1_def uart_UCR2_def uart_UCR3_def uart_UCR4_def uart_UFCR_def uart_USR1_def row_eval)

lemma rows_uart_2:
  "gen_register (row_of uart_USR2) = uart_USR2"
  "gen_register (row_of uart_UBIR) = uart_UBIR"
  "gen_register (row_of uart_UBMR) = uart_UBMR"
  "gen_register (row_of uart_UTS) = uart_UTS"
  "gen_register (row_of uart_UMCR) = uart_UMCR"
  by (simp_all add: uart_USR2_def uart_UBIR_def uart_UBMR_def uart_UTS_def uart_UMCR_def row_eval)

lemma rows_others_1:
  "gen_register (row_of i2c_IFDR) = i2c_IFDR"
  "gen_register (row_of i2c_I2CR) = i2c_I2CR"
  "gen_register (row_of i2c_I2SR) = i2c_I2SR"
  "gen_register (row_of i2c_I2DR) = i2c_I2DR"
  "gen_register (row_of gpio_GDIR) = gpio_GDIR"
  "gen_register (row_of gpio_DR) = gpio_DR"
  "gen_register (row_of ccm_CCGR0) = ccm_CCGR0"
  "gen_register (row_of ccm_CCGR2) = ccm_CCGR2"
  by (simp_all add: i2c_IFDR_def i2c_I2CR_def i2c_I2SR_def i2c_I2DR_def gpio_GDIR_def gpio_DR_def ccm_CCGR0_def ccm_CCGR2_def row_eval)

lemma rows_others_2:
  "gen_register (row_of iomuxc_I2C1_SCL_SELECT_INPUT) = iomuxc_I2C1_SCL_SELECT_INPUT"
  "gen_register (row_of iomuxc_I2C1_SDA_SELECT_INPUT) = iomuxc_I2C1_SDA_SELECT_INPUT"
  "gen_register (row_of wdog_WCR) = wdog_WCR"
  by (simp_all add: iomuxc_I2C1_SCL_SELECT_INPUT_def iomuxc_I2C1_SDA_SELECT_INPUT_def wdog_WCR_def row_eval)

lemma generated_registers: "list_all (\<lambda>g. gen_register (row_of g) = g) pac_registers"
  by (simp add: pac_registers_def rows_snvs_hp rows_usdhc_1 rows_usdhc_2 rows_hw_dcp_1 rows_hw_dcp_2 rows_rng rows_usb_uog_1 rows_usb_uog_2 rows_usb_clocks rows_uart_1 rows_uart_2 rows_others_1 rows_others_2)

section \<open>Properties\<close>


text \<open>
  C11. Different registers of the traces are different memory: two registers that the drivers access under different names
  never share a byte of the address space, and none is in the interrupt controller, whose registers are accessed by address.
\<close>

theorem registers_apart:
  assumes "reg_extent r = Some (a, n)" "reg_extent q = Some (b, m)" "r \<noteq> q"
  shows "(a + n \<le> b \<or> b + m \<le> a) \<and> 0xA03000 \<le> a"
proof -
  have "reg_item r \<noteq> None" "reg_item q \<noteq> None" using assms(1,2) by (auto simp: reg_extent_def split: option.splits)
  then obtain x y where x: "(r, x) \<in> set reg_table" and y: "(q, y) \<in> set reg_table"
    using table_complete by fastforce
  have "x = (a, n)" "y = (b, m)"
    using x y table_extents assms(1,2) by (fastforce simp: list_all_iff)+
  then have "a + n \<le> b \<or> b + m \<le> a"
    using sorted_wrt_apart [OF table_sorted x y] assms(3) by (auto simp: before_def)
  moreover have "list_all (\<lambda>(r, a, n). 0xA03000 \<le> a) reg_table" by (simp add: reg_table_def)
  then have "0xA03000 \<le> a" using x \<open>x = (a, n)\<close> by (auto simp: list_all_iff)
  ultimately show ?thesis by blast
qed

theorem registers_apart_witness:
  "\<exists>a n b m. reg_extent (Usb PLL_USB1) = Some (a, n) \<and> reg_extent (Usb USB1_CHRG_DETECT_SET) = Some (b, m) \<and>
     (a + n \<le> b \<or> b + m \<le> a)"
proof -
  have e: "reg_extent (Usb PLL_USB1) = Some (0x20C8010, 4)" "reg_extent (Usb USB1_CHRG_DETECT_SET) = Some (0x20C81B4, 4)"
    by (simp_all add: pac_eval)
  have "Usb PLL_USB1 \<noteq> Usb USB1_CHRG_DETECT_SET" by simp
  from registers_apart [OF e this] show ?thesis using e by blast
qed

end
