(* ===== verification/ImageFormat.thy ===== *)
theory ImageFormat
  imports Prelude
begin

text \<open>
  The i.MX6 program image of \<^verbatim>\<open>host/image\<close>: its parts (image vector table, boot data, device
  configuration data), and the reader of \<^verbatim>\<open>lib.rs\<close>, \<^verbatim>\<open>ivt.rs\<close>, \<^verbatim>\<open>dcd.rs\<close> and \<^verbatim>\<open>read.rs\<close>. The
  reader is built on the crate \<^verbatim>\<open>nom\<close>, which is not part of the repository: its parsers are
  the record \<open>nom\<close>, an argument of every parsing function, and the locale \<open>nom_docs\<close> states
  what its documentation promises of them. A \<^verbatim>\<open>todo!()\<close>, \<^verbatim>\<open>panic!\<close> or \<^verbatim>\<open>expect\<close> of the reader
  is the outcome \<open>Panic\<close>.
\<close>

section \<open>The parsers of nom\<close>

datatype width = B1 | B2 | B4

datatype flags = WriteValue | ClearBitmask | SetBitmask

record write_param =
  wp_bytes :: width
  wp_flags :: flags

type_synonym ('e, 'a) parser = "bytes \<Rightarrow> ('e, bytes \<times> 'a) outcome"
type_synonym ('e, 'a) bit_parser = "bytes \<times> nat \<Rightarrow> ('e, (bytes \<times> nat) \<times> 'a) outcome"

record 'e nom =
  n_le_u32 :: "('e, u32) parser"
  n_be_u8 :: "('e, u8) parser"
  n_be_u16 :: "('e, u16) parser"
  n_be_u32 :: "('e, u32) parser"
  n_tag :: "bytes \<Rightarrow> ('e, bytes) parser"
  n_alt2 :: "('e, bytes) parser \<Rightarrow> ('e, bytes) parser \<Rightarrow> ('e, bytes) parser"
  n_bits_take :: "nat \<Rightarrow> ('e, u8) bit_parser"
  n_bits_tag :: "u8 \<Rightarrow> nat \<Rightarrow> ('e, u8) bit_parser"
  n_bits :: "('e, write_param) bit_parser \<Rightarrow> ('e, write_param) parser"

section \<open>Image vector table and boot data\<close>

record header =
  tag :: u8
  hlength :: u16
  version :: u8

record ivt =
  ivt_header :: header
  entry :: u32
  dcd :: u32
  boot :: u32
  ivt_self :: u32
  csf :: u32

record boot_data =
  bstart :: u32
  blen :: u32
  plugin :: u32

definition IVT_TAG :: u8 where "IVT_TAG = 0xD1"
definition IVT_LENGTH :: u16 where "IVT_LENGTH = 32"
definition IVT_SIZE :: u8 where "IVT_SIZE = ucast IVT_LENGTH"
definition VERSION0 :: u8 where "VERSION0 = 0x40"
definition VERSION1 :: u8 where "VERSION1 = 0x41"
definition BOOT_DATA_SIZE :: u8 where "BOOT_DATA_SIZE = 12"

definition ivt_header_parse :: "'e nom \<Rightarrow> ('e, header) parser" where
  "ivt_header_parse N i0 =
     obind (n_tag N [IVT_TAG] i0) (\<lambda>(i1, t).
     obind (n_be_u16 N i1) (\<lambda>(i2, len).
     if len \<noteq> IVT_LENGTH then Panic
     else obind (n_alt2 N (n_tag N [VERSION0]) (n_tag N [VERSION1]) i2) (\<lambda>(i3, v).
     Ok (i3, \<lparr>tag = t ! 0, hlength = len, version = v ! 0\<rparr>))))"

definition ivt_header_default :: header where
  "ivt_header_default = \<lparr>tag = IVT_TAG, hlength = IVT_LENGTH, version = VERSION0\<rparr>"

definition ivt_parse :: "'e nom \<Rightarrow> ('e, ivt) parser" where
  "ivt_parse N i0 =
     obind (ivt_header_parse N i0) (\<lambda>(i1, h).
     obind (n_le_u32 N i1) (\<lambda>(i2, en).
     obind (n_tag N [0, 0, 0, 0] i2) (\<lambda>(i3, _).
     obind (n_le_u32 N i3) (\<lambda>(i4, dc).
     obind (n_le_u32 N i4) (\<lambda>(i5, bo).
     obind (n_le_u32 N i5) (\<lambda>(i6, se).
     obind (n_le_u32 N i6) (\<lambda>(i7, cs).
     obind (n_tag N [0, 0, 0, 0] i7) (\<lambda>(i8, _).
     Ok (i8, \<lparr>ivt_header = h, entry = en, dcd = dc, boot = bo, ivt_self = se, csf = cs\<rparr>)))))))))"

definition boot_data_parse :: "'e nom \<Rightarrow> ('e, boot_data) parser" where
  "boot_data_parse N i0 =
     obind (n_le_u32 N i0) (\<lambda>(i1, st).
     obind (n_le_u32 N i1) (\<lambda>(i2, len).
     obind (n_le_u32 N i2) (\<lambda>(i3, pl).
     Ok (i3, \<lparr>bstart = st, blen = len, plugin = pl\<rparr>))))"

section \<open>Device configuration data\<close>

record address_value =
  av_address :: u32
  av_value :: u32

record write_header =
  wtag :: u8
  wlength :: u16
  parameter :: write_param

record write_data_command =
  wheader :: write_header
  address_values :: "address_value list"

record dcd_image =
  dcd_header :: header
  commands :: "write_data_command list"
  dcd_bytes :: bytes

definition DCD_TAG :: u8 where "DCD_TAG = 0xD2"
definition DCD_VERSION :: u8 where "DCD_VERSION = 0x40"
definition MAX_LENGTH :: u16 where "MAX_LENGTH = 1768"
definition WRITE_TAG :: u8 where "WRITE_TAG = 0xCC"
definition HEADER_SIZE :: u8 where "HEADER_SIZE = 4"

definition dcd_header_parse :: "'e nom \<Rightarrow> ('e, header) parser" where
  "dcd_header_parse N i0 =
     obind (n_tag N [DCD_TAG] i0) (\<lambda>(i1, t).
     obind (n_be_u16 N i1) (\<lambda>(i2, len).
     if MAX_LENGTH < len then Panic
     else obind (n_tag N [DCD_VERSION] i2) (\<lambda>(i3, v).
     Ok (i3, \<lparr>tag = t ! 0, hlength = len, version = v ! 0\<rparr>))))"

definition dcd_header_default :: header where
  "dcd_header_default = \<lparr>tag = DCD_TAG, hlength = 0, version = DCD_VERSION\<rparr>"

definition flags_parse :: "'e nom \<Rightarrow> ('e, flags) bit_parser" where
  "flags_parse N i0 =
     obind (n_bits_tag N 0 3 i0) (\<lambda>(i1, _).
     obind (n_bits_take N 2 i1) (\<lambda>(i2, fl).
     let data_mask = fl AND 1 \<noteq> 0; data_set = fl AND 2 \<noteq> 0 in
     Ok (i2, if data_mask then (if data_set then SetBitmask else ClearBitmask) else WriteValue)))"

definition width_parse :: "'e nom \<Rightarrow> ('e, width) bit_parser" where
  "width_parse N i0 =
     obind (n_bits_take N 3 i0) (\<lambda>(i1, b).
     if b = 1 then Ok (i1, B1) else if b = 2 then Ok (i1, B2)
     else if b = 4 then Ok (i1, B4) else Panic)"

definition write_param_parse :: "'e nom \<Rightarrow> ('e, write_param) bit_parser" where
  "write_param_parse N i0 =
     obind (flags_parse N i0) (\<lambda>(i1, fl).
     obind (width_parse N i1) (\<lambda>(i2, w).
     Ok (i2, \<lparr>wp_bytes = w, wp_flags = fl\<rparr>)))"

definition write_header_parse :: "'e nom \<Rightarrow> ('e, write_header) parser" where
  "write_header_parse N i0 =
     obind (n_tag N [WRITE_TAG] i0) (\<lambda>(i1, t).
     obind (n_be_u16 N i1) (\<lambda>(i2, len).
     obind (n_bits N (write_param_parse N) i2) (\<lambda>(i3, par).
     Ok (i3, \<lparr>wtag = t ! 0, wlength = len, parameter = par\<rparr>))))"

text \<open>The discriminants \<^verbatim>\<open>bytes as u16\<close>.\<close>

fun width_num :: "width \<Rightarrow> nat" where
  "width_num B1 = 1" | "width_num B2 = 2" | "width_num B4 = 4"

definition value_parse :: "'e nom \<Rightarrow> width \<Rightarrow> ('e, u32) parser" where
  "value_parse N w i =
     (case w of
        B1 \<Rightarrow> obind (n_be_u8 N i) (\<lambda>(i, v). Ok (i, ucast v))
      | B2 \<Rightarrow> obind (n_be_u16 N i) (\<lambda>(i, v). Ok (i, ucast v))
      | B4 \<Rightarrow> n_be_u32 N i)"

fun address_values_loop :: "'e nom \<Rightarrow> width \<Rightarrow> nat \<Rightarrow> ('e, address_value list) parser" where
  "address_values_loop N w 0 i = Ok (i, [])"
| "address_values_loop N w (Suc n) i =
     obind (n_be_u32 N i) (\<lambda>(i1, a).
     obind (value_parse N w i1) (\<lambda>(i2, v).
     obind (address_values_loop N w n i2) (\<lambda>(i3, avs).
     Ok (i3, \<lparr>av_address = a, av_value = v\<rparr> # avs))))"

definition address_values_parse :: "'e nom \<Rightarrow> u16 \<Rightarrow> width \<Rightarrow> ('e, address_value list) parser" where
  "address_values_parse N len w = address_values_loop N w (unat len div (4 + width_num w))"

text \<open>
  \<^verbatim>\<open>WriteDataCommand::parse\<close> returns the command and what is left of \<open>length\<close>. The subtraction
  from \<open>length\<close> is a plain \<^verbatim>\<open>-=\<close>.
\<close>

definition write_data_command_parse ::
  "profile \<Rightarrow> 'e nom \<Rightarrow> u16 \<Rightarrow> ('e, u16 \<times> write_data_command) parser" where
  "write_data_command_parse p N len i0 =
     obind (write_header_parse N i0) (\<lambda>(i1, h).
     obind (prof_sub p len (wlength h)) (\<lambda>len'.
     obind (oexpect (checked_sub (wlength h) (ucast HEADER_SIZE))) (\<lambda>n.
     obind (address_values_parse N n (wp_bytes (parameter h)) i1) (\<lambda>(i2, avs).
     Ok (i2, len', \<lparr>wheader = h, address_values = avs\<rparr>)))))"

text \<open>
  The \<^verbatim>\<open>while length != 0\<close> loop. Every command takes its four header bytes from the input, so
  the fuel \<open>command_parse\<close> gives it, one more than the length of the input, is never used up
  (\<open>command_parse_no_hang\<close>).
\<close>

fun command_loop :: "nat \<Rightarrow> profile \<Rightarrow> 'e nom \<Rightarrow> u16 \<Rightarrow> ('e, write_data_command list) parser" where
  "command_loop 0 p N len i = Hang"
| "command_loop (Suc n) p N len i =
     (if len = 0 then Ok (i, [])
      else obind (write_data_command_parse p N len i) (\<lambda>(i1, len', cmd).
           obind (command_loop n p N len' i1) (\<lambda>(i2, cmds).
           Ok (i2, cmd # cmds))))"

definition command_parse :: "profile \<Rightarrow> 'e nom \<Rightarrow> u16 \<Rightarrow> ('e, write_data_command list) parser" where
  "command_parse p N len i = command_loop (Suc (length i)) p N len i"

definition dcd_parse :: "profile \<Rightarrow> 'e nom \<Rightarrow> ('e, dcd_image) parser" where
  "dcd_parse p N i0 =
     obind (dcd_header_parse N i0) (\<lambda>(i1, h).
     obind (oexpect (checked_sub (hlength h) (ucast HEADER_SIZE))) (\<lambda>len.
     obind (command_parse p N len i1) (\<lambda>(i2, cmds).
     obind (oexpect (slice_get i0 0 (unat (hlength h)))) (\<lambda>b.
     Ok (i2, \<lparr>dcd_header = h, commands = cmds, dcd_bytes = b\<rparr>)))))"

section \<open>The image reader\<close>

datatype image_error = IvtError | BootDataError | DcdError

record image =
  image_ivt :: ivt
  image_boot_data :: boot_data
  image_dcd :: "dcd_image option"

definition image_parse :: "profile \<Rightarrow> 'e nom \<Rightarrow> bytes \<Rightarrow> (image_error, image) outcome" where
  "image_parse p N input =
     obind (omap_err (\<lambda>_. IvtError) (ivt_parse N input)) (\<lambda>(_, iv).
     obind (oexpect (checked_sub (boot iv) (ivt_self iv))) (\<lambda>boff.
     obind (oexpect (slice_get input (unat boff) (unat boff + unat BOOT_DATA_SIZE))) (\<lambda>bd.
     obind (omap_err (\<lambda>_. BootDataError) (boot_data_parse N bd)) (\<lambda>(_, bdata).
     obind (if dcd iv \<noteq> 0 then
              obind (oexpect (checked_sub (dcd iv) (ivt_self iv))) (\<lambda>doff.
              obind (oexpect (slice_get input (unat doff) (length input))) (\<lambda>rest.
              obind (omap_err (\<lambda>_. DcdError) (dcd_parse p N rest)) (\<lambda>(_, dc).
              Ok (Some dc))))
            else Ok None) (\<lambda>dc.
     Ok \<lparr>image_ivt = iv, image_boot_data = bdata, image_dcd = dc\<rparr>)))))"

lemma split_two: "\<not> length i < 2 \<Longrightarrow> i ! 0 # i ! Suc 0 # drop 2 i = i"
  by (cases i; cases "tl i") auto

lemma split_four: "\<not> length i < 4 \<Longrightarrow> i ! 0 # i ! Suc 0 # i ! 2 # i ! 3 # drop 4 i = i"
  by (cases i; cases "tl i"; cases "tl (tl i)"; cases "tl (tl (tl i))") auto

section \<open>What nom promises\<close>

locale nom_docs =
  fixes N :: "'e nom"
  assumes le_u32: "n_le_u32 N (a # b # c # d # rest) = Ok (rest, le32_of a b c d)"
    and le_u32_short: "length i < 4 \<Longrightarrow> \<exists>e. n_le_u32 N i = Err e"
    and be_u8: "n_be_u8 N (a # rest) = Ok (rest, a)"
    and be_u8_short: "\<exists>e. n_be_u8 N [] = Err e"
    and be_u16: "n_be_u16 N (a # b # rest) = Ok (rest, be16_of a b)"
    and be_u16_short: "length i < 2 \<Longrightarrow> \<exists>e. n_be_u16 N i = Err e"
    and be_u32: "n_be_u32 N (a # b # c # d # rest) = Ok (rest, le32_of d c b a)"
    and be_u32_short: "length i < 4 \<Longrightarrow> \<exists>e. n_be_u32 N i = Err e"
    and tag_match: "n_tag N t (t @ rest) = Ok (rest, t)"
    and tag_mismatch: "take (length t) i \<noteq> t \<Longrightarrow> \<exists>e. n_tag N t i = Err e"
    and alt_first: "(\<And>e. p i \<noteq> Err e) \<Longrightarrow> n_alt2 N p q i = p i"
    and alt_second: "p i = Err e1 \<Longrightarrow> (\<And>e. q i \<noteq> Err e) \<Longrightarrow> n_alt2 N p q i = q i"
    and alt_fail: "p i = Err e1 \<Longrightarrow> q i = Err e2 \<Longrightarrow> \<exists>e. n_alt2 N p q i = Err e"
    and bits_take: "off + n \<le> 8 \<Longrightarrow> n_bits_take N n (x # rest, off) =
        Ok (if off + n = 8 then (rest, 0) else (x # rest, off + n),
            drop_bit (8 - off - n) x AND mask n)"
    and bits_take_short: "0 < n \<Longrightarrow> \<exists>e. n_bits_take N n ([], off) = Err e"
    and bits_tag: "off + n < 8 \<Longrightarrow> drop_bit (8 - off - n) x AND mask n = v \<Longrightarrow>
        n_bits_tag N v n (x # rest, off) = Ok ((x # rest, off + n), v)"
    and bits_tag_mismatch: "off + n < 8 \<Longrightarrow> drop_bit (8 - off - n) x AND mask n \<noteq> v \<Longrightarrow>
        \<exists>e. n_bits_tag N v n (x # rest, off) = Err e"
    and bits_tag_short: "0 < n \<Longrightarrow> \<exists>e. n_bits_tag N v n ([], off) = Err e"
    and bits_Ok: "g (i, 0) = Ok ((i', 0), w) \<Longrightarrow> n_bits N g i = Ok (i', w)"
    and bits_Err: "g (i, 0) = Err e1 \<Longrightarrow> \<exists>e. n_bits N g i = Err e"
    and bits_Panic: "g (i, 0) = Panic \<Longrightarrow> n_bits N g i = Panic"
begin

text \<open>The parsers on encoded integers.\<close>

lemma le_u32_bytes [simp]: "n_le_u32 N (le32_bytes w @ rest) = Ok (rest, w)"
  by (simp add: le32_bytes_def le_u32 byte_codec)

lemma be_u32_bytes [simp]: "n_be_u32 N (be32_bytes w @ rest) = Ok (rest, w)"
  by (simp add: be32_bytes_def le32_bytes_def be_u32 byte_codec)

lemma be_u16_bytes [simp]: "n_be_u16 N (be16_bytes w @ rest) = Ok (rest, w)"
  by (simp add: be16_bytes_def be_u16 byte_codec)

lemma tag_one [simp]: "n_tag N [t] (t # rest) = Ok (rest, [t])"
  using tag_match [of "[t]" rest] by simp

lemma tag_zeros [simp]: "n_tag N [0, 0, 0, 0] (0 # 0 # 0 # 0 # rest) = Ok (rest, [0, 0, 0, 0])"
  using tag_match [of "[0, 0, 0, 0]" rest] by simp

lemma alt_tag_first [simp]: "n_alt2 N (n_tag N [t]) q (t # rest) = Ok (rest, [t])"
  by (simp add: alt_first)

text \<open>What the flags byte of a Write Data command is read as.\<close>

lemma flags_parse_byte:
  assumes "drop_bit 5 b = 0"
  shows "flags_parse N (b # rest, 0) = Ok ((b # rest, 5),
     if bit b 3 then (if bit b 4 then SetBitmask else ClearBitmask) else WriteValue)"
proof -
  have "drop_bit (8 - 0 - 3) b AND mask 3 = 0" using assms by simp
  then have "n_bits_tag N 0 3 (b # rest, 0) = Ok ((b # rest, 3), 0)"
    using bits_tag [of 0 3 b 0 rest] by simp
  moreover have "n_bits_take N 2 (b # rest, 3) = Ok ((b # rest, 5), drop_bit 3 b AND 3)"
    using bits_take [of 3 2 b rest] by (simp add: mask_eq_exp_minus_1)
  moreover have "(drop_bit 3 b AND 3) AND 1 \<noteq> 0 \<longleftrightarrow> bit b 3"
    "(drop_bit 3 b AND 3) AND 2 \<noteq> 0 \<longleftrightarrow> bit b 4"
    unfolding and_mask_test by (simp_all add: bit_simps)
  ultimately show ?thesis by (simp add: flags_parse_def Let_def)
qed

lemma width_parse_byte:
  "width_parse N (b # rest, 5) =
     (if b AND 7 = 1 then Ok ((rest, 0), B1) else if b AND 7 = 2 then Ok ((rest, 0), B2)
      else if b AND 7 = 4 then Ok ((rest, 0), B4) else Panic)"
  using bits_take [of 5 3 b rest] by (simp add: width_parse_def mask_eq_exp_minus_1)

lemma write_param_parse_byte:
  assumes "drop_bit 5 b = 0"
  shows "n_bits N (write_param_parse N) (b # rest) =
     obind (if b AND 7 = 1 then Ok B1 else if b AND 7 = 2 then Ok B2
            else if b AND 7 = 4 then Ok B4 else Panic)
       (\<lambda>w. Ok (rest, \<lparr>wp_bytes = w, wp_flags =
          if bit b 3 then (if bit b 4 then SetBitmask else ClearBitmask) else WriteValue\<rparr>))"
  using bits_Ok [of "write_param_parse N" "b # rest" rest]
    bits_Panic [of "write_param_parse N" "b # rest"]
  by (auto simp: write_param_parse_def flags_parse_byte [OF assms] width_parse_byte)

lemma tag_Ok: "n_tag N t i = Ok (i', v) \<Longrightarrow> i = t @ i' \<and> v = t"
  using tag_mismatch [of t i] tag_match [of t "drop (length t) i"] append_take_drop_id [of "length t" i]
  by (cases "take (length t) i = t") auto

text \<open>No parser resets or hangs, and what it consumes.\<close>

lemma settles_numbers [simp]:
  "settles (n_le_u32 N i)" "settles (n_be_u8 N i)" "settles (n_be_u16 N i)" "settles (n_be_u32 N i)"
  "settles (n_tag N t i)"
proof -
  show "settles (n_le_u32 N i)"
    using le_u32_short [of i] le_u32 [of "i ! 0" "i ! 1" "i ! 2" "i ! 3" "drop 4 i"]
    by (cases "length i < 4") (auto simp: split_four)
  show "settles (n_be_u32 N i)"
    using be_u32_short [of i] be_u32 [of "i ! 0" "i ! 1" "i ! 2" "i ! 3" "drop 4 i"]
    by (cases "length i < 4") (auto simp: split_four)
  show "settles (n_be_u16 N i)"
    using be_u16_short [of i] be_u16 [of "i ! 0" "i ! 1" "drop 2 i"]
    by (cases "length i < 2") (auto simp: split_two)
  show "settles (n_be_u8 N i)"
    using be_u8_short be_u8 [of "hd i" "tl i"] by (cases i) auto
  show "settles (n_tag N t i)"
    using tag_mismatch [of t i] tag_match [of t "drop (length t) i"] append_take_drop_id [of "length t" i]
    by (cases "take (length t) i = t") auto
qed

lemma number_lengths:
  "n_be_u16 N i = Ok (i', h) \<Longrightarrow> length i = length i' + 2"
  "n_be_u32 N i = Ok (i', w) \<Longrightarrow> length i = length i' + 4"
  "n_be_u8 N i = Ok (i', v) \<Longrightarrow> length i = length i' + 1"
proof -
  show "n_be_u16 N i = Ok (i', h) \<Longrightarrow> length i = length i' + 2"
    using be_u16_short [of i] be_u16 [of "i ! 0" "i ! 1" "drop 2 i"]
    by (cases "length i < 2") (auto simp: split_two)
  show "n_be_u32 N i = Ok (i', w) \<Longrightarrow> length i = length i' + 4"
    using be_u32_short [of i] be_u32 [of "i ! 0" "i ! 1" "i ! 2" "i ! 3" "drop 4 i"]
    by (cases "length i < 4") (auto simp: split_four)
  show "n_be_u8 N i = Ok (i', v) \<Longrightarrow> length i = length i' + 1"
    using be_u8_short be_u8 [of "hd i" "tl i"] by (cases i) auto
qed

lemma write_param_cases:
  "(\<exists>e. n_bits N (write_param_parse N) i = Err e) \<or> n_bits N (write_param_parse N) i = Panic \<or>
   (\<exists>w. n_bits N (write_param_parse N) i = Ok (tl i, w) \<and> i \<noteq> [])"
proof (cases i)
  case Nil
  then show ?thesis
    using bits_tag_short [of 3 0 0] bits_Err [of "write_param_parse N" i]
    by (auto simp: write_param_parse_def flags_parse_def)
next
  case (Cons b rest)
  show ?thesis
  proof (cases "drop_bit 5 b = 0")
    case True
    then show ?thesis using Cons by (simp add: write_param_parse_byte)
  next
    case False
    have "mask 3 = (7 :: u8)" by (simp add: mask_eq_exp_minus_1)
    moreover have "drop_bit 5 b AND 7 = drop_bit 5 b"
    proof (rule bit_word_eqI)
      fix n assume "n < LENGTH(8)"
      then have "n = 0 \<or> n = 1 \<or> n = 2 \<or> 3 \<le> n" by auto
      then show "bit (drop_bit 5 b AND 7) n \<longleftrightarrow> bit (drop_bit 5 b) n"
        by (auto simp: bit_simps dest: bit_imp_le_length)
    qed
    ultimately obtain e where "n_bits_tag N 0 3 (b # rest, 0) = Err e"
      using False bits_tag_mismatch [of 0 3 b 0 rest] by auto
    then show ?thesis
      using Cons bits_Err [of "write_param_parse N" i]
      by (auto simp: write_param_parse_def flags_parse_def)
  qed
qed

lemma settles_write_param [simp]: "settles (n_bits N (write_param_parse N) i)"
  using write_param_cases [of i] by fastforce

lemma write_param_length:
  "n_bits N (write_param_parse N) i = Ok (i', w) \<Longrightarrow> length i = length i' + 1"
  using write_param_cases [of i] by auto

lemma settles_write_header [simp]: "settles (write_header_parse N i)"
  unfolding write_header_parse_def by (auto intro!: settles_obind)

lemma write_header_length:
  assumes "write_header_parse N i = Ok (i', h)"
  shows "length i = length i' + 4"
  using assms unfolding write_header_parse_def
  by (auto elim!: obind_OkE dest!: tag_Ok number_lengths write_param_length)

lemma value_length:
  "value_parse N w i = Ok (i', v) \<Longrightarrow> length i' \<le> length i"
  by (cases w) (auto simp: value_parse_def obind_Ok_iff dest!: number_lengths)

lemma settles_value [simp]: "settles (value_parse N w i)"
  by (cases w) (auto simp: value_parse_def intro!: settles_obind)

lemma settles_address_values [simp]: "settles (address_values_loop N w n i)"
  by (induction n arbitrary: i) (auto intro!: settles_obind)

lemma address_values_length:
  "address_values_loop N w n i = Ok (i', avs) \<Longrightarrow> length i' \<le> length i"
proof (induction n arbitrary: i avs)
  case (Suc n)
  from Suc.prems obtain i1 a i2 v avs' where "n_be_u32 N i = Ok (i1, a)"
      "value_parse N w i1 = Ok (i2, v)" "address_values_loop N w n i2 = Ok (i', avs')"
    by (auto simp: obind_Ok_iff)
  note number_lengths(2) [OF this(1)] value_length [OF this(2)] Suc.IH [OF this(3)]
  then show ?case by simp
qed simp

lemma settles_write_data_command [simp]: "settles (write_data_command_parse p N len i)"
  unfolding write_data_command_parse_def address_values_parse_def by (auto intro!: settles_obind)

lemma write_data_command_length:
  assumes "write_data_command_parse p N len i = Ok (i', r)"
  shows "length i' + 4 \<le> length i"
  using assms unfolding write_data_command_parse_def address_values_parse_def
  by (auto elim!: obind_OkE dest!: write_header_length address_values_length)

lemma settles_command_loop: "length i < n \<Longrightarrow> settles (command_loop n p N len i)"
proof (induction n arbitrary: len i)
  case (Suc n)
  show ?case
  proof (cases "len = 0")
    case False
    have "settles (command_loop n p N len' i1)"
      if "write_data_command_parse p N len i = Ok (i1, len', cmd)" for i1 len' cmd
      using Suc.IH [of i1 len'] Suc.prems write_data_command_length [OF that] by simp
    then show ?thesis using False by (auto intro!: settles_obind)
  qed simp
qed simp

lemma settles_dcd_header [simp]: "settles (dcd_header_parse N i)"
  unfolding dcd_header_parse_def by (auto intro!: settles_obind)

lemma settles_dcd_parse [simp]: "settles (dcd_parse p N i)"
proof -
  have "settles (command_parse p N len j)" for len j
    unfolding command_parse_def by (rule settles_command_loop) simp
  then show ?thesis unfolding dcd_parse_def by (auto intro!: settles_obind)
qed

lemma settles_alt_tags [simp]: "settles (n_alt2 N (n_tag N s) (n_tag N t) i)"
proof (cases "\<exists>e. n_tag N s i = Err e")
  case True
  then obtain e1 where e1: "n_tag N s i = Err e1" ..
  show ?thesis
  proof (cases "\<exists>e. n_tag N t i = Err e")
    case True
    then show ?thesis using alt_fail [of "n_tag N s" i e1 "n_tag N t"] e1 by fastforce
  next
    case False
    then show ?thesis using alt_second [of "n_tag N s" i e1 "n_tag N t"] e1 by simp
  qed
next
  case False
  then show ?thesis by (simp add: alt_first)
qed

lemma settles_image_parse: "settles (image_parse p N i)"
  unfolding image_parse_def ivt_parse_def ivt_header_parse_def boot_data_parse_def
  by (auto intro!: settles_obind)

end

section \<open>An executable nom\<close>

text \<open>
  Parsers with the documented behaviour of nom, for the examples: they show that the laws can
  hold.
\<close>

definition ref_take :: "nat \<Rightarrow> (unit, u8) bit_parser" where
  "ref_take n = (\<lambda>(i, off). case i of
      [] \<Rightarrow> if n = 0 then Ok ((i, off), 0) else Err ()
    | x # rest \<Rightarrow> if 8 < off + n then Err ()
        else Ok (if off + n = 8 then (rest, 0) else (i, off + n), drop_bit (8 - off - n) x AND mask n))"

definition nom_ref :: "unit nom" where
  "nom_ref =
     \<lparr>n_le_u32 = (\<lambda>i. case i of a # b # c # d # rest \<Rightarrow> Ok (rest, le32_of a b c d) | _ \<Rightarrow> Err ()),
      n_be_u8 = (\<lambda>i. case i of a # rest \<Rightarrow> Ok (rest, a) | _ \<Rightarrow> Err ()),
      n_be_u16 = (\<lambda>i. case i of a # b # rest \<Rightarrow> Ok (rest, be16_of a b) | _ \<Rightarrow> Err ()),
      n_be_u32 = (\<lambda>i. case i of a # b # c # d # rest \<Rightarrow> Ok (rest, le32_of d c b a) | _ \<Rightarrow> Err ()),
      n_tag = (\<lambda>t i. if take (length t) i = t then Ok (drop (length t) i, t) else Err ()),
      n_alt2 = (\<lambda>p q i. case p i of Err _ \<Rightarrow> q i | r \<Rightarrow> r),
      n_bits_take = ref_take,
      n_bits_tag = (\<lambda>v n i. obind (ref_take n i) (\<lambda>(i', w). if w = v then Ok (i', w) else Err ())),
      n_bits = (\<lambda>g i. obind (g (i, 0)) (\<lambda>((i', off), w). Ok (if off = 0 then i' else tl i', w)))\<rparr>"

interpretation nomref: nom_docs nom_ref
proof unfold_locales
  fix i :: bytes
  show "length i < 4 \<Longrightarrow> \<exists>e. n_le_u32 nom_ref i = Err e" "length i < 4 \<Longrightarrow> \<exists>e. n_be_u32 nom_ref i = Err e"
    "length i < 2 \<Longrightarrow> \<exists>e. n_be_u16 nom_ref i = Err e"
    by (auto simp: nom_ref_def split: list.splits)
next
  fix p q :: "(unit, bytes) parser" and i
  show "(\<And>e. p i \<noteq> Err e) \<Longrightarrow> n_alt2 nom_ref p q i = p i"
    by (cases "p i") (auto simp: nom_ref_def)
qed (auto simp: nom_ref_def ref_take_def)

end
