(* ===== verification/ImageWrite.thy ===== *)
theory ImageWrite
  imports ImageFormat
begin

text \<open>
  The image writer of \<^verbatim>\<open>host/image/src/write.rs\<close>: the device configuration data that sets up
  the DDR RAM, the choice of the application bytes from an ELF file, and the layout of the
  image. The writer's target is the \<^verbatim>\<open>Vec\<close> of \<^verbatim>\<open>into_bytes\<close>, so a \<^verbatim>\<open>write_all\<close> appends and never
  fails. The ELF file is what the crate \<^verbatim>\<open>xmas_elf\<close> reports of it, a record of data.
\<close>

section \<open>Constants\<close>

definition MAX_IMAGE_SIZE :: u32 where "MAX_IMAGE_SIZE = 32 * 1024 * 1024"
definition DRAM_START :: u32 where "DRAM_START = 0x80000000"
definition DRAM_SIZE :: u32 where "DRAM_SIZE = 512 * 1024 * 1024"
definition OCRAM_START :: u32 where "OCRAM_START = 0x00900000"
definition OCRAM_SIZE :: u32 where "OCRAM_SIZE = 128 * 1024"
definition RESERVED :: u32 where "RESERVED = 1024"
definition PADDING :: u32 where "PADDING = 1024"

definition in_DRAM :: "u32 \<Rightarrow> bool" where
  "in_DRAM a \<longleftrightarrow> DRAM_START \<le> a \<and> a < DRAM_START + DRAM_SIZE"

definition in_OCRAM :: "u32 \<Rightarrow> bool" where
  "in_OCRAM a \<longleftrightarrow> OCRAM_START \<le> a \<and> a < OCRAM_START + OCRAM_SIZE"

section \<open>The DDR configuration\<close>

text \<open>The register addresses are those of \<^verbatim>\<open>imx6ul-pac\<close>: base address plus offset.\<close>

definition IOMUXC_BASE :: u32 where "IOMUXC_BASE = 0x020e0014"
definition MMDC_BASE :: u32 where "MMDC_BASE = 0x021b0000"

definition ddr_write :: "u32 \<Rightarrow> u32 \<Rightarrow> address_value" where
  "ddr_write a v = \<lparr>av_address = a, av_value = v\<rparr>"

definition init_ddr :: "address_value list" where
  "init_ddr =
     [ddr_write (IOMUXC_BASE + 0x4a0) 0xc0000, ddr_write (IOMUXC_BASE + 0x498) 0x0,
      ddr_write (IOMUXC_BASE + 0x274) 0x80030, ddr_write (IOMUXC_BASE + 0x25c) 0x0,
      ddr_write (IOMUXC_BASE + 0x24c) 0x30, ddr_write (IOMUXC_BASE + 0x250) 0x30,
      ddr_write 0x20e0280 0x30, ddr_write 0x20e0284 0x30,
      ddr_write (IOMUXC_BASE + 0x480) 0x20000, ddr_write (IOMUXC_BASE + 0x49c) 0x20000,
      ddr_write (MMDC_BASE + 0x1c) 0x8000, ddr_write (MMDC_BASE + 0xc) 0x676b52f3,
      ddr_write (MMDC_BASE + 0x10) 0xb66d0b63, ddr_write (MMDC_BASE + 0x14) 0x1ff00db,
      ddr_write (MMDC_BASE + 0x8) 0x1b333030, ddr_write (MMDC_BASE + 0x18) 0x201740,
      ddr_write (MMDC_BASE + 0x2c) 0x26d2, ddr_write (MMDC_BASE + 0x40) 0x4f,
      ddr_write (MMDC_BASE + 0x30) 0x6b1023, ddr_write (MMDC_BASE + 0x0) 0x84180000,
      ddr_write (MMDC_BASE + 0x800) 0xa1390003, ddr_write (MMDC_BASE + 0x80c) 0xd000f,
      ddr_write (MMDC_BASE + 0x810) 0x100010, ddr_write (MMDC_BASE + 0x83c) 0x415c0160,
      ddr_write (MMDC_BASE + 0x848) 0x40403c42, ddr_write (MMDC_BASE + 0x850) 0x40402c26,
      ddr_write (MMDC_BASE + 0x81c) 0x33333333, ddr_write (MMDC_BASE + 0x820) 0x33333333,
      ddr_write (MMDC_BASE + 0x82c) 0xf3333333, ddr_write (MMDC_BASE + 0x830) 0xf3333333,
      ddr_write (MMDC_BASE + 0x8c0) 0x921012, ddr_write (MMDC_BASE + 0x8b8) 0x800,
      ddr_write (MMDC_BASE + 0x1c) 0x2008032, ddr_write (MMDC_BASE + 0x1c) 0x8033,
      ddr_write (MMDC_BASE + 0x1c) 0x48031, ddr_write (MMDC_BASE + 0x1c) 0x15208030,
      ddr_write (MMDC_BASE + 0x1c) 0x4008040, ddr_write (MMDC_BASE + 0x4) 0x2556d,
      ddr_write (MMDC_BASE + 0x404) 0x11006, ddr_write (MMDC_BASE + 0x20) 0x800,
      ddr_write (MMDC_BASE + 0x818) 0x227, ddr_write (MMDC_BASE + 0x1c) 0x0]"

section \<open>Writing the parts\<close>

definition header_write :: "header \<Rightarrow> bytes" where
  "header_write h = [tag h] @ be16_bytes (hlength h) @ [version h]"

definition ivt_write :: "ivt \<Rightarrow> bytes" where
  "ivt_write v = header_write (ivt_header v) @ le32_bytes (entry v) @ [0, 0, 0, 0] @
     le32_bytes (dcd v) @ le32_bytes (boot v) @ le32_bytes (ivt_self v) @ le32_bytes (csf v) @
     [0, 0, 0, 0]"

definition boot_data_write :: "boot_data \<Rightarrow> bytes" where
  "boot_data_write b = le32_bytes (bstart b) @ le32_bytes (blen b) @ le32_bytes (plugin b)"

fun flags_num :: "flags \<Rightarrow> u8" where
  "flags_num WriteValue = 0" | "flags_num ClearBitmask = 2" | "flags_num SetBitmask = 3"

definition write_header_write :: "write_header \<Rightarrow> bytes" where
  "write_header_write h = [wtag h] @ be16_bytes (wlength h) @
     [of_nat (width_num (wp_bytes (parameter h))) OR push_bit 3 (flags_num (wp_flags (parameter h)))]"

definition av_write :: "address_value \<Rightarrow> bytes" where
  "av_write av = be32_bytes (av_address av) @ be32_bytes (av_value av)"

definition write_data_command_write :: "write_data_command \<Rightarrow> (string, bytes) outcome" where
  "write_data_command_write c =
     obind (oassert (wp_bytes (parameter (wheader c)) = B4)) (\<lambda>_.
     Ok (write_header_write (wheader c) @ concat (map av_write (address_values c))))"

definition writes_command :: "profile \<Rightarrow> address_value list \<Rightarrow> (string, write_data_command) outcome" where
  "writes_command p avs =
     (if 2 ^ 16 \<le> 8 * length avs then Panic
      else obind (prof_add p (ucast HEADER_SIZE) (of_nat (8 * length avs))) (\<lambda>len.
           Ok \<lparr>wheader = \<lparr>wtag = WRITE_TAG, wlength = len,
                 parameter = \<lparr>wp_bytes = B4, wp_flags = WriteValue\<rparr>\<rparr>,
               address_values = avs\<rparr>))"

definition dcd_size :: "profile \<Rightarrow> address_value list \<Rightarrow> (string, u16) outcome" where
  "dcd_size p writes =
     obind (prof_mul p 8 (of_nat (length writes))) (\<lambda>n.
     prof_add p (ucast (HEADER_SIZE + HEADER_SIZE)) n)"

definition dcd_write :: "profile \<Rightarrow> address_value list \<Rightarrow> (string, bytes) outcome" where
  "dcd_write p writes =
     obind (dcd_size p writes) (\<lambda>len.
     obind (writes_command p writes) (\<lambda>c.
     obind (write_data_command_write c) (\<lambda>b.
     Ok (header_write (dcd_header_default\<lparr>hlength := len\<rparr>) @ b))))"

section \<open>Writing an image\<close>

record wimage =
  app :: bytes
  wdcd :: "address_value list option"
  wentry :: u32

definition self_address :: u32 where
  "self_address = DRAM_START + PADDING"

definition image_ivt_of :: "wimage \<Rightarrow> ivt" where
  "image_ivt_of img =
     \<lparr>ivt_header = ivt_header_default, entry = wentry img,
      dcd = (if wdcd img \<noteq> None then DRAM_START + PADDING + ucast (IVT_SIZE + BOOT_DATA_SIZE) else 0),
      boot = DRAM_START + PADDING + ucast IVT_SIZE,
      ivt_self = self_address, csf = 0\<rparr>"

definition image_write :: "profile \<Rightarrow> wimage \<Rightarrow> (string, bytes) outcome" where
  "image_write p img =
     obind (prof_add p (PADDING + RESERVED) (of_nat (length (app img)))) (\<lambda>len.
     obind (oassert (len \<le> MAX_IMAGE_SIZE)) (\<lambda>_.
     let bd = \<lparr>bstart = DRAM_START, blen = len, plugin = 0\<rparr>;
         pos = (ucast IVT_SIZE :: u32) + ucast BOOT_DATA_SIZE in
     obind (case wdcd img of
              None \<Rightarrow> Ok (pos, [])
            | Some writes \<Rightarrow> obind (dcd_size p writes) (\<lambda>n.
                obind (dcd_write p writes) (\<lambda>b. Ok (pos + ucast n, b)))) (\<lambda>(pos, dcd_bytes).
     obind (oexpect (checked_sub RESERVED pos)) (\<lambda>pad.
     Ok (ivt_write (image_ivt_of img) @ boot_data_write bd @ dcd_bytes @
         replicate (unat pad) 0 @ app img)))))"

section \<open>From an ELF file\<close>

record elf_section =
  sec_name :: "string option"
  sec_address :: u64
  sec_size :: u64
  sec_data :: bytes

record elf_program =
  ph_load :: bool
  ph_physical :: u64
  ph_virtual :: u64
  ph_mem_size :: u64
  ph_data :: "bytes option"

text \<open>
  \<open>ph_data\<close> is \<open>None\<close> when \<^verbatim>\<open>get_data\<close> fails or gives something else than \<^verbatim>\<open>SegmentData::Undefined\<close>.
  The symbol table is missing, unreadable, of the 32-bit kind, or of another kind.
\<close>

datatype symtab = NoSymtab | BadSymtab string | Symbols32 "(string option \<times> u64) list" | OtherSymtab

record elf_file =
  elf_sections :: "elf_section list"
  elf_programs :: "elf_program list"
  elf_symtab :: symtab

datatype elf_error = SymtabNotFound | SymtabData string | StartNotFound

definition app_section :: "elf_section \<Rightarrow> bool" where
  "app_section s \<longleftrightarrow> (case sec_name s of
       None \<Rightarrow> False
     | Some name \<Rightarrow> name \<in> {''.text'', ''.rodata'', ''.start''} \<and> in_DRAM (ucast (sec_address s)))"

definition copied_program :: "elf_program \<Rightarrow> bool" where
  "copied_program ph \<longleftrightarrow>
     ph_load ph \<and> in_OCRAM (ucast (ph_virtual ph)) \<and> in_DRAM (ucast (ph_physical ph))"

text \<open>The first pass: the lowest start and the highest end.\<close>

definition extend_range :: "u32 option \<times> u32 option \<Rightarrow> u32 \<Rightarrow> u32 \<Rightarrow> u32 option \<times> u32 option" where
  "extend_range se st en =
     (Some (case fst se of None \<Rightarrow> st | Some x \<Rightarrow> min x st),
      Some (case snd se of None \<Rightarrow> en | Some x \<Rightarrow> max x en))"

fun range_pass :: "profile \<Rightarrow> u32 option \<times> u32 option \<Rightarrow> (u32 \<times> u32) list \<Rightarrow>
    (elf_error, u32 option \<times> u32 option) outcome" where
  "range_pass p se [] = Ok se"
| "range_pass p se ((st, sz) # xs) =
     obind (prof_add p st sz) (\<lambda>en. range_pass p (extend_range se st en) xs)"

definition elf_ranges :: "elf_file \<Rightarrow> (u32 \<times> u32) list" where
  "elf_ranges elf =
     map (\<lambda>s. (ucast (sec_address s), ucast (sec_size s))) (filter app_section (elf_sections elf)) @
     map (\<lambda>ph. (ucast (ph_physical ph), ucast (ph_mem_size ph))) (filter copied_program (elf_programs elf))"

text \<open>The second pass: the data of every piece is copied to its place in \<open>app\<close>.\<close>

type_synonym piece = "u32 \<times> nat \<times> bytes option"

definition elf_pieces :: "elf_file \<Rightarrow> piece list" where
  "elf_pieces elf =
     map (\<lambda>s. (ucast (sec_address s), unat (sec_size s), Some (sec_data s)))
       (filter app_section (elf_sections elf)) @
     map (\<lambda>ph. (ucast (ph_physical ph), unat (ph_mem_size ph), ph_data ph))
       (filter copied_program (elf_programs elf))"

fun copy_pass :: "profile \<Rightarrow> u32 \<Rightarrow> bytes \<Rightarrow> piece list \<Rightarrow> (elf_error, bytes) outcome" where
  "copy_pass p st buf [] = Ok buf"
| "copy_pass p st buf ((a, sz, data) # xs) =
     obind (oexpect data) (\<lambda>d.
     obind (prof_sub p a st) (\<lambda>off.
     if unat off + sz \<le> length buf \<and> length d = sz
     then copy_pass p st (put_slice buf (unat off) d) xs else Panic))"

text \<open>The last symbol named \<^verbatim>\<open>_start\<close>.\<close>

fun start_symbol :: "u32 option \<Rightarrow> (string option \<times> u64) list \<Rightarrow> u32 option" where
  "start_symbol st [] = st"
| "start_symbol st ((name, v) # xs) =
     start_symbol (if name = Some ''_start'' then Some (ucast v) else st) xs"

definition entry_of :: "symtab \<Rightarrow> (elf_error, u32) outcome" where
  "entry_of tab =
     (case tab of
        NoSymtab \<Rightarrow> Err SymtabNotFound
      | BadSymtab s \<Rightarrow> Err (SymtabData s)
      | Symbols32 xs \<Rightarrow> (case start_symbol None xs of None \<Rightarrow> Err StartNotFound | Some v \<Rightarrow> Ok v)
      | OtherSymtab \<Rightarrow> Err StartNotFound)"

definition from_elf :: "profile \<Rightarrow> elf_file \<Rightarrow> bool \<Rightarrow> (elf_error, wimage) outcome" where
  "from_elf p elf skip_dcd =
     obind (range_pass p (None, None) (elf_ranges elf)) (\<lambda>(st, en).
     obind (oexpect st) (\<lambda>st.
     obind (oexpect en) (\<lambda>en.
     if en < st then Panic
     else obind (copy_pass p st (replicate (unat en - unat st) 0) (elf_pieces elf)) (\<lambda>buf.
          obind (entry_of (elf_symtab elf)) (\<lambda>v.
          Ok \<lparr>app = buf, wdcd = (if skip_dcd then None else Some init_ddr), wentry = v\<rparr>)))))"

section \<open>What the reader makes of the parts\<close>

lemma length_header_write [simp]: "length (header_write h) = 4"
  by (simp add: header_write_def)

lemma length_ivt_write [simp]: "length (ivt_write v) = 32"
  by (simp add: ivt_write_def)

lemma length_boot_data_write [simp]: "length (boot_data_write b) = 12"
  by (simp add: boot_data_write_def)

lemma length_av_write [simp]: "length (av_write av) = 8"
  by (simp add: av_write_def)

lemma length_concat_av [simp]: "length (concat (map av_write avs)) = 8 * length avs"
  by (induction avs) auto

lemma param_byte:
  "drop_bit 5 (of_nat (width_num w) OR push_bit 3 (flags_num f) :: u8) = 0"
  "(of_nat (width_num w) OR push_bit 3 (flags_num f) :: u8) AND 7 = of_nat (width_num w)"
  "bit (of_nat (width_num w) OR push_bit 3 (flags_num f) :: u8) 3 \<longleftrightarrow> f = SetBitmask"
  "bit (of_nat (width_num w) OR push_bit 3 (flags_num f) :: u8) 4 \<longleftrightarrow> f \<noteq> WriteValue"
  by (cases w; cases f; simp)+

text \<open>The bytes of a well-formed DCD.\<close>

lemma dcd_size_Ok: "length ws \<le> 121 \<Longrightarrow> dcd_size p ws = Ok (8 + 8 * of_nat (length ws))"
  by (simp add: dcd_size_def prof_mul_fits prof_add_fits HEADER_SIZE_def unat_word_ariths unat_of_nat)

definition dcd_header_of :: "nat \<Rightarrow> header" where
  "dcd_header_of n = \<lparr>tag = DCD_TAG, hlength = 8 + 8 * of_nat n, version = DCD_VERSION\<rparr>"

definition command_of :: "address_value list \<Rightarrow> write_data_command" where
  "command_of ws = \<lparr>wheader = \<lparr>wtag = WRITE_TAG, wlength = 4 + 8 * of_nat (length ws),
     parameter = \<lparr>wp_bytes = B4, wp_flags = WriteValue\<rparr>\<rparr>, address_values = ws\<rparr>"

definition dcd_bytes_of :: "address_value list \<Rightarrow> bytes" where
  "dcd_bytes_of ws = header_write (dcd_header_of (length ws)) @
     write_header_write (wheader (command_of ws)) @ concat (map av_write ws)"

lemma unat_small:
  fixes n :: nat
  assumes "n \<le> 121"
  shows "unat (8 + 8 * of_nat n :: u16) = 8 + 8 * n" "unat (4 + 8 * of_nat n :: u16) = 4 + 8 * n"
  using assms by (simp_all add: unat_word_ariths unat_of_nat)

lemma length_dcd_bytes_of [simp]: "length (dcd_bytes_of ws) = 8 + 8 * length ws"
  by (simp add: dcd_bytes_of_def write_header_write_def)

lemma writes_command_Ok: "length ws \<le> 121 \<Longrightarrow> writes_command p ws = Ok (command_of ws)"
  by (simp add: writes_command_def command_of_def prof_add_fits HEADER_SIZE_def
      unat_word_ariths unat_of_nat)

lemma dcd_write_Ok: "length ws \<le> 121 \<Longrightarrow> dcd_write p ws = Ok (dcd_bytes_of ws)"
  by (simp add: dcd_write_def dcd_size_Ok writes_command_Ok)
    (simp add: write_data_command_write_def dcd_bytes_of_def dcd_header_of_def
      dcd_header_default_def command_of_def)

context nom_docs
begin

lemma ivt_header_roundtrip:
  "ivt_header_parse N (header_write ivt_header_default @ rest) = Ok (rest, ivt_header_default)"
  by (simp add: ivt_header_parse_def header_write_def ivt_header_default_def)

lemma ivt_roundtrip:
  "ivt_header v = ivt_header_default \<Longrightarrow> ivt_parse N (ivt_write v @ rest) = Ok (rest, v)"
  by (simp add: ivt_parse_def ivt_write_def ivt_header_roundtrip)

lemma boot_data_roundtrip: "boot_data_parse N (boot_data_write b @ rest) = Ok (rest, b)"
  by (simp add: boot_data_parse_def boot_data_write_def)

lemma address_values_roundtrip:
  "address_values_loop N B4 (length avs) (concat (map av_write avs) @ rest) = Ok (rest, avs)"
  by (induction avs) (simp_all add: av_write_def value_parse_def)

text \<open>The reader takes a header with \<open>ClearBitmask\<close> for one with \<open>WriteValue\<close>.\<close>

lemma write_header_reread:
  assumes "wtag h = WRITE_TAG"
  shows "write_header_parse N (write_header_write h @ rest) =
    Ok (rest, h\<lparr>parameter := (parameter h)\<lparr>wp_flags :=
      (if wp_flags (parameter h) = ClearBitmask then WriteValue else wp_flags (parameter h))\<rparr>\<rparr>)"
  using assms
  by (cases "wp_bytes (parameter h)"; cases "wp_flags (parameter h)")
    (simp_all add: write_header_parse_def write_header_write_def write_param_parse_byte param_byte)

lemma write_data_command_roundtrip:
  assumes n: "length ws \<le> 121"
  shows "write_data_command_parse p N (4 + 8 * of_nat (length ws))
     (write_header_write (wheader (command_of ws)) @ concat (map av_write ws) @ rest)
     = Ok (rest, 0, command_of ws)"
proof -
  have "checked_sub (4 + 8 * of_nat (length ws) :: u16) 4 = Some (8 * of_nat (length ws))"
    using unat_small(2) [OF n] by (simp add: checked_sub_def word_le_nat_alt)
  moreover have "unat (8 * of_nat (length ws) :: u16) div 8 = length ws"
    using n by (simp add: unat_word_ariths unat_of_nat)
  ultimately show ?thesis
    by (simp add: write_data_command_parse_def write_header_reread command_of_def prof_sub_fits
        HEADER_SIZE_def address_values_parse_def address_values_roundtrip)
qed

lemma dcd_roundtrip:
  assumes n: "length ws \<le> 121"
  shows "dcd_parse p N (dcd_bytes_of ws @ rest) = Ok (rest,
     \<lparr>dcd_header = dcd_header_of (length ws), commands = [command_of ws], dcd_bytes = dcd_bytes_of ws\<rparr>)"
proof -
  let ?cmds = "write_header_write (wheader (command_of ws)) @ concat (map av_write ws) @ rest"
  have "\<not> MAX_LENGTH < (8 + 8 * of_nat (length ws) :: u16)"
    using unat_small(1) [OF n] n by (simp add: MAX_LENGTH_def word_less_nat_alt)
  then have h: "dcd_header_parse N (dcd_bytes_of ws @ rest) = Ok (?cmds, dcd_header_of (length ws))"
    by (simp add: dcd_header_parse_def dcd_bytes_of_def header_write_def dcd_header_of_def)
  have l: "checked_sub (8 + 8 * of_nat (length ws) :: u16) 4 = Some (4 + 8 * of_nat (length ws))"
    using unat_small(1) [OF n] by (simp add: checked_sub_def word_le_nat_alt)
  have ne: "(4 + 8 * of_nat (length ws) :: u16) \<noteq> 0"
  proof
    assume "(4 + 8 * of_nat (length ws) :: u16) = 0"
    then have "unat (4 + 8 * of_nat (length ws) :: u16) = 0" by simp
    then show False using unat_small(2) [OF n] by simp
  qed
  have c: "command_parse p N (4 + 8 * of_nat (length ws)) ?cmds = Ok (rest, [command_of ws])"
    using ne write_data_command_roundtrip [OF n, of p rest]
    by (simp add: command_parse_def write_header_write_def numeral_eq_Suc)
  have s: "slice_get (dcd_bytes_of ws @ rest) 0 (unat (8 + 8 * of_nat (length ws) :: u16)) = Some (dcd_bytes_of ws)"
    using unat_small(1) [OF n] by (simp add: slice_get_def)
  show ?thesis
    by (simp add: dcd_parse_def h c dcd_header_of_def HEADER_SIZE_def l s)
qed

end

section \<open>The image as a whole\<close>

text \<open>What fits: an application up to 32 MB less 2 KB, and at most 121 DCD writes.\<close>

definition image_fits :: "wimage \<Rightarrow> bool" where
  "image_fits img \<longleftrightarrow> length (app img) + 2048 \<le> 32 * 1024 * 1024 \<and>
     (case wdcd img of None \<Rightarrow> True | Some ws \<Rightarrow> length ws \<le> 121)"

definition image_boot_of :: "wimage \<Rightarrow> boot_data" where
  "image_boot_of img = \<lparr>bstart = DRAM_START, blen = 2048 + of_nat (length (app img)), plugin = 0\<rparr>"

definition image_dcd_of :: "wimage \<Rightarrow> bytes" where
  "image_dcd_of img = (case wdcd img of None \<Rightarrow> [] | Some ws \<Rightarrow> dcd_bytes_of ws)"

definition image_bytes :: "wimage \<Rightarrow> bytes" where
  "image_bytes img = ivt_write (image_ivt_of img) @ boot_data_write (image_boot_of img) @
     image_dcd_of img @ replicate (980 - length (image_dcd_of img)) 0 @ app img"

lemma image_len:
  assumes "length xs < 2 ^ 32"
  shows "prof_add Dev (PADDING + RESERVED) (of_nat (length xs)) =
    (if length xs + 2048 < 2 ^ 32 then Ok (2048 + of_nat (length xs) :: u32) else Panic)"
  using assms by (simp add: prof_add_def checked_add_def PADDING_def RESERVED_def unat_of_nat
      take_bit_nat_eq_self)

lemma image_len_fits:
  "length xs + 2048 < 2 ^ 32 \<Longrightarrow>
    prof_add p (PADDING + RESERVED) (of_nat (length xs)) = Ok (2048 + of_nat (length xs) :: u32)"
  by (simp add: prof_add_def checked_add_def PADDING_def RESERVED_def unat_of_nat
      take_bit_nat_eq_self)

lemma image_len_max:
  assumes "length xs + 2048 < 2 ^ 32"
  shows "(2048 + of_nat (length xs) :: u32) \<le> MAX_IMAGE_SIZE \<longleftrightarrow> length xs + 2048 \<le> 32 * 1024 * 1024"
proof -
  have "unat (of_nat (length xs) :: u32) = length xs"
    using assms by (intro unat_of_nat_small) simp
  then have "unat (2048 + of_nat (length xs) :: u32) = 2048 + length xs"
    using assms unat_add_small [of "2048 :: u32" "of_nat (length xs)"] by simp
  moreover have "unat MAX_IMAGE_SIZE = 32 * 1024 * 1024" by (simp add: MAX_IMAGE_SIZE_def)
  ultimately show ?thesis by (simp add: word_le_nat_alt)
qed

lemma checked_sub_reserved:
  assumes "n \<le> 121"
  shows "checked_sub RESERVED (44 + ucast (8 + 8 * of_nat n :: u16)) = Some (of_nat (972 - 8 * n))"
proof -
  have u: "unat (44 + ucast (8 + 8 * of_nat n :: u16) :: u32) = 52 + 8 * n"
    using unat_small(1) [OF assms] by (simp add: unat_word_ariths)
  have le: "44 + ucast (8 + 8 * of_nat n :: u16) \<le> (1024 :: u32)"
    using assms u by (simp add: word_le_nat_alt)
  have "unat (1024 - (44 + ucast (8 + 8 * of_nat n :: u16)) :: u32) = 972 - 8 * n"
    using unat_sub [OF le] u by simp
  then have "1024 - (44 + ucast (8 + 8 * of_nat n :: u16)) = (of_nat (972 - 8 * n) :: u32)"
    using assms unat_of_nat_small [of "972 - 8 * n", where 'a = 32] by (simp add: word_unat_eq_iff)
  then show ?thesis using le by (simp add: checked_sub_def RESERVED_def)
qed

lemma image_write_fits:
  assumes "image_fits img"
  shows "image_write p img = Ok (image_bytes img)"
proof (cases "wdcd img")
  case None
  have "checked_sub RESERVED 44 = Some 980" by (simp add: checked_sub_def RESERVED_def word_le_nat_alt)
  then show ?thesis
    using assms image_len_max [of "app img"] None
    by (simp add: image_write_def image_fits_def image_len_fits Let_def image_bytes_def image_dcd_of_def
        image_boot_of_def IVT_SIZE_def IVT_LENGTH_def BOOT_DATA_SIZE_def)
next
  case (Some ws)
  then have n: "length ws \<le> 121" using assms by (simp add: image_fits_def)
  have "unat (of_nat (972 - 8 * length ws) :: u32) = 972 - 8 * length ws"
    by (simp add: unat_of_nat take_bit_nat_eq_self)
  then show ?thesis
    using assms Some image_len_max [of "app img"] n checked_sub_reserved [OF n]
    by (simp add: image_write_def image_fits_def image_len_fits Let_def image_bytes_def image_dcd_of_def
        image_boot_of_def IVT_SIZE_def IVT_LENGTH_def BOOT_DATA_SIZE_def dcd_size_Ok dcd_write_Ok)
qed

lemma length_image_dcd_of: "image_fits img \<Longrightarrow> length (image_dcd_of img) \<le> 976"
  by (auto simp: image_fits_def image_dcd_of_def split: option.splits)

lemma image_bytes_split:
  assumes "image_fits img"
  shows "length (image_bytes img) = 1024 + length (app img)" "drop 1024 (image_bytes img) = app img"
  using length_image_dcd_of [OF assms] by (simp_all add: image_bytes_def)

text \<open>What the reader gives for a written image.\<close>

definition reread_image :: "wimage \<Rightarrow> image" where
  "reread_image img =
     \<lparr>image_ivt = image_ivt_of img, image_boot_data = image_boot_of img,
      image_dcd = map_option (\<lambda>ws. \<lparr>dcd_header = dcd_header_of (length ws),
         commands = [command_of ws], dcd_bytes = dcd_bytes_of ws\<rparr>) (wdcd img)\<rparr>"

lemma image_offsets:
  "checked_sub (boot (image_ivt_of img)) (ivt_self (image_ivt_of img)) = Some 32"
  "dcd (image_ivt_of img) = (if wdcd img = None then 0 else 0x8000042C)"
  "ivt_self (image_ivt_of img) = 0x80000400"
  by (simp_all add: image_ivt_of_def self_address_def DRAM_START_def PADDING_def IVT_SIZE_def
      IVT_LENGTH_def BOOT_DATA_SIZE_def checked_sub_def word_le_nat_alt)

context nom_docs
begin

lemma image_reread:
  assumes "image_fits img"
  shows "image_parse p N (image_bytes img) = Ok (reread_image img)"
proof -
  have ivt: "ivt_parse N (image_bytes img) = Ok (drop 32 (image_bytes img), image_ivt_of img)"
    by (simp add: image_bytes_def ivt_roundtrip image_ivt_of_def)
  have bd: "boot_data_parse N (boot_data_write (image_boot_of img)) = Ok ([], image_boot_of img)"
    using boot_data_roundtrip [of "image_boot_of img" "[]"] by simp
  have s1: "slice_get (image_bytes img) 32 44 = Some (boot_data_write (image_boot_of img))"
    by (simp add: slice_get_def image_bytes_def)
  have s2: "slice_get (image_bytes img) 44 (length (image_bytes img))
      = Some (image_dcd_of img @ replicate (980 - length (image_dcd_of img)) 0 @ app img)"
    by (simp add: slice_get_def image_bytes_def)
  have c: "checked_sub 0x8000042C (0x80000400 :: u32) = Some 44"
    by (simp add: checked_sub_def word_le_nat_alt)
  show ?thesis
  proof (cases "wdcd img")
    case None
    then show ?thesis
      using image_offsets [of img]
      by (simp add: image_parse_def ivt bd s1 BOOT_DATA_SIZE_def reread_image_def)
  next
    case (Some ws)
    then have n: "length ws \<le> 121" using assms by (simp add: image_fits_def)
    show ?thesis
      using image_offsets [of img] Some dcd_roundtrip [OF n]
      by (simp add: image_parse_def ivt bd s1 s2 c BOOT_DATA_SIZE_def reread_image_def
          image_dcd_of_def)
  qed
qed

end

section \<open>Placing the data of an ELF file\<close>

text \<open>The bytes a piece occupies in the buffer, which starts at address \<open>st\<close>.\<close>

definition piece_off :: "u32 \<Rightarrow> piece \<Rightarrow> nat" where
  "piece_off st pc = unat (fst pc - st)"

definition disjoint_from :: "u32 \<Rightarrow> piece \<Rightarrow> piece \<Rightarrow> bool" where
  "disjoint_from st a b \<longleftrightarrow> piece_off st a + fst (snd a) \<le> piece_off st b \<or>
     piece_off st b + fst (snd b) \<le> piece_off st a"

lemma copy_pass_length: "copy_pass p st buf xs = Ok buf' \<Longrightarrow> length buf' = length buf"
  by (induction p st buf xs rule: copy_pass.induct) (auto elim!: obind_OkE split: if_splits)

lemma put_slice_frame:
  assumes "i + length ys \<le> length xs" "j + n \<le> i \<or> i + length ys \<le> j" "j + n \<le> length xs"
  shows "take n (drop j (put_slice xs i ys)) = take n (drop j xs)"
  by (rule nth_equalityI) (use assms in \<open>auto simp: nth_put_slice\<close>)

lemma copy_pass_ConsE:
  assumes "copy_pass p st buf ((a, sz, data) # xs) = Ok buf'"
  obtains d where "data = Some d" "unat (a - st) + sz \<le> length buf" "length d = sz"
    "copy_pass p st (put_slice buf (unat (a - st)) d) xs = Ok buf'"
  using assms by (cases data) (auto elim!: obind_OkE simp: prof_Ok_iff split: if_splits)

lemma copy_pass_frame:
  assumes "copy_pass p st buf xs = Ok buf'" "\<forall>x \<in> set xs. disjoint_from st pc x"
    and "piece_off st pc + fst (snd pc) \<le> length buf"
  shows "take (fst (snd pc)) (drop (piece_off st pc) buf') = take (fst (snd pc)) (drop (piece_off st pc) buf)"
  using assms
proof (induction xs arbitrary: buf)
  case (Cons x xs)
  obtain a sz data where x: "x = (a, sz, data)" by (cases x)
  with Cons.prems(1) have "copy_pass p st buf ((a, sz, data) # xs) = Ok buf'" by simp
  then obtain d where d: "data = Some d" "unat (a - st) + sz \<le> length buf" "length d = sz"
      "copy_pass p st (put_slice buf (unat (a - st)) d) xs = Ok buf'"
    by (rule copy_pass_ConsE)
  have "take (fst (snd pc)) (drop (piece_off st pc) buf') =
      take (fst (snd pc)) (drop (piece_off st pc) (put_slice buf (unat (a - st)) d))"
    using Cons.prems d by (intro Cons.IH) auto
  also have "\<dots> = take (fst (snd pc)) (drop (piece_off st pc) buf)"
    using Cons.prems(2,3) d x by (intro put_slice_frame) (auto simp: disjoint_from_def piece_off_def)
  finally show ?case .
qed simp

lemma copy_pass_places:
  assumes "copy_pass p st buf xs = Ok buf'" "sorted_wrt (disjoint_from st) xs" "pc \<in> set xs"
  shows "piece_off st pc + fst (snd pc) \<le> length buf' \<and>
    Some (take (fst (snd pc)) (drop (piece_off st pc) buf')) = snd (snd pc)"
  using assms
proof (induction xs arbitrary: buf)
  case (Cons x xs)
  obtain a sz data where x: "x = (a, sz, data)" by (cases x)
  with Cons.prems(1) have "copy_pass p st buf ((a, sz, data) # xs) = Ok buf'" by simp
  then obtain d where d: "data = Some d" "unat (a - st) + sz \<le> length buf" "length d = sz"
      "copy_pass p st (put_slice buf (unat (a - st)) d) xs = Ok buf'"
    by (rule copy_pass_ConsE)
  show ?case
  proof (cases "pc \<in> set xs")
    case True
    then show ?thesis using Cons.prems d by (intro Cons.IH) auto
  next
    case False
    then have pc: "pc = (a, sz, data)" using Cons.prems(3) x by simp
    have "take sz (drop (unat (a - st)) buf')
        = take sz (drop (unat (a - st)) (put_slice buf (unat (a - st)) d))"
      using copy_pass_frame [OF d(4), of pc] Cons.prems(2) d pc x by (simp add: piece_off_def)
    then show ?thesis
      using pc d copy_pass_length [OF d(4)] put_slice_read [of "unat (a - st)" d buf]
      by (simp add: piece_off_def)
  qed
qed simp

section \<open>Images that do not fit\<close>

lemma dcd_size_Dev:
  assumes "length ws < 2 ^ 13"
  shows "dcd_size Dev ws = (if length ws < 8191 then Ok (8 + 8 * of_nat (length ws)) else Panic)"
    and "length ws < 8191 \<Longrightarrow> unat (8 + 8 * of_nat (length ws) :: u16) = 8 + 8 * length ws"
proof -
  have u: "unat (of_nat (length ws) :: u16) = length ws"
    using assms by (intro unat_of_nat_small) simp
  have m: "unat (8 * of_nat (length ws) :: u16) = 8 * length ws"
    using u assms unat_mult_lem [of "8 :: u16" "of_nat (length ws)"] by simp
  show "dcd_size Dev ws = (if length ws < 8191 then Ok (8 + 8 * of_nat (length ws)) else Panic)"
    using u m assms by (simp add: dcd_size_def prof_mul_def prof_add_def checked_add_def HEADER_SIZE_def)
  show "unat (8 + 8 * of_nat (length ws) :: u16) = 8 + 8 * length ws" if "length ws < 8191"
    using m that unat_add_small [of "8 :: u16" "8 * of_nat (length ws)"] by simp
qed

lemma dcd_write_too_many:
  assumes "2 ^ 13 \<le> length ws"
  shows "dcd_size Dev ws = Panic \<or> dcd_write Dev ws = Panic"
proof (cases "dcd_size Dev ws")
  case (Ok n)
  then show ?thesis using assms by (simp add: dcd_write_def writes_command_def)
qed (auto simp: dcd_size_def prof_mul_def prof_add_def split: if_splits)

lemma dcd_write_settles: "length ws < 8191 \<Longrightarrow> \<exists>b. dcd_write Dev ws = Ok b"
proof -
  assume n: "length ws < 8191"
  have u: "unat (of_nat (8 * length ws) :: u16) = 8 * length ws"
    using n by (intro unat_of_nat_small) simp
  have "prof_add Dev 4 (of_nat (8 * length ws) :: u16) = (Ok (4 + of_nat (8 * length ws)) :: (string, u16) outcome)"
    using u n by (intro prof_add_fits) simp
  then show ?thesis
    using n dcd_size_Dev(1) [of ws]
    by (simp add: dcd_write_def writes_command_def HEADER_SIZE_def write_data_command_write_def)
qed

lemma image_write_not_fits:
  assumes "length (app img) < 2 ^ 32" "\<not> image_fits img"
  shows "image_write Dev img = Panic"
proof (cases "length (app img) + 2048 \<le> 32 * 1024 * 1024")
  case False
  then show ?thesis
    using image_len_max [of "app img"] by (simp add: image_write_def image_len [OF assms(1)])
next
  case True
  then obtain ws where ws: "wdcd img = Some ws" "121 < length ws"
    using assms(2) by (auto simp: image_fits_def split: option.splits)
  have len: "oassert ((2048 + of_nat (length (app img)) :: u32) \<le> MAX_IMAGE_SIZE) = (Ok () :: (string, unit) outcome)"
    using True image_len_max [of "app img"] by simp
  have pos: "(ucast IVT_SIZE :: u32) + ucast BOOT_DATA_SIZE = 44"
    by (simp add: IVT_SIZE_def IVT_LENGTH_def BOOT_DATA_SIZE_def)
  consider "8191 < length ws" | "length ws = 8191" | "length ws < 8191" by linarith
  then show ?thesis
  proof cases
    case 1
    then show ?thesis
      using dcd_write_too_many [of ws] True ws(1)
      by (cases "dcd_size Dev ws") (auto simp: image_write_def image_len_fits len pos Let_def dcd_write_def)
  next
    case 2
    then show ?thesis
      using dcd_size_Dev(1) [of ws] True ws(1) by (simp add: image_write_def image_len_fits len pos Let_def)
  next
    case 3
    note sz = dcd_size_Dev(1) [of ws] dcd_size_Dev(2) [of ws, OF _ 3]
    have "unat (44 + ucast (8 + 8 * of_nat (length ws) :: u16) :: u32) = 52 + 8 * length ws"
      using sz(2) 3 unat_add_small [of "44 :: u32" "ucast (8 + 8 * of_nat (length ws) :: u16)"] by simp
    then have "checked_sub RESERVED (44 + ucast (8 + 8 * of_nat (length ws) :: u16)) = None"
      using ws(2) by (simp add: checked_sub_def RESERVED_def word_le_nat_alt)
    then show ?thesis
      using dcd_write_settles [OF 3] sz(1) 3 True ws(1)
      by (auto simp: image_write_def image_len_fits len pos Let_def)
  qed
qed

section \<open>Properties\<close>

text \<open>
  C6. Round trip of the program image: the reader, on whatever \<^verbatim>\<open>Image::write\<close> produces for an
  image that fits, gives back the image vector table, the boot data and the DCD writes in
  order, for any \<^verbatim>\<open>nom\<close> that behaves as documented; and the write itself succeeds.
\<close>

theorem image_roundtrip:
  assumes "nom_docs N" "image_fits img"
  shows "image_write p img = Ok (image_bytes img) \<and>
    image_parse q N (image_bytes img) = Ok (reread_image img)"
  using assms by (simp add: image_write_fits nom_docs.image_reread)

definition example_image :: wimage where
  "example_image = \<lparr>app = [0xEA, 0xFF, 0xFF, 0xFE], wdcd = Some init_ddr, wentry = 0x80000800\<rparr>"

theorem image_roundtrip_witness:
  "image_parse Dev nom_ref (image_bytes example_image) = Ok (reread_image example_image)"
proof -
  have "image_fits example_image"
    by (simp add: image_fits_def example_image_def init_ddr_def)
  then show ?thesis
    using image_roundtrip [OF nomref.nom_docs_axioms, of example_image Dev Dev] by simp
qed

text \<open>
  With overflow checks (the profile of the host tools) writing an image succeeds exactly when
  it fits, and otherwise panics. The result is the reserved kilobyte (IVT, boot data, DCD,
  padding) and then the application, whose offset matches the addresses in the IVT.
\<close>

lemma image_write_layout:
  assumes "length (app img) < 2 ^ 32"
  shows "image_write Dev img = (if image_fits img then Ok (image_bytes img) else Panic) \<and>
    (image_fits img \<longrightarrow> length (image_bytes img) = unat RESERVED + length (app img) \<and>
       drop (unat RESERVED) (image_bytes img) = app img)"
proof (cases "image_fits img")
  case True
  then show ?thesis
    using image_bytes_split [OF True] by (simp add: image_write_fits RESERVED_def)
next
  case False
  then show ?thesis using image_write_not_fits [OF assms] by simp
qed

lemma image_write_layout_witness:
  "drop 1024 (image_bytes example_image) = [0xEA, 0xFF, 0xFF, 0xFE]"
proof -
  have "image_fits example_image"
    by (simp add: image_fits_def example_image_def init_ddr_def)
  moreover have "length (app example_image) < 2 ^ 32" by (simp add: example_image_def)
  ultimately show ?thesis
    using image_write_layout [of example_image] by (simp add: RESERVED_def) (simp add: example_image_def)
qed

text \<open>
  The header of a Write Data command read back after it was written: the width and the flags
  \<^verbatim>\<open>WriteValue\<close> and \<^verbatim>\<open>SetBitmask\<close> survive, but \<^verbatim>\<open>ClearBitmask\<close>, encoded as \<^verbatim>\<open>0b10\<close>, is read as
  \<^verbatim>\<open>WriteValue\<close>, because \<^verbatim>\<open>Flags::parse\<close> takes bit 0 and not bit 1 for the mask bit.
\<close>

lemma write_header_roundtrip:
  assumes "nom_docs N" "wtag h = WRITE_TAG"
  shows "write_header_parse N (write_header_write h @ rest) =
    Ok (rest, h\<lparr>parameter := (parameter h)\<lparr>wp_flags :=
      (if wp_flags (parameter h) = ClearBitmask then WriteValue else wp_flags (parameter h))\<rparr>\<rparr>)"
  by (rule nom_docs.write_header_reread [OF assms])

lemma write_header_roundtrip_witness:
  "write_header_parse nom_ref [0xCC, 0, 12, 0x14] =
     Ok ([], \<lparr>wtag = 0xCC, wlength = 12, parameter = \<lparr>wp_bytes = B4, wp_flags = WriteValue\<rparr>\<rparr>)"
proof -
  have "write_header_write \<lparr>wtag = 0xCC, wlength = 12, parameter = \<lparr>wp_bytes = B4, wp_flags = ClearBitmask\<rparr>\<rparr>
      = [0xCC, 0, 12, 0x14]"
    by (simp add: write_header_write_def be16_bytes_def)
  then show ?thesis
    using write_header_roundtrip [OF nomref.nom_docs_axioms,
        of "\<lparr>wtag = 0xCC, wlength = 12, parameter = \<lparr>wp_bytes = B4, wp_flags = ClearBitmask\<rparr>\<rparr>" "[]"]
    by (simp add: WRITE_TAG_def)
qed

text \<open>
  Reading an image always ends, whatever the bytes: the \<^verbatim>\<open>while length != 0\<close> loop over the DCD
  commands cannot run forever, even when a wrong command length makes the unchecked
  subtraction from \<^verbatim>\<open>length\<close> wrap around (release profile). The result is an image, one of the
  three errors, or a panic.
\<close>

lemma image_parse_terminates:
  assumes "nom_docs N"
  shows "image_parse p N input \<noteq> Hang \<and> image_parse p N input \<noteq> Reset"
  using nom_docs.settles_image_parse [OF assms, of p input] by (auto simp: settles_def)

lemma image_parse_terminates_witness: "image_parse Release nom_ref [0xD1, 0, 32] \<noteq> Hang"
  using image_parse_terminates [OF nomref.nom_docs_axioms] by blast


definition example_elf :: elf_file where
  "example_elf =
     \<lparr>elf_sections =
        [\<lparr>sec_name = Some ''.start'', sec_address = 0x80000800, sec_size = 2, sec_data = [1, 2]\<rparr>,
         \<lparr>sec_name = Some ''.bss'', sec_address = 0x00900000, sec_size = 9, sec_data = []\<rparr>,
         \<lparr>sec_name = Some ''.text'', sec_address = 0x80000804, sec_size = 3, sec_data = [3, 4, 5]\<rparr>],
      elf_programs =
        [\<lparr>ph_load = True, ph_physical = 0x80000808, ph_virtual = 0x00900010, ph_mem_size = 1,
          ph_data = Some [6]\<rparr>],
      elf_symtab = Symbols32 [(Some ''main'', 0x80000804), (Some ''_start'', 0x80000800)]\<rparr>"

lemma example_elf_parts:
  "elf_ranges example_elf = [(0x80000800, 2), (0x80000804, 3), (0x80000808, 1)]"
  "elf_pieces example_elf =
     [(0x80000800, 2, Some [1, 2]), (0x80000804, 3, Some [3, 4, 5]), (0x80000808, 1, Some [6])]"
  by (simp_all add: elf_ranges_def elf_pieces_def example_elf_def app_section_def copied_program_def
      in_DRAM_def in_OCRAM_def DRAM_START_def DRAM_SIZE_def OCRAM_START_def OCRAM_SIZE_def
      word_le_nat_alt word_less_nat_alt)

lemma example_elf_ok:
  "from_elf Dev example_elf True = Ok \<lparr>app = [1, 2, 0, 0, 3, 4, 5, 0, 6], wdcd = None, wentry = 0x80000800\<rparr>"
  "range_pass Dev (None, None) (elf_ranges example_elf) = Ok (Some 0x80000800, Some 0x80000809)"
  "sorted_wrt (disjoint_from 0x80000800) (elf_pieces example_elf)"
  "(0x80000808, 1, Some [6]) \<in> set (elf_pieces example_elf)"
proof -
  show r: "range_pass Dev (None, None) (elf_ranges example_elf) = Ok (Some 0x80000800, Some 0x80000809)"
    by (simp add: example_elf_parts prof_add_def checked_add_def extend_range_def)
  show "sorted_wrt (disjoint_from 0x80000800) (elf_pieces example_elf)"
    by (simp add: example_elf_parts disjoint_from_def piece_off_def)
  show "(0x80000808, 1, Some [6]) \<in> set (elf_pieces example_elf)"
    by (simp add: example_elf_parts)
  have "copy_pass Dev 0x80000800 (replicate 9 0) (elf_pieces example_elf)
      = Ok [1, 2, 0, 0, 3, 4, 5, 0, 6]"
    by (simp add: example_elf_parts prof_sub_def checked_sub_def put_slice_def word_le_nat_alt) (simp add: numeral_2_eq_2)
  then show "from_elf Dev example_elf True
      = Ok \<lparr>app = [1, 2, 0, 0, 3, 4, 5, 0, 6], wdcd = None, wentry = 0x80000800\<rparr>"
    by (simp add: from_elf_def r entry_of_def) (simp add: example_elf_def)
qed


end
