(* ===== verification/Sdp.thy ===== *)
theory Sdp
  imports ImageWrite "HOL-Library.Sublist"
begin

text \<open>
  The host side of the Serial Downloader Protocol, \<^verbatim>\<open>host/usd\<close>: the encoding of the commands,
  the exchanges of \<^verbatim>\<open>Usd\<close> over a HID device, the two HID backends, and the two tools
  \<^verbatim>\<open>usd-load\<close> and \<^verbatim>\<open>usd-runner\<close> that load an image into the board. The USB crates \<^verbatim>\<open>rusb\<close> and
  \<^verbatim>\<open>hidapi\<close> are records of operations on the state of the device. Progress output is left out.
\<close>

section \<open>Commands\<close>

datatype format = B8 | B16 | B32

datatype data = U8 u8 | U16 u16 | U32 u32

datatype command =
    DcdWrite u32 u32
  | ErrorStatus
  | JumpAddress u32
  | ReadRegister u32 format u32
  | SkipDcdHeader
  | WriteFile u32 u32
  | WriteRegister u32 data

fun format_num :: "format \<Rightarrow> u8" where
  "format_num B8 = 0x08" | "format_num B16 = 0x10" | "format_num B32 = 0x20"

text \<open>The 16 bytes behind the report id, before the command type is put in, and the type.\<close>

definition cmd_address :: "u32 \<Rightarrow> bytes \<Rightarrow> bytes" where
  "cmd_address a cmd = put_slice cmd 2 (be32_bytes a)"

definition cmd_count :: "u32 \<Rightarrow> bytes \<Rightarrow> bytes" where
  "cmd_count n cmd = put_slice cmd 7 (be32_bytes n)"

definition cmd_format :: "format \<Rightarrow> bytes \<Rightarrow> bytes" where
  "cmd_format f cmd = cmd[6 := format_num f]"

fun cmd_data :: "data \<Rightarrow> bytes \<Rightarrow> bytes" where
  "cmd_data (U8 b) cmd = (cmd_format B8 cmd)[11 := b]"
| "cmd_data (U16 h) cmd = put_slice (cmd_format B16 cmd) 11 (le16_bytes h)"
| "cmd_data (U32 w) cmd = put_slice (cmd_format B32 cmd) 11 (le32_bytes w)"

fun cmd_fill :: "command \<Rightarrow> bytes \<Rightarrow> u8 \<times> bytes" where
  "cmd_fill (DcdWrite a n) cmd = (0x0A, cmd_count n (cmd_address a cmd))"
| "cmd_fill (WriteFile a n) cmd = (0x04, cmd_count n (cmd_address a cmd))"
| "cmd_fill ErrorStatus cmd = (0x05, cmd)"
| "cmd_fill (JumpAddress a) cmd = (0x0B, cmd_address a cmd)"
| "cmd_fill (ReadRegister a f n) cmd = (0x01, cmd_count n (cmd_format f (cmd_address a cmd)))"
| "cmd_fill SkipDcdHeader cmd = (0x0C, cmd)"
| "cmd_fill (WriteRegister a d) cmd = (0x02, cmd_data d (cmd_address a cmd))"

definition command_bytes :: "command \<Rightarrow> bytes" where
  "command_bytes c = (let (ty, cmd) = cmd_fill c (replicate 16 0) in 1 # cmd[0 := ty, 1 := ty])"

section \<open>The HID device\<close>

datatype 'e usd_error =
  Hid 'e | HidReadTimeout | OpenTimeout | AddressNotFound | NotAcknowledged bytes | HabClosed bytes | UnexpectedReportId

text \<open>
  \<open>hid_read n\<close> reads into a buffer of \<open>n\<close> bytes and gives the bytes that arrived, at most \<open>n\<close>.
\<close>

record ('h, 'e) hid =
  hid_read :: "nat \<Rightarrow> ('h, 'e usd_error, bytes) act"
  hid_write :: "bytes \<Rightarrow> ('h, 'e usd_error, unit) act"

definition VID :: u16 where "VID = 0x15a2"
definition PID :: u16 where "PID = 0x0080"
definition OCRAM_FREE_ADDRESS :: u32 where "OCRAM_FREE_ADDRESS = 0x910000"

definition send_command :: "('h, 'e) hid \<Rightarrow> command \<Rightarrow> ('h, 'e usd_error, unit) act" where
  "send_command H cmd = hid_write H (command_bytes cmd)"

definition SEC_OPEN :: bytes where "SEC_OPEN = [0x56, 0x78, 0x78, 0x56]"
definition RESP_WRITE_COMPLETE :: bytes where "RESP_WRITE_COMPLETE = [0x12, 0x8A, 0x8A, 0x12]"
definition RESP_COMPLETE :: bytes where "RESP_COMPLETE = [0x88, 0x88, 0x88, 0x88]"

definition check_sec_status :: "('h, 'e) hid \<Rightarrow> ('h, 'e usd_error, unit) act" where
  "check_sec_status H =
     abind (hid_read H 5) (\<lambda>sec.
     abind (if length sec = 1 then hid_read H 5 else aret sec) (\<lambda>sec.
     if sec = [] then alift Panic
     else if hd sec \<noteq> 3 \<or> tl sec \<noteq> SEC_OPEN then alift (Err (HabClosed sec))
     else aret ()))"

text \<open>The response without its report id, as \<^verbatim>\<open>Response::deref\<close> gives it.\<close>

definition read_response :: "('h, 'e) hid \<Rightarrow> ('h, 'e usd_error, bytes) act" where
  "read_response H =
     abind (hid_read H 65) (\<lambda>report.
     if report = [] then alift Panic
     else if hd report \<noteq> 4 then alift (Err UnexpectedReportId)
     else aret (tl report))"

text \<open>The data reports, all written from one buffer of 1025 bytes that starts with the id 2.\<close>

fun write_chunks :: "('h, 'e) hid \<Rightarrow> bytes \<Rightarrow> bytes list \<Rightarrow> ('h, 'e usd_error, unit) act" where
  "write_chunks H report [] = aret ()"
| "write_chunks H report (c # cs) =
     (let report' = put_slice report 1 c in
      abind (hid_write H (take (length c + 1) report')) (\<lambda>_. write_chunks H report' cs))"

definition data_report :: bytes where
  "data_report = 2 # replicate 1024 0"

definition dcd_write_cmd :: "('h, 'e) hid \<Rightarrow> u32 \<Rightarrow> bytes \<Rightarrow> ('h, 'e usd_error, unit) act" where
  "dcd_write_cmd H address d =
     abind (alift (oassert (length d < 2 ^ 32 - 1))) (\<lambda>_.
     abind (send_command H (DcdWrite address (of_nat (length d)))) (\<lambda>_.
     abind (write_chunks H data_report (chunks 1024 d)) (\<lambda>_.
     abind (check_sec_status H) (\<lambda>_.
     abind (read_response H) (\<lambda>resp.
     if take 4 resp \<noteq> RESP_WRITE_COMPLETE then alift (Err (NotAcknowledged resp)) else aret ())))))"

definition write_file :: "('h, 'e) hid \<Rightarrow> u32 \<Rightarrow> bytes \<Rightarrow> ('h, 'e usd_error, unit) act" where
  "write_file H address data =
     abind (alift (oassert (length data < 2 ^ 32 - 1))) (\<lambda>_.
     abind (send_command H (WriteFile address (of_nat (length data)))) (\<lambda>_.
     abind (write_chunks H data_report (chunks 1024 data)) (\<lambda>_.
     abind (check_sec_status H) (\<lambda>_.
     abind (read_response H) (\<lambda>resp.
     if take 4 resp \<noteq> RESP_COMPLETE then alift (Err (NotAcknowledged resp)) else aret ())))))"

definition jump_address :: "('h, 'e) hid \<Rightarrow> u32 \<Rightarrow> ('h, 'e usd_error, unit) act" where
  "jump_address H address =
     abind (send_command H (JumpAddress address)) (\<lambda>_. check_sec_status H)"

text \<open>\<^verbatim>\<open>array_ref!(resp, 1, 4)\<close> takes bytes 1 to 4 of the response without its report id.\<close>

definition read_memory :: "('h, 'e) hid \<Rightarrow> u32 \<Rightarrow> ('h, 'e usd_error, u32) act" where
  "read_memory H address =
     abind (alift (oassert (address mod 4 = 0))) (\<lambda>_.
     abind (send_command H (ReadRegister address B32 1)) (\<lambda>_.
     abind (check_sec_status H) (\<lambda>_.
     abind (read_response H) (\<lambda>resp.
     case slice_get resp 1 5 of
       None \<Rightarrow> alift Panic
     | Some b \<Rightarrow> aret (le32_of (b ! 0) (b ! 1) (b ! 2) (b ! 3))))))"

text \<open>Three attempts to open the device, a second apart (\<open>sleep\<close> is what time does to the state).\<close>

fun usd_open_loop :: "nat \<Rightarrow> ('h, 'e usd_error, 'd option) act \<Rightarrow> ('h \<Rightarrow> 'h) \<Rightarrow> ('h, 'e usd_error, 'd) act" where
  "usd_open_loop 0 dev_open sleep = alift (Err OpenTimeout)"
| "usd_open_loop (Suc n) dev_open sleep =
     abind dev_open (\<lambda>r. case r of
       Some d \<Rightarrow> aret d
     | None \<Rightarrow> (\<lambda>h. usd_open_loop n dev_open sleep (sleep h)))"

definition usd_open :: "('h, 'e usd_error, 'd option) act \<Rightarrow> ('h \<Rightarrow> 'h) \<Rightarrow> ('h, 'e usd_error, 'd) act" where
  "usd_open = usd_open_loop 3"

section \<open>The HID backends\<close>

text \<open>Milliseconds.\<close>

definition default_timeout :: nat where "default_timeout = 100"

record ('h, 'e) rusb =
  open_device :: "u16 \<Rightarrow> u16 \<Rightarrow> ('h, 'e, bool) act"
  set_auto_detach :: "bool \<Rightarrow> ('h, 'e, unit) act"
  claim_interface :: "u8 \<Rightarrow> ('h, 'e, unit) act"
  device_address :: "'h \<Rightarrow> u8"
  write_control :: "u8 \<Rightarrow> u8 \<Rightarrow> u16 \<Rightarrow> u16 \<Rightarrow> bytes \<Rightarrow> nat \<Rightarrow> ('h, 'e, nat) act"
  read_interrupt :: "u8 \<Rightarrow> nat \<Rightarrow> nat \<Rightarrow> ('h, 'e, bytes) act"

text \<open>The result of \<^verbatim>\<open>set_auto_detach_kernel_driver\<close> is dropped, whatever it is.\<close>

definition aignore :: "('h, 'e, unit) act \<Rightarrow> ('h, 'f, unit) act" where
  "aignore m = (\<lambda>h. (Ok (), snd (m h)))"

definition rusb_open :: "('h, 'e) rusb \<Rightarrow> ('h, 'e usd_error, u8 option) act" where
  "rusb_open R =
     abind (amap_err Hid (open_device R VID PID)) (\<lambda>found.
     if found then
       abind (aignore (set_auto_detach R True)) (\<lambda>_.
       abind (amap_err Hid (claim_interface R 0)) (\<lambda>_.
       (\<lambda>h. (Ok (Some (device_address R h)), h))))
     else aret None)"

definition rusb_hid :: "('h, 'e) rusb \<Rightarrow> ('h, 'e) hid" where
  "rusb_hid R =
     \<lparr>hid_read = (\<lambda>n. amap_err Hid (read_interrupt R 0x81 n default_timeout)),
      hid_write = (\<lambda>report. if report = [] then alift Panic
        else abind (amap_err Hid (write_control R 0x21 0x09 (push_bit 8 3 OR ucast (hd report)) 0
               report default_timeout)) (\<lambda>_. aret ()))\<rparr>"

text \<open>
  The devices that \<^verbatim>\<open>rusb\<close> lists, or its error: the descriptor of each (vendor and product), when it can be read, and its
  address. The loop of \<^verbatim>\<open>get_usb_address\<close> ends with the first descriptor that cannot be read.
\<close>

type_synonym 'e usb_list = "('e, (('e, u16 \<times> u16) outcome \<times> u8) list) outcome"

fun find_address :: "(('e, u16 \<times> u16) outcome \<times> u8) list \<Rightarrow> ('e usd_error, u8) outcome" where
  "find_address [] = Err AddressNotFound"
| "find_address ((desc, address) # ds) =
     obind (omap_err Hid desc) (\<lambda>d. if d = (VID, PID) then Ok address else find_address ds)"

definition get_usb_address :: "'e usb_list \<Rightarrow> ('e usd_error, u8) outcome" where
  "get_usb_address devs = obind (omap_err Hid devs) find_address"

record ('h, 'e) hidapi =
  api_new :: "('h, 'e, unit) act"
  api_open :: "u16 \<Rightarrow> u16 \<Rightarrow> ('h, 'e, unit) act"
  usb_list :: "'h \<Rightarrow> 'e usb_list"
  read_timeout :: "nat \<Rightarrow> nat \<Rightarrow> ('h, 'e, bytes) act"
  api_write :: "bytes \<Rightarrow> ('h, 'e, nat) act"

text \<open>Any error of \<^verbatim>\<open>api.open\<close> means that the device is not there (yet).\<close>

definition hidapi_open :: "('h, 'e) hidapi \<Rightarrow> ('h, 'e usd_error, u8 option) act" where
  "hidapi_open A =
     abind (amap_err Hid (api_new A)) (\<lambda>_. \<lambda>h. case api_open A VID PID h of
       (Ok _, h') \<Rightarrow> abind (alift (get_usb_address (usb_list A h'))) (\<lambda>address. aret (Some address)) h'
     | (Err _, h') \<Rightarrow> (Ok None, h')
     | (Panic, h') \<Rightarrow> (Panic, h')
     | (Reset, h') \<Rightarrow> (Reset, h')
     | (Hang, h') \<Rightarrow> (Hang, h'))"

definition hidapi_hid :: "('h, 'e) hidapi \<Rightarrow> ('h, 'e) hid" where
  "hidapi_hid A =
     \<lparr>hid_read = (\<lambda>n. abind (amap_err Hid (read_timeout A n default_timeout)) (\<lambda>b.
        if b = [] then alift (Err HidReadTimeout) else aret b)),
      hid_write = (\<lambda>d. abind (amap_err Hid (api_write A d)) (\<lambda>_. aret ()))\<rparr>"

fun other_address :: "u8 \<Rightarrow> (('e, u16 \<times> u16) outcome \<times> u8) list \<Rightarrow> bool" where
  "other_address last_address [] = False"
| "other_address last_address ((desc, address) # ds) =
     (desc = Ok (VID, PID) \<and> address \<noteq> last_address \<or> other_address last_address ds)"

definition has_been_reenumerated :: "'e usb_list \<Rightarrow> u8 \<Rightarrow> bool" where
  "has_been_reenumerated devs last_address =
     (case devs of Ok ds \<Rightarrow> other_address last_address ds | _ \<Rightarrow> False)"

section \<open>The tools\<close>

text \<open>
  \<^verbatim>\<open>usd-load\<close> from the bytes of the image on: the DCD, if the image has one, is sent first and
  its pointer in the image cleared.
\<close>

datatype 'e tool_error = ImageError image_error | ElfError elf_error | Usd "'e usd_error" | WriteError string

definition usd_load :: "profile \<Rightarrow> 'n nom \<Rightarrow> ('h, 'e) hid \<Rightarrow> bytes \<Rightarrow> ('h, 'e tool_error, unit) act" where
  "usd_load p N H bytes =
     abind (alift (omap_err ImageError (image_parse p N bytes))) (\<lambda>img.
     let address = ivt_self (image_ivt img) in
     abind (case image_dcd img of
              None \<Rightarrow> aret bytes
            | Some d \<Rightarrow>
                if length bytes < 16 then alift Panic
                else abind (amap_err Usd (dcd_write_cmd H OCRAM_FREE_ADDRESS (dcd_bytes d))) (\<lambda>_.
                     aret (put_slice bytes 12 [0, 0, 0, 0]))) (\<lambda>bytes.
     abind (amap_err Usd (write_file H address bytes)) (\<lambda>_.
     amap_err Usd (jump_address H address))))"

text \<open>\<^verbatim>\<open>usd-runner\<close> up to the jump: the image has no DCD; it is sent on a cold boot only.\<close>

definition usd_run :: "profile \<Rightarrow> ('h, 'e) hid \<Rightarrow> elf_file \<Rightarrow> bool \<Rightarrow> ('h, 'e tool_error, unit) act" where
  "usd_run p H elf cold_boot =
     abind (alift (omap_err ElfError (from_elf p elf True))) (\<lambda>img.
     abind (if cold_boot then
              abind (alift (omap_err WriteError (dcd_write p init_ddr))) (\<lambda>d.
              amap_err Usd (dcd_write_cmd H OCRAM_FREE_ADDRESS d))
            else aret ()) (\<lambda>_.
     abind (alift (omap_err WriteError (image_write p img))) (\<lambda>b.
     abind (amap_err Usd (write_file H self_address b)) (\<lambda>_.
     amap_err Usd (jump_address H self_address)))))"

section \<open>The bytes of a command\<close>

lemma command_bytes_simps [simp]:
  "command_bytes (DcdWrite a n) = [1, 0x0A, 0x0A] @ be32_bytes a @ [0] @ be32_bytes n @ [0, 0, 0, 0, 0]"
  "command_bytes (WriteFile a n) = [1, 0x04, 0x04] @ be32_bytes a @ [0] @ be32_bytes n @ [0, 0, 0, 0, 0]"
  "command_bytes ErrorStatus = [1, 0x05, 0x05] @ replicate 14 0"
  "command_bytes (JumpAddress a) = [1, 0x0B, 0x0B] @ be32_bytes a @ replicate 10 0"
  "command_bytes (ReadRegister a f n) =
     [1, 0x01, 0x01] @ be32_bytes a @ [format_num f] @ be32_bytes n @ [0, 0, 0, 0, 0]"
  "command_bytes SkipDcdHeader = [1, 0x0C, 0x0C] @ replicate 14 0"
  "command_bytes (WriteRegister a (U8 b)) =
     [1, 0x02, 0x02] @ be32_bytes a @ [0x08, 0, 0, 0, 0, b, 0, 0, 0, 0]"
  "command_bytes (WriteRegister a (U16 h)) =
     [1, 0x02, 0x02] @ be32_bytes a @ [0x10, 0, 0, 0, 0] @ le16_bytes h @ [0, 0, 0]"
  "command_bytes (WriteRegister a (U32 w)) =
     [1, 0x02, 0x02] @ be32_bytes a @ [0x20, 0, 0, 0, 0] @ le32_bytes w @ [0]"
  by (simp_all add: command_bytes_def cmd_address_def cmd_count_def cmd_format_def put_slice_def
      be32_bytes_def le32_bytes_def le16_bytes_def numeral_eq_Suc)

lemma command_cases:
  obtains (dcd_write) a n where "c = DcdWrite a n" | (error_status) "c = ErrorStatus"
  | (jump_address) a where "c = JumpAddress a" | (read_register) a f n where "c = ReadRegister a f n"
  | (skip_dcd) "c = SkipDcdHeader" | (write_file) a n where "c = WriteFile a n"
  | (write_u8) a b where "c = WriteRegister a (U8 b)" | (write_u16) a h where "c = WriteRegister a (U16 h)"
  | (write_u32) a w where "c = WriteRegister a (U32 w)"
proof (cases c)
  case (WriteRegister a d)
  then show ?thesis by (cases d) (auto intro: that)
qed (auto intro: that)

lemma length_command_bytes [simp]: "length (command_bytes c) = 17"
  by (cases c rule: command_cases) simp_all

lemma format_num_inject [simp]: "format_num f = format_num g \<longleftrightarrow> f = g"
  by (cases f; cases g) simp_all

lemma command_bytes_inject: "command_bytes c = command_bytes d \<longleftrightarrow> c = d"
  by (cases c rule: command_cases; cases d rule: command_cases) simp_all

section \<open>Recording the exchanges\<close>

text \<open>A device that notes what is sent to it and what it answers.\<close>

datatype sdp_event = Sent bytes | Received bytes

definition logged :: "('h, 'e) hid \<Rightarrow> ('h \<times> sdp_event list, 'e) hid" where
  "logged H =
     \<lparr>hid_read = (\<lambda>n (h, w). case hid_read H n h of
          (Ok b, h') \<Rightarrow> (Ok b, h', w @ [Received b]) | (r, h') \<Rightarrow> (r, h', w)),
      hid_write = (\<lambda>b (h, w). case hid_write H b h of (r, h') \<Rightarrow> (r, h', w @ [Sent b]))\<rparr>"

fun sent :: "sdp_event list \<Rightarrow> bytes list" where
  "sent [] = []" | "sent (Sent b # w) = b # sent w" | "sent (Received b # w) = sent w"

fun received :: "sdp_event list \<Rightarrow> bytes list" where
  "received [] = []" | "received (Sent b # w) = received w" | "received (Received b # w) = b # received w"

lemma sent_append [simp]: "sent (v @ w) = sent v @ sent w" "received (v @ w) = received v @ received w"
  by (induction v rule: sent.induct) auto

lemma logged_write:
  "hid_write (logged H) b (h, w) = (r, s) \<Longrightarrow> snd s = w @ [Sent b]"
  by (auto simp: logged_def split: prod.splits)

lemma logged_read_Ok:
  "hid_read (logged H) n s = (Ok b, s') \<Longrightarrow> snd s' = snd s @ [Received b]"
  by (auto simp: logged_def split: prod.splits outcome.splits)

lemma logged_read_sent: "hid_read (logged H) n s = (r, s') \<Longrightarrow> sent (snd s') = sent (snd s)"
  by (auto simp: logged_def split: prod.splits outcome.splits)

lemma take_report:
  assumes "length report = 1025" "report ! 0 = 2" "length c \<le> 1024"
  shows "take (length c + 1) (put_slice report 1 c) = 2 # c"
  using assms by (cases report) (simp_all add: put_slice_def)

lemma put_slice_report:
  assumes "length report = 1025" "report ! 0 = 2" "length c \<le> 1024"
  shows "length (put_slice report 1 c) = 1025" "put_slice report 1 c ! 0 = 2"
  using assms by (simp_all add: nth_put_slice)

lemma write_chunks_sent:
  assumes "write_chunks (logged H) report cs s = (r, s')"
    and "length report = 1025" "report ! 0 = 2" "\<forall>c \<in> set cs. length c \<le> 1024"
  shows "received (snd s') = received (snd s) \<and>
    (\<exists>ys. prefix ys (map ((#) 2) cs) \<and> sent (snd s') = sent (snd s) @ ys \<and>
      (r = Ok () \<longrightarrow> ys = map ((#) 2) cs))"
  using assms
proof (induction cs arbitrary: report s)
  case (Cons c cs)
  let ?rep = "put_slice report 1 c"
  have rep: "take (length c + 1) ?rep = 2 # c" "length ?rep = 1025" "?rep ! 0 = 2"
    using Cons.prems take_report put_slice_report by auto
  obtain r1 s1 where w: "hid_write (logged H) (2 # c) s = (r1, s1)"
    by (cases "hid_write (logged H) (2 # c) s")
  then have s1: "snd s1 = snd s @ [Sent (2 # c)]"
    using logged_write [of H "2 # c" "fst s" "snd s"] by simp
  show ?case
  proof (cases r1)
    case (Ok u)
    then have "write_chunks (logged H) ?rep cs s1 = (r, s')"
      using Cons.prems(1) rep(1) w by (simp add: Let_def)
    from Cons.IH [OF this rep(2,3)] Cons.prems(4) s1 show ?thesis by auto
  qed (use Cons.prems(1) rep(1) w s1 in \<open>auto simp: Let_def abind_def\<close>)
qed simp

section \<open>What an exchange sends and needs\<close>

definition acknowledged :: "bytes list \<Rightarrow> bytes \<Rightarrow> bool" where
  "acknowledged rs ack \<longleftrightarrow>
     (\<exists>pre rest. rs = pre @ [3 # SEC_OPEN, 4 # ack @ rest] \<and> length pre \<le> 1)"

lemma check_sec_status_logged:
  fixes H :: "('h, 'e) hid"
  assumes "check_sec_status (logged H) s = (r, s')"
  shows "sent (snd s') = sent (snd s)"
    and "r = Ok () \<Longrightarrow> \<exists>pre. received (snd s') = received (snd s) @ pre @ [3 # SEC_OPEN] \<and> length pre \<le> 1"
proof -
  show "sent (snd s') = sent (snd s)"
    using assms unfolding check_sec_status_def
    by (auto elim!: abind_cases dest!: logged_read_sent split: if_splits)
  assume "r = Ok ()"
  with assms have "check_sec_status (logged H) s = (Ok (), s')" by simp
  then obtain b1 s1 b2 s2 where first: "hid_read (logged H) 5 s = (Ok b1, s1)"
      and second: "(if length b1 = 1 then hid_read (logged H) 5 else aret b1) s1 = (Ok b2, s2)"
      and last: "(if b2 = [] then alift Panic
        else if hd b2 \<noteq> 3 \<or> tl b2 \<noteq> SEC_OPEN then alift (Err (HabClosed b2)) else aret ()) s2 = (Ok () :: ('e usd_error, unit) outcome, s')"
    unfolding check_sec_status_def abind_Ok_iff by (elim exE conjE) (erule (2) that)
  then have b2: "b2 = 3 # SEC_OPEN" "s2 = s'"
    by (cases b2; auto split: if_splits)+
  note f = logged_read_Ok [OF first]
  show "\<exists>pre. received (snd s') = received (snd s) @ pre @ [3 # SEC_OPEN] \<and> length pre \<le> 1"
  proof (cases "length b1 = 1")
    case True
    then have "hid_read (logged H) 5 s1 = (Ok b2, s')" using second b2(2) by simp
    from logged_read_Ok [OF this] f b2
    have "received (snd s') = received (snd s) @ [b1] @ [3 # SEC_OPEN]" by simp
    then show ?thesis by (intro exI [of _ "[b1]"]) simp
  next
    case False
    then have "received (snd s') = received (snd s) @ [] @ [3 # SEC_OPEN]" using second f b2 by simp
    then show ?thesis by (intro exI [of _ "[]"]) simp
  qed
qed

lemma read_response_logged:
  assumes "read_response (logged H) s = (r, s')"
  shows "sent (snd s') = sent (snd s)"
    and "r = Ok resp \<Longrightarrow> received (snd s') = received (snd s) @ [4 # resp]"
proof -
  show "sent (snd s') = sent (snd s)"
    using assms unfolding read_response_def
    by (auto elim!: abind_cases dest!: logged_read_sent split: if_splits)
  assume "r = Ok resp"
  with assms show "received (snd s') = received (snd s) @ [4 # resp]"
    unfolding read_response_def
    by (auto simp: abind_Ok_iff neq_Nil_conv dest!: logged_read_Ok split: if_splits)
qed

text \<open>The part that \<open>dcd_write_cmd\<close> and \<open>write_file\<close> have in common.\<close>

definition send_data :: "('h, 'e) hid \<Rightarrow> command \<Rightarrow> bytes \<Rightarrow> bytes \<Rightarrow> ('h, 'e usd_error, unit) act" where
  "send_data H cmd d ack =
     abind (send_command H cmd) (\<lambda>_.
     abind (write_chunks H data_report (chunks 1024 d)) (\<lambda>_.
     abind (check_sec_status H) (\<lambda>_.
     abind (read_response H) (\<lambda>resp.
     if take 4 resp \<noteq> ack then alift (Err (NotAcknowledged resp)) else aret ()))))"

lemma send_data_logged:
  assumes "send_data (logged H) cmd d ack s = (r, s')" "length ack = 4"
  shows "(\<exists>ys. prefix ys (command_bytes cmd # map ((#) 2) (chunks 1024 d)) \<and>
      sent (snd s') = sent (snd s) @ ys) \<and>
    (r = Ok () \<longrightarrow> sent (snd s') = sent (snd s) @ command_bytes cmd # map ((#) 2) (chunks 1024 d) \<and>
      (\<exists>rs. received (snd s') = received (snd s) @ rs \<and> acknowledged rs ack))"
proof -
  obtain r1 s1 where c: "hid_write (logged H) (command_bytes cmd) s = (r1, s1)"
    by (cases "hid_write (logged H) (command_bytes cmd) s")
  then have s1: "snd s1 = snd s @ [Sent (command_bytes cmd)]"
    using logged_write [of H "command_bytes cmd" "fst s" "snd s"] by simp
  show ?thesis
  proof (cases r1)
    case (Ok u)
    obtain r2 s2 where w: "write_chunks (logged H) data_report (chunks 1024 d) s1 = (r2, s2)"
      by (cases "write_chunks (logged H) data_report (chunks 1024 d) s1")
    have rep: "length data_report = 1025" "data_report ! 0 = 2"
        "\<forall>c \<in> set (chunks 1024 d). length c \<le> 1024"
      using chunks_length_le by (auto simp: data_report_def)
    note wc = write_chunks_sent [OF w rep]
    then obtain ys where ys: "prefix ys (map ((#) 2) (chunks 1024 d))" "sent (snd s2) = sent (snd s1) @ ys"
        "r2 = Ok () \<longrightarrow> ys = map ((#) 2) (chunks 1024 d)" "received (snd s2) = received (snd s1)"
      by blast
    show ?thesis
    proof (cases r2)
      case (Ok v)
      obtain r3 s3 where k: "check_sec_status (logged H) s2 = (r3, s3)"
        by (cases "check_sec_status (logged H) s2")
      note ck = check_sec_status_logged [OF k]
      obtain r4 s4 where q: "read_response (logged H) s3 = (r4, s4)"
        by (cases "read_response (logged H) s3")
      note rr = read_response_logged [OF q]
      have sent4: "sent (snd s') = sent (snd s2)"
        using assms(1) \<open>r1 = Ok u\<close> Ok c w k q ck(1) rr(1)
        by (cases r3; cases r4) (auto simp: send_data_def send_command_def abind_def split: if_splits)
      have "\<exists>rs. received (snd s') = received (snd s) @ rs \<and> acknowledged rs ack" if "r = Ok ()"
      proof -
        have "r3 = Ok ()" "\<exists>resp. r4 = Ok resp \<and> take 4 resp = ack" "s' = s4"
          using that assms(1) \<open>r1 = Ok u\<close> Ok c w k q
          by (cases r3; cases r4; auto simp: send_data_def send_command_def abind_def split: if_splits)+
        then obtain resp pre where resp: "r4 = Ok resp" "take 4 resp = ack"
            and pre: "received (snd s3) = received (snd s2) @ pre @ [3 # SEC_OPEN]" "length pre \<le> 1"
          using ck(2) by blast
        have "resp = ack @ drop 4 resp" using resp(2) append_take_drop_id [of 4 resp] by simp
        then have "received (snd s') = received (snd s) @ (pre @ [3 # SEC_OPEN, 4 # ack @ drop 4 resp])"
          using rr(2) [OF resp(1)] pre(1) ys(4) s1 \<open>s' = s4\<close> by simp
        moreover have "acknowledged (pre @ [3 # SEC_OPEN, 4 # ack @ drop 4 resp]) ack"
          using pre(2) by (auto simp: acknowledged_def)
        ultimately show ?thesis by blast
      qed
      then show ?thesis
        using sent4 ys s1 Ok by (auto intro: exI [of _ "command_bytes cmd # ys"])
    qed (use assms(1) Ok c w ys s1 in \<open>auto simp: send_data_def send_command_def abind_def\<close>)
  qed (use assms(1) c s1 in \<open>auto simp: send_data_def send_command_def abind_def\<close>)
qed

lemma write_file_send_data:
  "length d < 2 ^ 32 - 1 \<Longrightarrow>
    write_file H a d = send_data H (WriteFile a (of_nat (length d))) d RESP_COMPLETE"
  "length d < 2 ^ 32 - 1 \<Longrightarrow>
    dcd_write_cmd H a d = send_data H (DcdWrite a (of_nat (length d))) d RESP_WRITE_COMPLETE"
  by (simp_all add: write_file_def dcd_write_cmd_def send_data_def)

text \<open>A device that always answers as an open i.MX6 does, for the examples.\<close>

fun obliging_answer :: "bytes \<Rightarrow> bytes" where
  "obliging_answer (i # t # rest) =
     4 # (if t = 0x04 then RESP_COMPLETE else RESP_WRITE_COMPLETE) @ replicate 60 0"
| "obliging_answer b = []"

definition obliging :: "(bytes \<times> bool, unit) hid" where
  "obliging =
     \<lparr>hid_read = (\<lambda>n (last, sec). if sec then (Ok (obliging_answer last), (last, False))
        else (Ok (3 # SEC_OPEN), (last, True))),
      hid_write = (\<lambda>b (last, sec). (Ok (), (if hd b = 1 then b else last, False)))\<rparr>"

section \<open>Properties\<close>

text \<open>
  The encoding of the SDP commands is unambiguous: two commands with the same 17 bytes are the
  same command with the same address, count, format and data.
\<close>

lemma command_bytes_injective:
  "(command_bytes c = command_bytes d \<longleftrightarrow> c = d) \<and> length (command_bytes c) = 17"
  by (simp add: command_bytes_inject)

text \<open>
  C23. \<^verbatim>\<open>write_file\<close> on any HID device: whatever happens, what was sent is an initial part of the
  command report followed by the data reports, whose payloads are the data in order. The call
  returns \<^verbatim>\<open>Ok\<close> only when all of it was sent and the device then reported the open security
  state and acknowledged the transfer.
\<close>

theorem write_file_exchange:
  assumes "length d < 2 ^ 32 - 1" "write_file (logged H) a d (h, []) = (r, (h', w))"
  shows "prefix (sent w) (command_bytes (WriteFile a (of_nat (length d))) # map ((#) 2) (chunks 1024 d)) \<and>
    concat (chunks 1024 d) = d \<and>
    (r = Ok () \<longrightarrow> sent w = command_bytes (WriteFile a (of_nat (length d))) # map ((#) 2) (chunks 1024 d) \<and>
       acknowledged (received w) RESP_COMPLETE)"
proof -
  have "send_data (logged H) (WriteFile a (of_nat (length d))) d RESP_COMPLETE (h, []) = (r, (h', w))"
    using assms(2) by (simp only: write_file_send_data(1) [OF assms(1)])
  from send_data_logged [OF this] show ?thesis
    by (auto simp: RESP_COMPLETE_def)
qed

theorem write_file_exchange_witness:
  "sent (snd (snd (write_file (logged obliging) 0x80000400 [7, 8, 9] (([], False), [])))) =
     [[1, 4, 4, 0x80, 0, 4, 0, 0, 0, 0, 0, 3, 0, 0, 0, 0, 0], [2, 7, 8, 9]]"
proof -
  have ok: "fst (write_file (logged obliging) 0x80000400 [7, 8, 9] (([], False), [])) = Ok ()"
    by (simp add: write_file_def send_command_def logged_def obliging_def chunks_short data_report_def
        put_slice_def check_sec_status_def read_response_def abind_def SEC_OPEN_def RESP_COMPLETE_def
        command_bytes_simps)
  have "length [7, 8, 9 :: u8] < 2 ^ 32 - 1" by simp
  from write_file_exchange [OF this, where H = obliging and a = "0x80000400" and h = "([], False)"] ok
  show ?thesis
    by (cases "write_file (logged obliging) 0x80000400 [7, 8, 9] (([], False), [])")
      (auto simp: be32_bytes_def le32_bytes_def chunks_short)
qed

lemma le32_of_shifted: "le32_of (ucast (drop_bit 8 w)) (ucast (drop_bit 16 w)) (ucast (drop_bit 24 w)) 0
    = drop_bit 8 w"
proof -
  have "le32_of (ucast (drop_bit 8 w)) (ucast (drop_bit 8 (drop_bit 8 w)))
      (ucast (drop_bit 16 (drop_bit 8 w))) (ucast (drop_bit 24 (drop_bit 8 w))) = drop_bit 8 w"
    by (rule le32_of_bytes)
  moreover have "(ucast (drop_bit 24 (drop_bit 8 w)) :: u8) = 0"
    by (rule bit_word_eqI) (auto simp: bit_simps dest: bit_imp_le_length)
  ultimately show ?thesis by simp
qed

text \<open>
  \<^verbatim>\<open>read_memory\<close> drops the first byte of the word: the response has already lost its report
  id when \<^verbatim>\<open>array_ref!(resp, 1, 4)\<close> skips one more byte, so for a device that answers with the
  word \<open>w\<close> followed by zeros the caller gets \<open>w\<close> shifted right by eight bits.
\<close>

lemma read_memory_shifted:
  assumes "a mod 4 = 0" "hid_write H (command_bytes (ReadRegister a B32 1)) h = (Ok (), h1)"
    and "check_sec_status H h1 = (Ok (), h2)"
    and "hid_read H 65 h2 = (Ok (4 # le32_bytes w @ 0 # rest), h3)"
  shows "read_memory H a h = (Ok (drop_bit 8 w), h3)"
  using assms
  by (simp add: read_memory_def send_command_def read_response_def slice_get_def le32_bytes_def
      le32_of_shifted del: command_bytes_simps)

lemma read_memory_shifted_witness:
  "read_memory \<lparr>hid_read = (\<lambda>n b. if b then (Ok (4 # le32_bytes 0x12345678 @ 0 # replicate 60 0), b)
       else (Ok (3 # SEC_OPEN), True)), hid_write = (\<lambda>d b. (Ok () :: (unit usd_error, unit) outcome, False))\<rparr> 0x00910000 False
     = (Ok 0x123456, True)"
proof -
  let ?H = "\<lparr>hid_read = (\<lambda>n b. if b then (Ok (4 # le32_bytes 0x12345678 @ 0 # replicate 60 0), b)
       else (Ok (3 # SEC_OPEN), True)), hid_write = (\<lambda>d b. (Ok () :: (unit usd_error, unit) outcome, False))\<rparr>"
  have "check_sec_status ?H False = (Ok (), True)"
    by (simp add: check_sec_status_def SEC_OPEN_def)
  then show ?thesis
    using read_memory_shifted [of "0x00910000" ?H False False True "0x12345678" "replicate 60 0" True]
    by simp
qed

section \<open>Loading an image\<close>

definition loaded_bytes :: "wimage \<Rightarrow> bytes" where
  "loaded_bytes img = (if wdcd img = None then image_bytes img
     else put_slice (image_bytes img) 12 [0, 0, 0, 0])"

lemma ivt_with_dcd_cleared:
  assumes "ivt_header v = ivt_header_default"
  shows "put_slice (ivt_write v @ rest) 12 [0, 0, 0, 0] = ivt_write (v\<lparr>dcd := 0\<rparr>) @ rest"
  by (simp add: put_slice_def ivt_write_def header_write_def be16_bytes_def le32_bytes_def)

lemma loaded_bytes_ivt:
  "loaded_bytes img = ivt_write ((image_ivt_of img)\<lparr>dcd := 0\<rparr>) @ drop 32 (image_bytes img)"
proof (cases "wdcd img")
  case None
  then have "(image_ivt_of img)\<lparr>dcd := 0\<rparr> = image_ivt_of img" by (simp add: image_ivt_of_def)
  then show ?thesis using None by (simp add: loaded_bytes_def image_bytes_def)
next
  case (Some ws)
  have "ivt_header (image_ivt_of img) = ivt_header_default" by (simp add: image_ivt_of_def)
  from ivt_with_dcd_cleared [OF this] Some show ?thesis
    by (simp add: loaded_bytes_def image_bytes_def)
qed

lemma length_loaded_bytes: "image_fits img \<Longrightarrow> length (loaded_bytes img) = 1024 + length (app img)"
  by (simp add: loaded_bytes_ivt image_bytes_split(1))

definition exchange_reports :: "command \<Rightarrow> bytes \<Rightarrow> bytes list" where
  "exchange_reports cmd d = command_bytes cmd # map ((#) 2) (chunks 1024 d)"

lemma write_file_logged_Ok:
  assumes "write_file (logged H) a d s = (Ok (), s')" "length d < 2 ^ 32 - 1"
  shows "sent (snd s') = sent (snd s) @ exchange_reports (WriteFile a (of_nat (length d))) d"
  using assms(1) send_data_logged [of H "WriteFile a (of_nat (length d))" d RESP_COMPLETE s "Ok ()" s']
  unfolding write_file_send_data(1) [OF assms(2)] by (simp add: exchange_reports_def RESP_COMPLETE_def)

lemma dcd_write_logged_Ok:
  assumes "dcd_write_cmd (logged H) a d s = (Ok (), s')" "length d < 2 ^ 32 - 1"
  shows "sent (snd s') = sent (snd s) @ exchange_reports (DcdWrite a (of_nat (length d))) d"
  using assms(1) send_data_logged [of H "DcdWrite a (of_nat (length d))" d RESP_WRITE_COMPLETE s "Ok ()" s']
  unfolding write_file_send_data(2) [OF assms(2)] by (simp add: exchange_reports_def RESP_WRITE_COMPLETE_def)

lemma jump_logged_Ok:
  assumes "jump_address (logged H) a s = (Ok (), s')"
  shows "sent (snd s') = sent (snd s) @ [command_bytes (JumpAddress a)]"
proof -
  from assms obtain u s1 where w: "hid_write (logged H) (command_bytes (JumpAddress a)) s = (Ok u, s1)"
      and c: "check_sec_status (logged H) s1 = (Ok (), s')"
    unfolding jump_address_def send_command_def abind_Ok_iff by (elim exE conjE) (erule (1) that)
  show ?thesis
    using check_sec_status_logged(1) [OF c]
      logged_write [of H "command_bytes (JumpAddress a)" "fst s" "snd s" "Ok u" s1] w
    by (simp del: command_bytes_simps)
qed

text \<open>
  C30. \<^verbatim>\<open>usd-load\<close> on a written image: when it succeeds, the device was sent the DCD of the image, if
  it has one, to the free OCRAM, then the image with the DCD pointer cleared, and last the jump
  to the IVT; and the IVT the device gets parses to the one of the image without a DCD.
\<close>

theorem usd_load_sends:
  assumes "nom_docs N" "image_fits img"
    and "usd_load p N (logged H) (image_bytes img) (h, []) = (Ok (), (h', w))"
  shows "sent w =
      (case wdcd img of None \<Rightarrow> []
       | Some ws \<Rightarrow> exchange_reports (DcdWrite OCRAM_FREE_ADDRESS (of_nat (8 + 8 * length ws))) (dcd_bytes_of ws)) @
      exchange_reports (WriteFile 0x80000400 (of_nat (1024 + length (app img)))) (loaded_bytes img) @
      [command_bytes (JumpAddress 0x80000400)] \<and>
    ivt_parse N (loaded_bytes img) = Ok (drop 32 (image_bytes img), (image_ivt_of img)\<lparr>dcd := 0\<rparr>)"
proof -
  have parse: "image_parse p N (image_bytes img) = Ok (reread_image img)"
    using assms(1,2) by (rule nom_docs.image_reread)
  have self: "ivt_self (image_ivt_of img) = 0x80000400" by (rule image_offsets)
  have len: "length (image_bytes img) < 2 ^ 32 - 1" "\<not> length (image_bytes img) < 16"
    using image_bytes_split(1) [OF assms(2)] assms(2) by (auto simp: image_fits_def)
  have sent_file: "sent (snd s') = sent (snd s) @
        exchange_reports (WriteFile 0x80000400 (of_nat (1024 + length (app img)))) (loaded_bytes img)"
    if "write_file (logged H) 0x80000400 (loaded_bytes img) s = (Ok (), s')" for s s'
    using write_file_logged_Ok [OF that] len(1) length_loaded_bytes [OF assms(2)]
      image_bytes_split(1) [OF assms(2)] by simp
  have ivt: "ivt_parse N (loaded_bytes img) = Ok (drop 32 (image_bytes img), (image_ivt_of img)\<lparr>dcd := 0\<rparr>)"
    using assms(1) by (simp add: loaded_bytes_ivt nom_docs.ivt_roundtrip image_ivt_of_def)
  show ?thesis
  proof (cases "wdcd img")
    case None
    then have l: "loaded_bytes img = image_bytes img" by (simp add: loaded_bytes_def)
    from assms(3) obtain s1 where "write_file (logged H) 0x80000400 (loaded_bytes img) (h, []) = (Ok (), s1)"
        and "jump_address (logged H) 0x80000400 s1 = (Ok (), (h', w))"
      by (auto simp: usd_load_def parse reread_image_def self None l Let_def abind_Ok_iff)
    from sent_file [OF this(1)] jump_logged_Ok [OF this(2)] None ivt show ?thesis by simp
  next
    case (Some ws)
    then have l: "loaded_bytes img = put_slice (image_bytes img) 12 [0, 0, 0, 0]"
      by (simp add: loaded_bytes_def)
    from assms(3) obtain s0 s1 where
        dcd: "dcd_write_cmd (logged H) OCRAM_FREE_ADDRESS (dcd_bytes_of ws) (h, []) = (Ok (), s0)"
        and "write_file (logged H) 0x80000400 (loaded_bytes img) s0 = (Ok (), s1)"
        and "jump_address (logged H) 0x80000400 s1 = (Ok (), (h', w))"
      using len by (auto simp: usd_load_def parse reread_image_def self Some l Let_def abind_Ok_iff
          split: if_splits)
    moreover have "length (dcd_bytes_of ws) < 2 ^ 32 - 1"
      using assms(2) Some by (simp add: image_fits_def)
    ultimately show ?thesis
      using sent_file [of s0 s1] jump_logged_Ok [of H "0x80000400" s1] dcd_write_logged_Ok [OF dcd] Some ivt
      by (simp del: command_bytes_simps)
  qed
qed

definition tiny_image :: wimage where
  "tiny_image = \<lparr>app = [], wdcd = None, wentry = 0x80000800\<rparr>"

lemma obliging_write:
  "hid_write (logged obliging) b ((l, sec), w) = (Ok (), ((if hd b = 1 then b else l, False), w @ [Sent b]))"
  by (simp add: logged_def obliging_def)

lemma obliging_chunks:
  assumes "length report = 1025" "report ! 0 = 2" "\<forall>c \<in> set cs. length c \<le> 1024"
  shows "\<exists>w'. write_chunks (logged obliging) report cs ((l, False), w) = (Ok (), ((l, False), w'))"
  using assms
proof (induction cs arbitrary: report w)
  case (Cons c cs)
  then have "take (length c + 1) (put_slice report 1 c) = 2 # c"
    by (intro take_report) auto
  then show ?case
    using Cons.prems Cons.IH [of "put_slice report 1 c" "w @ [Sent (2 # c)]"] put_slice_report [of report c]
    by (simp add: Let_def obliging_write)
qed simp

lemma obliging_send_data:
  assumes "cmd = WriteFile a n \<and> ack = RESP_COMPLETE \<or> cmd = DcdWrite a n \<and> ack = RESP_WRITE_COMPLETE"
  shows "\<exists>l w'. send_data (logged obliging) cmd d ack ((l0, b), w) = (Ok (), ((l, False), w'))"
proof -
  have "\<forall>c \<in> set (chunks 1024 d). length c \<le> 1024" using chunks_length_le by blast
  then obtain w1 where "write_chunks (logged obliging) data_report (chunks 1024 d)
      ((command_bytes cmd, False), w @ [Sent (command_bytes cmd)]) = (Ok (), ((command_bytes cmd, False), w1))"
    using obliging_chunks [of data_report "chunks 1024 d" "command_bytes cmd"] by (auto simp: data_report_def)
  then show ?thesis
    using assms
    by (auto simp: send_data_def send_command_def obliging_write check_sec_status_def read_response_def
        logged_def obliging_def SEC_OPEN_def RESP_COMPLETE_def RESP_WRITE_COMPLETE_def)
qed

lemma tiny_load:
  "\<exists>h w. usd_load Dev nom_ref (logged obliging) (image_bytes tiny_image) (([], False), []) = (Ok (), (h, w))"
proof -
  have fits: "image_fits tiny_image" by (simp add: tiny_image_def image_fits_def)
  have len: "length (image_bytes tiny_image) < 2 ^ 32 - 1"
    using image_bytes_split(1) [OF fits] by (simp add: tiny_image_def)
  have parse: "image_parse Dev nom_ref (image_bytes tiny_image) = Ok (reread_image tiny_image)"
    using nomref.image_reread [OF fits] .
  obtain l w where "write_file (logged obliging) 0x80000400 (image_bytes tiny_image) (([], False), [])
      = (Ok (), ((l, False), w))"
    using obliging_send_data [of "WriteFile 0x80000400 (of_nat (length (image_bytes tiny_image)))"
        "0x80000400" "of_nat (length (image_bytes tiny_image))" RESP_COMPLETE]
    unfolding write_file_send_data(1) [OF len] by blast
  then have sent_file: "amap_err Usd (write_file (logged obliging) 0x80000400 (image_bytes tiny_image)) (([], False), [])
      = (Ok (), ((l, False), w))"
    by simp
  obtain h w' where "jump_address (logged obliging) 0x80000400 ((l, False), w) = (Ok (), (h, w'))"
    by (simp add: jump_address_def send_command_def obliging_write check_sec_status_def)
      (simp add: logged_def obliging_def SEC_OPEN_def)
  then have "amap_err Usd (jump_address (logged obliging) 0x80000400) ((l, False), w) = (Ok (), (h, w'))"
    by simp
  moreover have "wdcd tiny_image = None" by (simp add: tiny_image_def)
  ultimately show ?thesis
    using sent_file by (simp add: usd_load_def parse reread_image_def image_offsets Let_def)
qed

theorem usd_load_sends_witness:
  "sent (snd (snd (usd_load Dev nom_ref (logged obliging) (image_bytes tiny_image) (([], False), []))))
     = exchange_reports (WriteFile 0x80000400 1024) (image_bytes tiny_image) @
       [command_bytes (JumpAddress 0x80000400)]"
proof -
  have fits: "image_fits tiny_image" by (simp add: tiny_image_def image_fits_def)
  obtain h w where run: "usd_load Dev nom_ref (logged obliging) (image_bytes tiny_image) (([], False), [])
      = (Ok (), (h, w))"
    using tiny_load by blast
  show ?thesis
    using usd_load_sends [OF nomref.nom_docs_axioms fits run] run
    by (simp add: tiny_image_def loaded_bytes_def del: command_bytes_simps)
qed

end
