(* ===== verification/Tools.thy ===== *)
theory Tools
  imports Sdp Mmio "HOL-Library.Multiset" "HOL-Library.List_Lexorder" "HOL-Library.Char_ord"
begin

text \<open>
  The command line tools on the host: \<^verbatim>\<open>elf2image\<close> and \<^verbatim>\<open>parse-image\<close> of \<^verbatim>\<open>host/image\<close>, \<^verbatim>\<open>usd-load\<close> and
  \<^verbatim>\<open>usd-runner\<close> of \<^verbatim>\<open>host/usd\<close>, from their arguments to their results, and the C function of \<^verbatim>\<open>common/c-stubs\<close>. The
  parser of ELF files is a parameter.
\<close>

section \<open>Paths and files\<close>

fun split_on :: "char \<Rightarrow> string \<Rightarrow> string list" where
  "split_on c [] = [[]]"
| "split_on c (x # xs) =
     (if x = c then [] # split_on c xs
      else case split_on c xs of [] \<Rightarrow> [[x]] | w # ws \<Rightarrow> (x # w) # ws)"

text \<open>\<^verbatim>\<open>Path::file_name\<close>: the last component, unless it is \<^verbatim>\<open>..\<close>.\<close>

definition file_name :: "string \<Rightarrow> string option" where
  "file_name path =
     (case rev (filter (\<lambda>c. c \<noteq> [] \<and> c \<noteq> ''.'') (split_on CHR ''/'' path)) of
        [] \<Rightarrow> None
      | c # _ \<Rightarrow> if c = ''..'' then None else Some c)"

text \<open>What is before the last dot of a name; all of it if there is no dot, or none but the first character.\<close>

definition name_stem :: "string \<Rightarrow> string" where
  "name_stem name =
     (if CHR ''.'' \<notin> set name then name
      else let before = rev (tl (dropWhile (\<lambda>c. c \<noteq> CHR ''.'') (rev name))) in if before = [] then name else before)"

definition file_stem :: "string \<Rightarrow> string option" where
  "file_stem path = map_option name_stem (file_name path)"

text \<open>\<^verbatim>\<open>with_extension\<close> on a path of one component.\<close>

definition with_extension :: "string \<Rightarrow> string \<Rightarrow> string" where
  "with_extension path ext = (case file_stem path of None \<Rightarrow> path | Some s \<Rightarrow> s @ ''.'' @ ext)"

record host_fs =
  files :: "string \<Rightarrow> bytes option"
  may_create :: "string \<Rightarrow> bool"

datatype cli_error =
  ArgumentCount | NoStem | CannotRead | CannotCreate | BadElf string | FromElf elf_error | BadImage image_error
| CannotWrite string

definition fs_read_file :: "string \<Rightarrow> (host_fs, cli_error, bytes) act" where
  "fs_read_file path = (\<lambda>fs. (case files fs path of None \<Rightarrow> Err CannotRead | Some b \<Rightarrow> Ok b, fs))"

definition fs_create_file :: "string \<Rightarrow> (host_fs, cli_error, unit) act" where
  "fs_create_file path = (\<lambda>fs. if may_create fs path then (Ok (), fs\<lparr>files := (files fs)(path \<mapsto> [])\<rparr>) else (Err CannotCreate, fs))"

text \<open>What the file holds when writing the image panics half-way is left out.\<close>

definition fs_write_image :: "profile \<Rightarrow> string \<Rightarrow> wimage \<Rightarrow> (host_fs, cli_error, unit) act" where
  "fs_write_image p path img =
     abind (alift (omap_err CannotWrite (image_write p img))) (\<lambda>b. \<lambda>fs. (Ok (), fs\<lparr>files := (files fs)(path \<mapsto> b)\<rparr>))"

section \<open>elf2image and parse-image\<close>

definition elf2image_main ::
  "(bytes \<Rightarrow> (string, elf_file) outcome) \<Rightarrow> profile \<Rightarrow> string list \<Rightarrow> (host_fs, cli_error, unit) act" where
  "elf2image_main parse_elf p args =
     (case args of
        [path] \<Rightarrow>
          abind (alift (case file_stem path of None \<Rightarrow> Err NoStem | Some s \<Rightarrow> Ok s)) (\<lambda>stem.
          abind (fs_read_file path) (\<lambda>bytes.
          abind (alift (omap_err BadElf (parse_elf bytes))) (\<lambda>elf.
          abind (alift (omap_err FromElf (from_elf p elf False))) (\<lambda>img.
          abind (fs_create_file (with_extension stem ''bin'')) (\<lambda>_.
          fs_write_image p (with_extension stem ''bin'') img)))))
      | _ \<Rightarrow> alift (Err ArgumentCount))"

text \<open>The result is the image that is printed.\<close>

definition parse_image_main :: "'n nom \<Rightarrow> profile \<Rightarrow> string list \<Rightarrow> (host_fs, cli_error, image) act" where
  "parse_image_main N p args =
     (case args of
        [path] \<Rightarrow> abind (fs_read_file path) (\<lambda>bytes. alift (omap_err BadImage (image_parse p N bytes)))
      | _ \<Rightarrow> alift (Err ArgumentCount))"

lemma from_elf_length: "from_elf p elf skip = Ok img \<Longrightarrow> length (app img) < 2 ^ 32"
proof -
  assume "from_elf p elf skip = Ok img"
  then obtain st en :: u32 and buf where "copy_pass p st (replicate (unat en - unat st) 0) (elf_pieces elf) = Ok buf" "app img = buf"
    by (auto simp: from_elf_def elim!: obind_OkE split: if_splits)
  then have "length (app img) = unat en - unat st" using copy_pass_length by force
  then show ?thesis using unat_less_exp [of en] by simp
qed

text \<open>The file names do not depend on what is between the first dot and the last.\<close>

lemma elf2image_names:
  "map (\<lambda>path. map_option (\<lambda>s. with_extension s ''bin'') (file_stem path)) [''out/app.elf'', ''app.v1.elf'', ''app.v2.elf'', ''..''] =
     [Some ''app.bin'', Some ''app.bin'', Some ''app.bin'', None]"
  by (simp add: file_stem_def file_name_def name_stem_def with_extension_def)

text \<open>
  C28. From an ELF file to an image that can be read: when \<^verbatim>\<open>elf2image\<close> succeeds, one file is new or replaced, with the name of
  the input and the extension \<^verbatim>\<open>bin\<close>; it holds the image of the ELF file, the DCD included, in the layout for the eMMC (the
  application after the reserved kilobyte); and \<^verbatim>\<open>parse-image\<close> reads back from it what was written.
\<close>

theorem elf2image_output:
  assumes "nom_docs N" "elf2image_main parse_elf Dev [path] fs = (Ok (), fs')"
  shows "\<exists>stem bytes elf img. file_stem path = Some stem \<and> files fs path = Some bytes \<and> parse_elf bytes = Ok elf \<and>
    from_elf Dev elf False = Ok img \<and> wdcd img = Some init_ddr \<and> drop (unat RESERVED) (image_bytes img) = app img \<and>
    files fs' = (files fs)(with_extension stem ''bin'' \<mapsto> image_bytes img) \<and>
    parse_image_main N p [with_extension stem ''bin''] fs' = (Ok (reread_image img), fs')"
proof -
  obtain stem bytes elf img b where s: "file_stem path = Some stem" "files fs path = Some bytes" "parse_elf bytes = Ok elf"
      and f: "from_elf Dev elf False = Ok img" and w: "image_write Dev img = Ok b"
      and fs': "files fs' = (files fs)(with_extension stem ''bin'' \<mapsto> b)"
    using assms(2)
    by (auto simp: elf2image_main_def abind_Ok_iff fs_read_file_def fs_create_file_def fs_write_image_def split: option.splits if_splits)
  have fits: "image_fits img"
    using image_write_not_fits [OF from_elf_length [OF f]] w by (cases "image_fits img") auto
  then have b: "b = image_bytes img" using w image_write_fits by simp
  have "drop (unat RESERVED) (image_bytes img) = app img" using image_bytes_split [OF fits] by (simp add: RESERVED_def)
  moreover have "parse_image_main N p [with_extension stem ''bin''] fs' = (Ok (reread_image img), fs')"
    using nom_docs.image_reread [OF assms(1) fits, of p]
    by (simp add: parse_image_main_def fs_read_file_def abind_def fs' b)
  moreover have "wdcd img = Some init_ddr" using f by (auto simp: from_elf_def elim!: obind_OkE split: if_splits)
  ultimately show ?thesis using s f fs' b by blast
qed

definition one_file :: host_fs where
  "one_file = \<lparr>files = (\<lambda>_. None)(''app.elf'' \<mapsto> [0x7f]), may_create = (\<lambda>_. True)\<rparr>"

theorem elf2image_output_witness:
  "\<exists>fs' img. elf2image_main (\<lambda>_. Ok example_elf) Dev [''app.elf''] one_file = (Ok (), fs') \<and>
     parse_image_main nom_ref Release [''app.bin''] fs' = (Ok (reread_image img), fs') \<and>
     drop 1024 (image_bytes img) = [1, 2, 0, 0, 3, 4, 5, 0, 6]"
proof -
  define img where "img = \<lparr>app = [1, 2, 0, 0, 3, 4, 5, 0, 6], wdcd = Some init_ddr, wentry = 0x80000800\<rparr>"
  have "from_elf Dev example_elf False = Ok img"
    using example_elf_ok(1) by (auto simp: from_elf_def img_def elim!: obind_OkE split: if_splits)
  moreover have "image_fits img" by (simp add: image_fits_def img_def init_ddr_def)
  moreover have stem: "file_stem ''app.elf'' = Some ''app''" "with_extension ''app'' ''bin'' = ''app.bin''"
    by (simp_all add: file_stem_def file_name_def name_stem_def with_extension_def)
  ultimately obtain fs' where main: "elf2image_main (\<lambda>_. Ok example_elf) Dev [''app.elf''] one_file = (Ok (), fs')"
    by (simp add: elf2image_main_def abind_def fs_read_file_def fs_create_file_def fs_write_image_def one_file_def image_write_fits)
  from elf2image_output [OF nomref.nom_docs_axioms main, of Release] show ?thesis
    using main stem \<open>from_elf Dev example_elf False = Ok img\<close> by (auto simp: RESERVED_def img_def)
qed

section \<open>usd-load and usd-runner\<close>

text \<open>
  \<open>device\<close> makes the HID operations of an open device; opening it gives its USB address. Parsing is pure: that \<open>usd_load\<close> parses
  the bytes, too, makes no difference.
\<close>

datatype 'e run_error = Cli cli_error | Tool "'e tool_error" | Open "'e usd_error"

definition read_only :: "host_fs \<Rightarrow> (host_fs, cli_error, 'a) act \<Rightarrow> ('h, 'e run_error, 'a) act" where
  "read_only fs m = alift (omap_err Cli (fst (m fs)))"

definition usd_load_main :: "profile \<Rightarrow> 'n nom \<Rightarrow> host_fs \<Rightarrow> ('h, 'e usd_error, u8 option) act \<Rightarrow> ('h \<Rightarrow> 'h) \<Rightarrow> (u8 \<Rightarrow> ('h, 'e) hid) \<Rightarrow>
    string list \<Rightarrow> ('h, 'e run_error, unit) act" where
  "usd_load_main p N fs dev_open sleep device args =
     (case args of
        [path] \<Rightarrow>
          abind (read_only fs (fs_read_file path)) (\<lambda>bytes.
          abind (alift (omap_err (\<lambda>e. Tool (ImageError e)) (image_parse p N bytes))) (\<lambda>_.
          abind (amap_err Open (usd_open dev_open sleep)) (\<lambda>address.
          amap_err Tool (usd_load p N (device address) bytes))))
      | _ \<Rightarrow> alift (Err (Cli ArgumentCount)))"

text \<open>
  The last loop of \<^verbatim>\<open>usd-runner\<close>: until the device is back with another address, look every 100 ms; then wait twice as long
  for the output to be drained.
\<close>

definition poll_reset :: "('h \<Rightarrow> 'e usb_list) \<Rightarrow> ('h \<Rightarrow> 'h) \<Rightarrow> u8 \<Rightarrow> ('h, 'e run_error, unit) act" where
  "poll_reset devices sleep address =
     aloop (\<lambda>_. \<lambda>h. if has_been_reenumerated (devices h) address then (Ok (Inr ()), sleep (sleep h)) else (Ok (Inl ()), sleep h)) ()"

definition usd_runner_main :: "profile \<Rightarrow> (bytes \<Rightarrow> (string, elf_file) outcome) \<Rightarrow> host_fs \<Rightarrow> ('h, 'e usd_error, u8 option) act \<Rightarrow>
    ('h \<Rightarrow> 'h) \<Rightarrow> (u8 \<Rightarrow> ('h, 'e) hid) \<Rightarrow> ('h \<Rightarrow> 'e usb_list) \<Rightarrow> bool \<Rightarrow> string list \<Rightarrow> ('h, 'e run_error, unit) act" where
  "usd_runner_main p parse_elf fs dev_open sleep device devices cold_boot args =
     (case args of
        [path] \<Rightarrow>
          abind (read_only fs (fs_read_file path)) (\<lambda>bytes.
          abind (alift (omap_err (\<lambda>e. Cli (BadElf e)) (parse_elf bytes))) (\<lambda>elf.
          abind (amap_err Open (usd_open dev_open sleep)) (\<lambda>address.
          abind (amap_err Tool (usd_run p (device address) elf cold_boot)) (\<lambda>_.
          poll_reset devices sleep address))))
      | _ \<Rightarrow> alift (Err (Cli ArgumentCount)))"

lemma reenumerated_iff:
  "has_been_reenumerated (Ok ds) last_address \<longleftrightarrow> (\<exists>address. (Ok (VID, PID), address) \<in> set ds \<and> address \<noteq> last_address)"
proof -
  have "other_address last_address ds \<longleftrightarrow> (\<exists>address. (Ok (VID, PID), address) \<in> set ds \<and> address \<noteq> last_address)"
    by (induction last_address ds rule: other_address.induct) auto
  then show ?thesis by (simp add: has_been_reenumerated_def)
qed

text \<open>The loop ends at the first look that finds the device with a new address, and only then.\<close>

lemma poll_reset_ends:
  assumes "has_been_reenumerated (devices ((sleep ^^ n) h)) address"
    and "\<forall>k < n. \<not> has_been_reenumerated (devices ((sleep ^^ k) h)) address"
  shows "poll_reset devices sleep address h = (Ok (), (sleep ^^ (n + 2)) h)"
  using assms
proof (induction n arbitrary: h)
  case 0
  then show ?case by (simp add: poll_reset_def aloop_break)
next
  case (Suc n)
  have now: "\<not> has_been_reenumerated (devices h) address" using Suc.prems(2) by force
  have later: "\<forall>k < n. \<not> has_been_reenumerated (devices ((sleep ^^ k) (sleep h))) address"
  proof (intro allI impI)
    fix k
    assume "k < n"
    then have "\<not> has_been_reenumerated (devices ((sleep ^^ Suc k) h)) address" using Suc.prems(2) by blast
    then show "\<not> has_been_reenumerated (devices ((sleep ^^ k) (sleep h))) address" by (simp only: funpow_Suc_right o_apply not_False_eq_True)
  qed
  have "has_been_reenumerated (devices ((sleep ^^ n) (sleep h))) address"
    using Suc.prems(1) by (simp only: funpow_Suc_right o_apply)
  from Suc.IH [OF this later] have "poll_reset devices sleep address (sleep h) = (Ok (), (sleep ^^ (n + 2)) (sleep h))" .
  then have "poll_reset devices sleep address h = (Ok (), (sleep ^^ (n + 2)) (sleep h))"
    unfolding poll_reset_def using now by - (rule aloop_continue [where b' = "()" and s' = "sleep h"], simp_all)
  then show ?case by (simp only: add_Suc funpow_Suc_right o_apply)
qed

text \<open>
  The serial port that \<^verbatim>\<open>usd-runner\<close> copies to the console: the third, in the order of their names, of the ports of the USB
  bridge on the debug board. Copying what arrives there is not modelled.
\<close>

definition FTDI_VID :: u16 where "FTDI_VID = 0x0403"
definition FTDI_PID :: u16 where "FTDI_PID = 0x6011"
definition DEVNO :: nat where "DEVNO = 2"

record serial_port_info =
  port_usb :: "(u16 \<times> u16) option"
  port_name :: string

definition redirect_port :: "serial_port_info list \<Rightarrow> string option" where
  "redirect_port ports =
     (let candidates = sort (map port_name (filter (\<lambda>i. port_usb i = Some (FTDI_VID, FTDI_PID)) ports))
      in if DEVNO < length candidates then Some (candidates ! DEVNO) else None)"

lemma redirect_port_order:
  assumes "mset ports = mset ports'"
  shows "redirect_port ports = redirect_port ports'"
proof -
  have "mset (map port_name (filter P ports)) = mset (map port_name (filter P ports'))" for P
    using assms by (simp add: mset_filter)
  then have "sort (map port_name (filter P ports)) = sort (map port_name (filter P ports'))" for P
    by (metis properties_for_sort sorted_sort mset_sort)
  then show ?thesis by (simp add: redirect_port_def)
qed

section \<open>strcpy\<close>

text \<open>Memory is a map of addresses; \<^verbatim>\<open>memcpy\<close> does as the C standard says for areas that do not overlap.\<close>

definition strlen :: "(nat \<Rightarrow> u8) \<Rightarrow> nat \<Rightarrow> ('s, unit, nat) act" where
  "strlen m s = aloop (\<lambda>n. if m (s + n) \<noteq> 0 then aret (Inl (n + 1)) else aret (Inr n)) 0"

definition memcpy :: "nat \<Rightarrow> nat \<Rightarrow> nat \<Rightarrow> (nat \<Rightarrow> u8) \<Rightarrow> nat \<Rightarrow> u8" where
  "memcpy dst src n m = (\<lambda>a. if dst \<le> a \<and> a < dst + n then m (src + (a - dst)) else m a)"

definition strcpy :: "nat \<Rightarrow> nat \<Rightarrow> (nat \<Rightarrow> u8, unit, nat) act" where
  "strcpy dst src = (\<lambda>m. abind (strlen m src) (\<lambda>n. \<lambda>m. (Ok dst, memcpy dst src n m)) m)"

text \<open>
  A string of \<open>n\<close> bytes is copied without its terminating null byte: the byte of the destination behind the copy is what it
  was, so that the destination is in general no C string.
\<close>

lemma strlen_finds:
  assumes "m (s + n) = 0" "\<forall>k < n. m (s + k) \<noteq> 0"
  shows "strlen m s st = (Ok n, st)"
proof -
  let ?body = "\<lambda>n. if m (s + n) \<noteq> 0 then aret (Inl (n + 1)) else aret (Inr n)"
  have "k \<le> n \<Longrightarrow> aloop ?body k st = ((Ok n :: (unit, nat) outcome), st)" for k
  proof (induction "n - k" arbitrary: k)
    case 0
    then have "k = n" by simp
    then show ?case using assms(1) by (intro aloop_break) simp
  next
    case (Suc d)
    then have "aloop ?body (k + 1) st = ((Ok n :: (unit, nat) outcome), st)" "m (s + k) \<noteq> 0" using assms(2) by simp_all
    then show ?case by - (rule aloop_continue [where b' = "k + 1" and s' = st], simp_all)
  qed
  then show ?thesis by (simp add: strlen_def)
qed

lemma strcpy_unterminated:
  assumes "m (src + n) = 0" "\<forall>k < n. m (src + k) \<noteq> 0"
  shows "\<exists>m'. strcpy dst src m = (Ok dst, m') \<and> (\<forall>k < n. m' (dst + k) = m (src + k)) \<and> m' (dst + n) = m (dst + n)"
proof -
  have "strcpy dst src m = (Ok dst, memcpy dst src n m)"
    unfolding strcpy_def abind_Ok [where m = "strlen m src", OF strlen_finds [OF assms]] by (rule refl)
  moreover have "memcpy dst src n m (dst + k) = m (src + k)" if "k < n" for k using that by (simp add: memcpy_def)
  moreover have "memcpy dst src n m (dst + n) = m (dst + n)" by (simp add: memcpy_def)
  ultimately show ?thesis by blast
qed

end
