(* ===== verification/Usbc.thy ===== *)
theory Usbc
  imports Clock
begin

text \<open>
  \<^verbatim>\<open>host/usbc\<close>: a client on the host that finds the device, claims the interface with a pair of bulk endpoints, and
  exchanges one transfer each way per argument. The crate \<^verbatim>\<open>rusb\<close> is a parameter: the descriptors it reports are data, the
  calls on an open device are actions on a state.
\<close>

section \<open>Descriptors\<close>

datatype transfer_type = Control | Isochronous | Bulk | Interrupt

datatype bulk_direction = DirIn | DirOut

record ep_desc =
  ep_address :: u8
  ep_transfer_type :: transfer_type
  ep_direction :: bulk_direction
  ep_max_packet_size :: u16

record iface_desc =
  interface_number :: u8
  setting_number :: u8
  endpoint_descriptors :: "ep_desc list"

text \<open>An interface is the list of its settings.\<close>

record config_desc =
  config_number :: u8
  interfaces :: "iface_desc list list"

record device_desc =
  vendor_id :: u16
  product_id :: u16
  num_configurations :: u8

text \<open>\<open>RusbCode\<close> stands for the errors of \<^verbatim>\<open>rusb\<close> that the client does not name.\<close>

datatype rusb_error = NotSupported | RusbCode int

datatype usbc_error = Rusb rusb_error | NoArgument | NoInterface | NoDevice u16 u16

record 'h usb_device =
  device_descriptor :: "(rusb_error, device_desc) outcome"
  config_descriptor :: "u8 \<Rightarrow> (rusb_error, config_desc) outcome"
  open_usb :: "('h, rusb_error, unit) act"
  auto_detach :: "bool \<Rightarrow> ('h, rusb_error, unit) act"
  active_configuration :: "('h, rusb_error, u8) act"
  set_active_configuration :: "u8 \<Rightarrow> ('h, rusb_error, unit) act"
  claim_iface :: "u8 \<Rightarrow> ('h, rusb_error, unit) act"
  set_alternate_setting :: "u8 \<Rightarrow> u8 \<Rightarrow> ('h, rusb_error, unit) act"
  read_bulk :: "u8 \<Rightarrow> nat \<Rightarrow> duration \<Rightarrow> ('h, rusb_error, bytes) act"
  write_bulk :: "u8 \<Rightarrow> bytes \<Rightarrow> duration \<Rightarrow> ('h, rusb_error, nat) act"

section \<open>Opening\<close>

record 'h bulk_pair =
  in_ep_addr :: u8
  in_max_packet_size :: u16
  out_ep_addr :: u8
  out_max_packet_size :: u16
  handle :: "'h usb_device"
  timeout :: duration

text \<open>The loop over the endpoints: the last bulk endpoint of either direction, and how many there were.\<close>

fun scan_endpoints :: "ep_desc list \<Rightarrow> (u8 \<times> u16) option \<Rightarrow> (u8 \<times> u16) option \<Rightarrow> nat \<Rightarrow>
    (u8 \<times> u16) option \<times> (u8 \<times> u16) option \<times> nat" where
  "scan_endpoints [] in_ep out_ep seen = (in_ep, out_ep, seen)"
| "scan_endpoints (e # es) in_ep out_ep seen =
     (if ep_transfer_type e = Bulk then
        let ep = Some (ep_address e, ep_max_packet_size e)
        in if ep_direction e = DirIn then scan_endpoints es ep out_ep (seen + 1)
           else scan_endpoints es in_ep ep (seen + 1)
      else scan_endpoints es in_ep out_ep seen)"

text \<open>The first interface setting with exactly one pair.\<close>

fun find_setting :: "iface_desc list \<Rightarrow> (iface_desc \<times> (u8 \<times> u16) \<times> (u8 \<times> u16)) option" where
  "find_setting [] = None"
| "find_setting (i # is') =
     (case scan_endpoints (endpoint_descriptors i) None None 0 of
        (Some in_ep, Some out_ep, seen) \<Rightarrow> if seen \<noteq> 2 then find_setting is' else Some (i, in_ep, out_ep)
      | _ \<Rightarrow> find_setting is')"

fun find_config :: "'h usb_device \<Rightarrow> u8 list \<Rightarrow>
    (rusb_error, (config_desc \<times> iface_desc \<times> (u8 \<times> u16) \<times> (u8 \<times> u16)) option) outcome" where
  "find_config dev [] = Ok None"
| "find_config dev (i # is') =
     obind (config_descriptor dev i) (\<lambda>cfg.
     case find_setting (concat (interfaces cfg)) of
       Some x \<Rightarrow> Ok (Some (cfg, x))
     | None \<Rightarrow> find_config dev is')"

fun find_device :: "'h usb_device list \<Rightarrow> u16 \<Rightarrow> u16 \<Rightarrow> (rusb_error, ('h usb_device \<times> device_desc) option) outcome" where
  "find_device [] vid pid = Ok None"
| "find_device (d # ds) vid pid =
     obind (device_descriptor d) (\<lambda>desc.
     if vendor_id desc = vid \<and> product_id desc = pid then Ok (Some (d, desc)) else find_device ds vid pid)"

text \<open>\<^verbatim>\<open>.or_else(..)\<close>: a system without the function is not an error.\<close>

definition detach_kernel_driver :: "'h usb_device \<Rightarrow> ('h, rusb_error, unit) act" where
  "detach_kernel_driver dev = (\<lambda>h. case auto_detach dev True h of
     (Err e, h') \<Rightarrow> (if e = NotSupported then Ok () else Err e, h')
   | (r, h') \<Rightarrow> (r, h'))"

definition claim_setting :: "'h usb_device \<Rightarrow> config_desc \<Rightarrow> iface_desc \<Rightarrow> ('h, rusb_error, unit) act" where
  "claim_setting dev cfg i =
     abind (open_usb dev) (\<lambda>_.
     abind (detach_kernel_driver dev) (\<lambda>_.
     abind (active_configuration dev) (\<lambda>active.
     abind (if config_number cfg \<noteq> active then set_active_configuration dev (config_number cfg) else aret ()) (\<lambda>_.
     abind (claim_iface dev (interface_number i)) (\<lambda>_.
     set_alternate_setting dev (interface_number i) (setting_number i))))))"

text \<open>Twice the interval of USB frames, in nanoseconds.\<close>

definition usbc_timeout :: duration where "usbc_timeout = 2 * from_millis 1"

definition bulk_open :: "'h usb_device list \<Rightarrow> u16 \<Rightarrow> u16 \<Rightarrow> ('h, usbc_error, 'h bulk_pair) act" where
  "bulk_open devs vid pid =
     abind (alift (omap_err Rusb (find_device devs vid pid))) (\<lambda>found. case found of
       None \<Rightarrow> alift (Err (NoDevice vid pid))
     | Some (dev, desc) \<Rightarrow>
         abind (alift (omap_err Rusb (find_config dev (map of_nat [0..<unat (num_configurations desc)])))) (\<lambda>setting.
         case setting of
           None \<Rightarrow> alift (Err NoInterface)
         | Some (cfg, i, (in_addr, in_max), (out_addr, out_max)) \<Rightarrow>
             abind (amap_err Rusb (claim_setting dev cfg i)) (\<lambda>_.
             aret \<lparr>in_ep_addr = in_addr, in_max_packet_size = in_max, out_ep_addr = out_addr,
                   out_max_packet_size = out_max, handle = dev, timeout = usbc_timeout\<rparr>)))"

section \<open>Transfers\<close>

definition bulk_read :: "'h bulk_pair \<Rightarrow> nat \<Rightarrow> ('h, usbc_error, bytes) act" where
  "bulk_read b n = amap_err Rusb (read_bulk (handle b) (in_ep_addr b) n (timeout b))"

definition bulk_write :: "'h bulk_pair \<Rightarrow> bytes \<Rightarrow> ('h, usbc_error, unit) act" where
  "bulk_write b bytes =
     abind (alift (oassert (length bytes < unat (out_max_packet_size b)))) (\<lambda>_.
     abind (amap_err Rusb (write_bulk (handle b) (out_ep_addr b) bytes (timeout b))) (\<lambda>_. aret ()))"

definition set_timeout :: "duration \<Rightarrow> 'h bulk_pair \<Rightarrow> 'h bulk_pair" where
  "set_timeout t b = b\<lparr>timeout := t\<rparr>"

text \<open>The loop of \<^verbatim>\<open>main\<close>; the second part of the state is what was printed, one response per line.\<close>

definition on_usb :: "('h, 'e, 'a) act \<Rightarrow> ('h \<times> bytes list, 'e, 'a) act" where
  "on_usb m = (\<lambda>(h, out). case m h of (r, h') \<Rightarrow> (r, (h', out)))"

definition print_response :: "bytes \<Rightarrow> ('h \<times> bytes list, 'e, unit) act" where
  "print_response resp = (\<lambda>(h, out). (Ok (), (h, out @ [resp])))"

definition exchange :: "'h bulk_pair \<Rightarrow> bytes \<Rightarrow> ('h, usbc_error, bytes) act" where
  "exchange b msg = abind (bulk_write b msg) (\<lambda>_. bulk_read b (unat (in_max_packet_size b)))"

definition usbc_main :: "'h usb_device list \<Rightarrow> u16 \<Rightarrow> u16 \<Rightarrow> bytes list \<Rightarrow> ('h \<times> bytes list, usbc_error, unit) act" where
  "usbc_main devs vid pid args =
     (if args = [] then alift (Err NoArgument)
      else abind (on_usb (bulk_open devs vid pid)) (\<lambda>b.
        afor args (\<lambda>msg. abind (on_usb (exchange b msg)) print_response)))"

section \<open>The interface that is claimed\<close>

definition bulk_eps :: "iface_desc \<Rightarrow> ep_desc list" where
  "bulk_eps i = filter (\<lambda>e. ep_transfer_type e = Bulk) (endpoint_descriptors i)"

definition ep_pair :: "ep_desc \<Rightarrow> u8 \<times> u16" where
  "ep_pair e = (ep_address e, ep_max_packet_size e)"

text \<open>Exactly one bulk endpoint of each direction.\<close>

definition one_pair :: "iface_desc \<Rightarrow> u8 \<times> u16 \<Rightarrow> u8 \<times> u16 \<Rightarrow> bool" where
  "one_pair i in_ep out_ep \<longleftrightarrow>
     (\<exists>e f. (bulk_eps i = [e, f] \<or> bulk_eps i = [f, e]) \<and> ep_direction e = DirIn \<and> ep_direction f = DirOut \<and>
        ep_pair e = in_ep \<and> ep_pair f = out_ep)"

definition has_pair :: "iface_desc \<Rightarrow> bool" where
  "has_pair i \<longleftrightarrow> (\<exists>in_ep out_ep. one_pair i in_ep out_ep)"

lemma scan_bulk:
  "scan_endpoints es x y n = scan_endpoints (filter (\<lambda>e. ep_transfer_type e = Bulk) es) x y n"
  by (induction es x y n rule: scan_endpoints.induct) (simp_all add: Let_def)

lemma scan_counts: "scan_endpoints es x y n = (a, b, m) \<Longrightarrow> m = n + length (filter (\<lambda>e. ep_transfer_type e = Bulk) es)"
  by (induction es x y n rule: scan_endpoints.induct) (auto simp: Let_def split: if_splits)

lemma scan_one_pair:
  "scan_endpoints (endpoint_descriptors i) None None 0 = (Some in_ep, Some out_ep, 2) \<longleftrightarrow> one_pair i in_ep out_ep"
proof -
  let ?b = "bulk_eps i"
  have bulk: "e \<in> set ?b \<Longrightarrow> ep_transfer_type e = Bulk" for e by (simp add: bulk_eps_def)
  have scan: "scan_endpoints (endpoint_descriptors i) None None 0 = scan_endpoints ?b None None 0"
    unfolding bulk_eps_def by (rule scan_bulk)
  have two: "scan_endpoints [e, f] None None 0 = (Some in_ep, Some out_ep, 2) \<longleftrightarrow>
      ep_direction e = DirIn \<and> ep_direction f = DirOut \<and> ep_pair e = in_ep \<and> ep_pair f = out_ep \<or>
      ep_direction f = DirIn \<and> ep_direction e = DirOut \<and> ep_pair f = in_ep \<and> ep_pair e = out_ep"
    if "ep_transfer_type e = Bulk" "ep_transfer_type f = Bulk" for e f
    using that by (cases "ep_direction e"; cases "ep_direction f") (simp_all add: ep_pair_def)
  show ?thesis
  proof
    assume s: "scan_endpoints (endpoint_descriptors i) None None 0 = (Some in_ep, Some out_ep, 2)"
    then have "length ?b = 2" using scan_counts [OF s] by (simp add: bulk_eps_def)
    then obtain e f where b: "?b = [e, f]" by (metis One_nat_def Suc_1 length_0_conv length_Suc_conv)
    then show "one_pair i in_ep out_ep" using s two [of e f] bulk unfolding scan by (auto simp: one_pair_def)
  next
    assume "one_pair i in_ep out_ep"
    then obtain e f where b: "?b = [e, f] \<or> ?b = [f, e]" "ep_direction e = DirIn" "ep_direction f = DirOut"
        "ep_pair e = in_ep" "ep_pair f = out_ep"
      by (auto simp: one_pair_def)
    then show "scan_endpoints (endpoint_descriptors i) None None 0 = (Some in_ep, Some out_ep, 2)"
      using two [of e f] two [of f e] bulk unfolding scan by auto
  qed
qed

lemma find_setting_Some:
  assumes "find_setting is' = Some (i, in_ep, out_ep)"
  obtains pre post where "is' = pre @ i # post" "one_pair i in_ep out_ep" "\<forall>j \<in> set pre. \<not> has_pair j"
  using assms
proof (induction is' arbitrary: thesis)
  case (Cons j js)
  show ?case
  proof (cases "has_pair j")
    case True
    then obtain x y where xy: "one_pair j x y" unfolding has_pair_def by blast
    then have "scan_endpoints (endpoint_descriptors j) None None 0 = (Some x, Some y, 2)" by (simp only: scan_one_pair)
    then have "(i, in_ep, out_ep) = (j, x, y)" using Cons.prems(2) by simp
    then show ?thesis using Cons.prems(1) [of "[]" js] xy by simp
  next
    case False
    then have "scan_endpoints (endpoint_descriptors j) None None 0 \<noteq> (Some x, Some y, 2)" for x y
      unfolding scan_one_pair has_pair_def by blast
    then have "find_setting (j # js) = find_setting js" by (auto split: prod.split option.split)
    then have "find_setting js = Some (i, in_ep, out_ep)" using Cons.prems(2) by (rule trans [OF sym])
    from Cons.IH [OF _ this] obtain pre post where "js = pre @ i # post" "one_pair i in_ep out_ep" "\<forall>j \<in> set pre. \<not> has_pair j" .
    then show ?thesis using Cons.prems(1) [of "j # pre" post] False by simp
  qed
qed simp

lemma find_config_Ok:
  "find_config dev ns = Ok (Some (cfg, i, in_ep, out_ep)) \<Longrightarrow>
     \<exists>n \<in> set ns. config_descriptor dev n = Ok cfg \<and> i \<in> set (concat (interfaces cfg)) \<and> one_pair i in_ep out_ep"
proof (induction ns)
  case (Cons n ns)
  then obtain c where c: "config_descriptor dev n = Ok c" by (auto simp: obind_Ok_iff)
  show ?case
  proof (cases "find_setting (concat (interfaces c))")
    case None
    then show ?thesis using Cons c by auto
  next
    case (Some x)
    then have x: "c = cfg" "x = (i, in_ep, out_ep)" using Cons.prems c by auto
    then obtain pre post where "concat (interfaces cfg) = pre @ i # post" "one_pair i in_ep out_ep"
      using Some by (metis find_setting_Some)
    moreover from this have "i \<in> set (concat (interfaces cfg))" by (metis in_set_conv_decomp)
    ultimately show ?thesis using c x(1) by (meson list.set_intros(1))
  qed
qed simp

lemma find_device_Ok:
  "find_device ds vid pid = Ok (Some (d, desc)) \<Longrightarrow>
     \<exists>pre post. ds = pre @ d # post \<and> device_descriptor d = Ok desc \<and> vendor_id desc = vid \<and> product_id desc = pid \<and>
       (\<forall>e \<in> set pre. \<exists>x. device_descriptor e = Ok x \<and> (vendor_id x \<noteq> vid \<or> product_id x \<noteq> pid))"
proof (induction ds)
  case (Cons e es)
  then obtain x where x: "device_descriptor e = Ok x" by (auto simp: obind_Ok_iff)
  show ?case
  proof (cases "vendor_id x = vid \<and> product_id x = pid")
    case True
    then have "e = d" "x = desc" using Cons.prems x by auto
    then show ?thesis using True x by (intro exI [of _ "[]"] exI [of _ es]) simp
  next
    case False
    then have "find_device es vid pid = Ok (Some (d, desc))" using Cons.prems x by auto
    then obtain pre post where "es = pre @ d # post \<and> device_descriptor d = Ok desc \<and> vendor_id desc = vid \<and> product_id desc = pid \<and>
       (\<forall>e \<in> set pre. \<exists>x. device_descriptor e = Ok x \<and> (vendor_id x \<noteq> vid \<or> product_id x \<noteq> pid))"
      using Cons.IH by blast
    then show ?thesis using False x by (intro exI [of _ "e # pre"] exI [of _ post]) auto
  qed
qed simp

text \<open>
  What \<^verbatim>\<open>open\<close> promises: the pair belongs to the first device with these numbers, to an interface setting of it that has
  exactly one bulk endpoint of each direction, and this setting was claimed.
\<close>

lemma bulk_open_claims_pair:
  assumes "bulk_open devs vid pid h = (Ok b, h')"
  shows "\<exists>pre post desc cfg i n. devs = pre @ handle b # post \<and> device_descriptor (handle b) = Ok desc \<and>
    vendor_id desc = vid \<and> product_id desc = pid \<and>
    (\<forall>e \<in> set pre. \<exists>x. device_descriptor e = Ok x \<and> (vendor_id x \<noteq> vid \<or> product_id x \<noteq> pid)) \<and>
    config_descriptor (handle b) n = Ok cfg \<and> i \<in> set (concat (interfaces cfg)) \<and>
    one_pair i (in_ep_addr b, in_max_packet_size b) (out_ep_addr b, out_max_packet_size b) \<and>
    claim_setting (handle b) cfg i h = (Ok (), h')"
proof -
  from assms obtain dev desc cfg i in_addr in_max out_addr out_max where
      d: "find_device devs vid pid = Ok (Some (dev, desc))"
      and c: "find_config dev (map of_nat [0..<unat (num_configurations desc)]) = Ok (Some (cfg, i, (in_addr, in_max), (out_addr, out_max)))"
      and cl: "claim_setting dev cfg i h = (Ok (), h')"
      and b: "b = \<lparr>in_ep_addr = in_addr, in_max_packet_size = in_max, out_ep_addr = out_addr,
                   out_max_packet_size = out_max, handle = dev, timeout = usbc_timeout\<rparr>"
    by (auto simp: bulk_open_def abind_Ok_iff split: option.splits)
  from find_device_Ok [OF d] obtain pre post where "devs = pre @ dev # post \<and> device_descriptor dev = Ok desc \<and>
      vendor_id desc = vid \<and> product_id desc = pid \<and>
      (\<forall>e \<in> set pre. \<exists>x. device_descriptor e = Ok x \<and> (vendor_id x \<noteq> vid \<or> product_id x \<noteq> pid))" by blast
  moreover from find_config_Ok [OF c] obtain n where "config_descriptor dev n = Ok cfg" "i \<in> set (concat (interfaces cfg))"
      "one_pair i (in_addr, in_max) (out_addr, out_max)" by blast
  ultimately show ?thesis unfolding b using cl
    by (intro exI [of _ pre] exI [of _ post] exI [of _ desc] exI [of _ cfg] exI [of _ i] exI [of _ n]) simp
qed

end
