(* ===== verification/UsbMem.thy ===== *)
theory UsbMem
  imports Clock
begin

text \<open>
  The memory the USB controller shares with its driver, \<^verbatim>\<open>firmware/usbarmory/src/usbd/token.rs\<close>,
  \<^verbatim>\<open>dtd.rs\<close>, \<^verbatim>\<open>dqh.rs\<close> and \<^verbatim>\<open>util.rs\<close>: transfer tokens, transfer descriptors, queue heads,
  and the numbering of the endpoints.
\<close>

section \<open>Tokens\<close>

type_synonym token = u32
type_synonym token_status = u8

definition token_empty :: token where "token_empty = 0"

definition set_total_bytes :: "nat \<Rightarrow> token \<Rightarrow> ('e, token) outcome" where
  "set_total_bytes n t =
     obind (oassert (n < 0x5000)) (\<lambda>_. Ok ((t AND NOT (push_bit 16 0xFFFF)) OR push_bit 16 (of_nat n)))"

definition get_total_bytes :: "token \<Rightarrow> u16" where
  "get_total_bytes t = ucast (drop_bit 16 t)"

definition set_ioc :: "token \<Rightarrow> token" where
  "set_ioc t = t OR push_bit 15 1"

definition get_status :: "token \<Rightarrow> token_status" where
  "get_status t = ucast t"

definition set_status :: "token_status \<Rightarrow> token \<Rightarrow> token" where
  "set_status st t = (t AND NOT 0xFF) OR ucast st"

definition clear_status :: "token \<Rightarrow> token" where
  "clear_status t = t AND NOT 0xFF"

definition STATUS_ACTIVE :: token_status where "STATUS_ACTIVE = push_bit 7 1"

definition is_active :: "token_status \<Rightarrow> bool" where
  "is_active st \<longleftrightarrow> st AND STATUS_ACTIVE \<noteq> 0"

definition is_halted :: "token_status \<Rightarrow> bool" where
  "is_halted st \<longleftrightarrow> st AND push_bit 6 1 \<noteq> 0"

definition has_data_buffer_error :: "token_status \<Rightarrow> bool" where
  "has_data_buffer_error st \<longleftrightarrow> st AND push_bit 5 1 \<noteq> 0"

definition has_transaction_error :: "token_status \<Rightarrow> bool" where
  "has_transaction_error st \<longleftrightarrow> st AND push_bit 3 1 \<noteq> 0"

definition has_errors :: "token_status \<Rightarrow> bool" where
  "has_errors st \<longleftrightarrow> has_data_buffer_error st \<or> has_transaction_error st"

text \<open>The token the driver builds for a transfer of \<open>n\<close> bytes, and the check of a finished one.\<close>

definition active_token :: "nat \<Rightarrow> ('e, token) outcome" where
  "active_token n =
     obind (set_total_bytes n token_empty) (\<lambda>t. Ok (set_ioc (set_status STATUS_ACTIVE t)))"

definition transfer_failed :: "token \<Rightarrow> bool" where
  "transfer_failed t \<longleftrightarrow> (let st = get_status t in is_active st \<or> has_errors st \<or> is_halted st)"

section \<open>Transfer descriptors\<close>

definition NO_NEXT_DTD :: u32 where "NO_NEXT_DTD = 1"

record dtd =
  next_link :: u32
  token_of :: token
  page0 :: u32
  page1 :: u32
  more_pages :: "u32 list"

definition dtd_new :: dtd where
  "dtd_new = \<lparr>next_link = NO_NEXT_DTD, token_of = token_empty, page0 = 0, page1 = 0, more_pages = [0, 0, 0]\<rparr>"

definition set_pages :: "profile \<Rightarrow> u32 \<Rightarrow> dtd \<Rightarrow> ('e, dtd) outcome" where
  "set_pages p ptr d =
     obind (prof_add p (ptr AND NOT 0xFFF) 0x1000) (\<lambda>a1.
     obind (prof_add p a1 0x1000) (\<lambda>a2.
     obind (prof_add p a2 0x1000) (\<lambda>a3.
     obind (prof_add p a3 0x1000) (\<lambda>a4.
     Ok (d\<lparr>page0 := ptr, page1 := a1, more_pages := [a2, a3, a4]\<rparr>)))))"

section \<open>Queue heads\<close>

type_synonym caps = u32

definition caps_new :: "u16 \<Rightarrow> ('e, caps) outcome" where
  "caps_new max_packet_size =
     obind (oassert (max_packet_size \<le> 0x400)) (\<lambda>_.
     Ok (push_bit 30 0 OR push_bit 29 0 OR push_bit 16 (ucast max_packet_size)))"

definition caps_max_packet_size :: "caps \<Rightarrow> u16" where
  "caps_max_packet_size c = ucast (drop_bit 16 c)"

definition set_ios :: "caps \<Rightarrow> caps" where
  "set_ios c = c OR push_bit 15 1"

definition SETUP_BYTES :: nat where "SETUP_BYTES = 8"

record dqh =
  caps_of :: caps
  current_dtd :: u32
  next_dtd :: u32
  overlay :: token
  qpages :: "u32 list"
  setup_bytes :: bytes
  buffer_addr :: "u32 option"

definition dqh_new :: dqh where
  "dqh_new = \<lparr>caps_of = 0, current_dtd = 1, next_dtd = 1, overlay = token_empty, qpages = [0, 0, 0, 0, 0],
     setup_bytes = replicate SETUP_BYTES 0, buffer_addr = None\<rparr>"

definition set_max_packet_size :: "u16 \<Rightarrow> bool \<Rightarrow> dqh \<Rightarrow> ('e, dqh) outcome" where
  "set_max_packet_size n ios q =
     obind (caps_new n) (\<lambda>c. Ok (q\<lparr>caps_of := if ios then set_ios c else c\<rparr>))"

definition get_max_packet_size :: "dqh \<Rightarrow> u16" where
  "get_max_packet_size q = caps_max_packet_size (caps_of q)"

definition get_current_dtd :: "dqh \<Rightarrow> u32 option" where
  "get_current_dtd q = (if current_dtd q AND 31 \<noteq> 0 then None else Some (current_dtd q))"

definition get_next_dtd :: "dqh \<Rightarrow> u32 option" where
  "get_next_dtd q = (if next_dtd q = NO_NEXT_DTD then None else Some (next_dtd q))"

definition clear_current_dtd :: "dqh \<Rightarrow> dqh" where
  "clear_current_dtd q = q\<lparr>current_dtd := NO_NEXT_DTD\<rparr>"

definition set_next_dtd :: "u32 option \<Rightarrow> dqh \<Rightarrow> dqh" where
  "set_next_dtd d q = q\<lparr>next_dtd := (case d of None \<Rightarrow> NO_NEXT_DTD | Some a \<Rightarrow> a)\<rparr>"

definition set_address :: "u32 \<Rightarrow> dqh \<Rightarrow> dqh" where
  "set_address a q = q\<lparr>buffer_addr := Some a\<rparr>"

section \<open>Endpoints\<close>

text \<open>
  \<^verbatim>\<open>EndpointAddress\<close> of the crate \<^verbatim>\<open>usb_device\<close> is an index and a direction; the two are what the
  driver uses of it (\<^verbatim>\<open>index()\<close>, \<^verbatim>\<open>is_out()\<close>, \<^verbatim>\<open>from_parts\<close>).
\<close>

datatype ep_addr = EpAddr (ep_index: nat) (is_out: bool)

definition epaddr2dqhidx :: "ep_addr \<Rightarrow> nat" where
  "epaddr2dqhidx e = 2 * ep_index e + (if is_out e then 0 else 1)"

definition dqhidx2epaddr :: "nat \<Rightarrow> ep_addr" where
  "dqhidx2epaddr i = EpAddr (i div 2) (i mod 2 = 0)"

text \<open>\<^verbatim>\<open>1 << n\<close>: with a too large shift a panic or, in release, a shift modulo the width.\<close>

definition prof_bit :: "profile \<Rightarrow> nat \<Rightarrow> ('e, 'a::len word) outcome" where
  "prof_bit p n =
     (if n < LENGTH('a) then Ok (push_bit n 1)
      else if p = Dev then Panic else Ok (push_bit (n mod LENGTH('a)) 1))"

definition epaddr2endptmask :: "profile \<Rightarrow> ep_addr \<Rightarrow> ('e, u32) outcome" where
  "epaddr2endptmask p e = prof_bit p (if is_out e then ep_index e else 16 + ep_index e)"

text \<open>\<^verbatim>\<open>OneIndices\<close>: the iterator over the set bits of a word.\<close>

definition trailing_zeros :: "u32 \<Rightarrow> nat" where
  "trailing_zeros w = (case filter (bit w) [0..<32] of [] \<Rightarrow> 32 | i # _ \<Rightarrow> i)"

definition one_next :: "u32 \<Rightarrow> (nat \<times> u32) option" where
  "one_next w =
     (if w = 0 then None
      else let i = trailing_zeros w in Some (i, w AND NOT (push_bit i 1)))"

lemma trailing_zeros:
  assumes "w \<noteq> 0"
  shows "bit w (trailing_zeros w)" "trailing_zeros w < 32" "\<And>j. j < trailing_zeros w \<Longrightarrow> \<not> bit w j"
    "filter (bit w) [0..<32] = trailing_zeros w # tl (filter (bit w) [0..<32])"
proof -
  obtain n where n: "bit w n" using assms by (auto simp: bit_eq_iff)
  then have "n < 32" using bit_imp_le_length [OF n] by simp
  then have "n \<in> set (filter (bit w) [0..<32])" using n by simp
  then obtain i ks where f: "filter (bit w) [0..<32] = i # ks" by (cases "filter (bit w) [0..<32]") auto
  then have t: "trailing_zeros w = i" by (simp add: trailing_zeros_def)
  have "i \<in> set (filter (bit w) [0..<32])" using f by simp
  then show "bit w (trailing_zeros w)" "trailing_zeros w < 32" using t by auto
  show "filter (bit w) [0..<32] = trailing_zeros w # tl (filter (bit w) [0..<32])" using f t by simp
  have "sorted (filter (bit w) [0..<32])" by (simp add: sorted_wrt_filter)
  then have least: "\<forall>k \<in> set ks. i \<le> k" unfolding f by simp
  show "\<not> bit w j" if j: "j < trailing_zeros w" for j
  proof
    assume "bit w j"
    moreover have "j < 32" using bit_imp_le_length [OF \<open>bit w j\<close>] by simp
    ultimately have "j \<in> set (i # ks)" unfolding f [symmetric] by simp
    then show False using j least t by auto
  qed
qed

lemma one_next_filter:
  assumes "one_next w = Some (i, w')"
  shows "filter (bit w) [0..<32] = i # filter (bit w') [0..<32]"
proof -
  from assms have w: "w \<noteq> 0" and i: "i = trailing_zeros w" and w': "w' = w AND NOT (push_bit i 1)"
    by (auto simp: one_next_def Let_def split: if_splits)
  have b: "bit w' = (\<lambda>j. bit w j \<and> j \<noteq> i)"
    using bit_imp_le_length [of w] by (fastforce simp: w' bit_simps fun_eq_iff)
  have "[0..<32] = [0..<i] @ i # [Suc i..<32]"
    using trailing_zeros(2) [OF w] i by (metis less_imp_le_nat upt_add_eq_append upt_conv_Cons le_add_diff_inverse zero_le)
  moreover have "filter P [0..<i] = []" if "\<And>j. j < i \<Longrightarrow> \<not> P j" for P
    using that by simp
  moreover have "filter (bit w') [Suc i..<32] = filter (bit w) [Suc i..<32]"
    by (rule filter_cong) (auto simp: b)
  ultimately show ?thesis
    using trailing_zeros(1,3) [OF w] i by (simp add: b)
qed

function one_indices :: "u32 \<Rightarrow> nat list" where
  "one_indices w = (case one_next w of None \<Rightarrow> [] | Some (i, w') \<Rightarrow> i # one_indices w')"
  by auto

termination one_indices
proof (relation "measure (\<lambda>w. length (filter (bit w) [0..<32]))")
  fix w :: u32 and x i w' assume "one_next w = Some x" "(i, w') = x"
  then show "(w', w) \<in> measure (\<lambda>w. length (filter (bit w) [0..<32]))"
    using one_next_filter [of w i w'] by simp
qed simp

declare one_indices.simps [simp del]

lemma one_indices_filter: "one_indices w = filter (bit w) [0..<32]"
proof (induction w rule: one_indices.induct)
  case (1 w)
  show ?case
  proof (cases "one_next w")
    case None
    then have "w = 0" by (auto simp: one_next_def Let_def split: if_splits)
    then show ?thesis using None by (simp add: one_indices.simps)
  next
    case (Some x)
    then obtain i w' where x: "one_next w = Some (i, w')" by (cases x) auto
    then show ?thesis
      using 1 [OF x refl] one_next_filter [OF x] one_indices.simps [of w] by simp
  qed
qed

end
