(* ===== verification/UsbBus.thy ===== *)
theory UsbBus
  imports UsbMem
begin

text \<open>
  The USB device driver of \<^verbatim>\<open>firmware/usbarmory/src/usbd.rs\<close> and \<^verbatim>\<open>usbd/bus.rs\<close>. Its state is what
  \<^verbatim>\<open>Inner\<close> owns (the pools of descriptors and buffers, the endpoint bookkeeping), the memory it
  shares with the controller, and the register accesses so far. The controller is a parameter:
  what the registers answer, and how it changes the shared memory, as functions of the accesses
  so far. The driver's view of the shared memory is brought up to date (\<open>sync\<close>) before each of
  its accesses, so the controller may act between any two of them.
\<close>

section \<open>State\<close>

record usb_mem =
  dqh_at :: "u32 \<Rightarrow> dqh"
  dtd_at :: "u32 \<Rightarrow> dtd"
  ram :: "u32 \<Rightarrow> u8"

record usb_hw =
  regs :: hw
  dma :: "trace \<Rightarrow> usb_mem \<Rightarrow> usb_mem"

record usb_state =
  free_dtds :: "u32 list"
  b64s :: "u32 list"
  b512s :: "u32 list"
  used_dqhs :: u8
  setupstat :: "u16 option"
  ep_in_complete :: "u16 option"
  last_poll_was_none :: bool
  pre_status_out :: u16
  status_out :: u16
  shared :: usb_mem
  accesses :: trace

datatype usb_error = WouldBlock | EndpointOverflow | EndpointMemoryOverflow | InvalidEndpoint

datatype ep_type = Control | Isochronous | Bulk | Interrupt

datatype poll_result = PollNone | PollReset | PollData (in_complete: u16) (out_ready: u16) (setup_ready: u16)

type_synonym 'a usb = "(usb_state, usb_error, 'a) act"

definition ENDPOINTS :: nat where "ENDPOINTS = 4"

section \<open>Access to registers and memory\<close>

definition on_regs :: "(usb_error, 'a) io \<Rightarrow> 'a usb" where
  "on_regs m = (\<lambda>s. case m (accesses s) of (r, tr) \<Rightarrow> (r, s\<lparr>accesses := tr\<rparr>))"

abbreviation urd :: "usb_hw \<Rightarrow> usb_reg \<Rightarrow> u32 usb" where
  "urd H r \<equiv> on_regs (rd (regs H) (Usb r))"

abbreviation uwr :: "usb_reg \<Rightarrow> u32 \<Rightarrow> unit usb" where
  "uwr r v \<equiv> on_regs (wr (Usb r) v)"

abbreviation urmw :: "usb_hw \<Rightarrow> usb_reg \<Rightarrow> (u32 \<Rightarrow> u32) \<Rightarrow> unit usb" where
  "urmw H r f \<equiv> on_regs (rmw (regs H) (Usb r) f)"

definition gets :: "(usb_state \<Rightarrow> 'a) \<Rightarrow> 'a usb" where
  "gets f = (\<lambda>s. (Ok (f s), s))"

definition modify :: "(usb_state \<Rightarrow> usb_state) \<Rightarrow> unit usb" where
  "modify f = (\<lambda>s. (Ok (), f s))"

definition sync :: "usb_hw \<Rightarrow> unit usb" where
  "sync H = modify (\<lambda>s. s\<lparr>shared := dma H (accesses s) (shared s)\<rparr>)"

definition mem_get :: "usb_hw \<Rightarrow> (usb_mem \<Rightarrow> 'a) \<Rightarrow> 'a usb" where
  "mem_get H f = abind (sync H) (\<lambda>_. gets (\<lambda>s. f (shared s)))"

definition mem_set :: "usb_hw \<Rightarrow> (usb_mem \<Rightarrow> usb_mem) \<Rightarrow> unit usb" where
  "mem_set H f = abind (sync H) (\<lambda>_. modify (\<lambda>s. s\<lparr>shared := f (shared s)\<rparr>))"

abbreviation dqh_get :: "usb_hw \<Rightarrow> u32 \<Rightarrow> (dqh \<Rightarrow> 'a) \<Rightarrow> 'a usb" where
  "dqh_get H q f \<equiv> mem_get H (\<lambda>m. f (dqh_at m q))"

definition set_dqh :: "u32 \<Rightarrow> (dqh \<Rightarrow> dqh) \<Rightarrow> usb_mem \<Rightarrow> usb_mem" where
  "set_dqh q f m = m\<lparr>dqh_at := (dqh_at m)(q := f (dqh_at m q))\<rparr>"

definition set_dtd :: "u32 \<Rightarrow> (dtd \<Rightarrow> dtd) \<Rightarrow> usb_mem \<Rightarrow> usb_mem" where
  "set_dtd a f m = m\<lparr>dtd_at := (dtd_at m)(a := f (dtd_at m a))\<rparr>"

definition put_ram :: "u32 \<Rightarrow> bytes \<Rightarrow> usb_mem \<Rightarrow> usb_mem" where
  "put_ram a b m = m\<lparr>ram := (\<lambda>x. if unat (x - a) < length b then b ! unat (x - a) else ram m x)\<rparr>"

definition get_ram :: "u32 \<Rightarrow> nat \<Rightarrow> usb_mem \<Rightarrow> bytes" where
  "get_ram a n m = map (\<lambda>i. ram m (a + of_nat i)) [0..<n]"

abbreviation dqh_set :: "usb_hw \<Rightarrow> u32 \<Rightarrow> (dqh \<Rightarrow> dqh) \<Rightarrow> unit usb" where
  "dqh_set H q f \<equiv> mem_set H (set_dqh q f)"

abbreviation dtd_set :: "usb_hw \<Rightarrow> u32 \<Rightarrow> (dtd \<Rightarrow> dtd) \<Rightarrow> unit usb" where
  "dtd_set H a f \<equiv> mem_set H (set_dtd a f)"

text \<open>\<^verbatim>\<open>util::wait_for_or_timeout\<close> on a register, with a reset after the time-out.\<close>

definition wait_reg :: "usb_hw \<Rightarrow> usb_reg \<Rightarrow> (u32 \<Rightarrow> bool) \<Rightarrow> duration \<Rightarrow> unit usb" where
  "wait_reg H r q t =
     abind (on_regs (wait_for_or_timeout (regs H) (abind (rd (regs H) (Usb r)) (\<lambda>v. aret (q v, ()))) t)) (\<lambda>x.
     if x = None then alift Reset else aret ())"

definition frame :: duration where "frame = from_millis 1"
definition microframe :: duration where "microframe = from_micros 125"

section \<open>Endpoint bookkeeping\<close>

definition get_dqh :: "usb_hw \<Rightarrow> ep_addr \<Rightarrow> u32 option usb" where
  "get_dqh H e =
     (if epaddr2dqhidx e < ENDPOINTS
      then abind (urd H ENDPTLISTADDR) (\<lambda>v. aret (Some (v + 64 * of_nat (epaddr2dqhidx e))))
      else aret None)"

definition dqh_or :: "usb_hw \<Rightarrow> ep_addr \<Rightarrow> (usb_error, u32) outcome \<Rightarrow> u32 usb" where
  "dqh_or H e r = abind (get_dqh H e) (\<lambda>q. alift (case q of None \<Rightarrow> r | Some a \<Rightarrow> Ok a))"

definition is_ep_being_used :: "ep_addr \<Rightarrow> usb_state \<Rightarrow> bool" where
  "is_ep_being_used e s \<longleftrightarrow> used_dqhs s AND push_bit (epaddr2dqhidx e) 1 \<noteq> 0"

definition mark_ep_as_used :: "ep_addr \<Rightarrow> usb_state \<Rightarrow> usb_state" where
  "mark_ep_as_used e s = s\<lparr>used_dqhs := used_dqhs s OR push_bit (epaddr2dqhidx e) 1\<rparr>"

definition allocated_eps :: "usb_state \<Rightarrow> ep_addr list" where
  "allocated_eps s = map dqhidx2epaddr (one_indices (ucast (used_dqhs s)))"

definition set_ep_in_complete :: "nat \<Rightarrow> unit usb" where
  "set_ep_in_complete i =
     abind (alift (oassert (i < ENDPOINTS div 2))) (\<lambda>_.
     modify (\<lambda>s. s\<lparr>ep_in_complete := Some (case ep_in_complete s of
       Some v \<Rightarrow> v OR push_bit i 1 | None \<Rightarrow> push_bit i 1)\<rparr>))"

definition USBSTS_URI :: u32 where "USBSTS_URI = push_bit 6 1"
definition USBSTS_SRE :: u32 where "USBSTS_SRE = push_bit 7 1"
definition USBSTS_PCI :: u32 where "USBSTS_PCI = push_bit 2 1"
definition ENDPTCTRL_TXE :: u32 where "ENDPTCTRL_TXE = push_bit 23 1"
definition ENDPTCTRL_TXR :: u32 where "ENDPTCTRL_TXR = push_bit 22 1"
definition ENDPTCTRL_RXE :: u32 where "ENDPTCTRL_RXE = push_bit 7 1"
definition ENDPTCTRL_RXR :: u32 where "ENDPTCTRL_RXR = push_bit 6 1"

definition clear_interrupt :: "unit usb" where "clear_interrupt = uwr USBSTS 1"

definition port_change :: "unit usb" where "port_change = uwr USBSTS USBSTS_PCI"

definition ENDPTCTRL_TXT_MASK :: u32 where "ENDPTCTRL_TXT_MASK = 3"
definition ENDPTCTRL_RXT_MASK :: u32 where "ENDPTCTRL_RXT_MASK = 0"
definition BULKT :: u32 where "BULKT = 2"

fun type_bits :: "ep_type \<Rightarrow> u32" where
  "type_bits Control = 0"
| "type_bits Isochronous = 1"
| "type_bits Bulk = BULKT"
| "type_bits Interrupt = 3"

definition set_rx_type :: "u32 \<Rightarrow> u32 \<Rightarrow> u32" where
  "set_rx_type ty ctrl = (ctrl AND NOT (push_bit 2 ENDPTCTRL_RXT_MASK)) OR push_bit 2 ty"

definition set_tx_type :: "u32 \<Rightarrow> u32 \<Rightarrow> u32" where
  "set_tx_type ty ctrl = (ctrl AND NOT (push_bit 18 ENDPTCTRL_TXT_MASK)) OR push_bit 18 ty"

definition configure_ep :: "usb_hw \<Rightarrow> ep_addr \<Rightarrow> ep_type \<Rightarrow> unit usb" where
  "configure_ep H e t =
     abind (alift (oassert (ep_index e \<noteq> 0))) (\<lambda>_.
     abind (alift (oassert (ep_index e = 1))) (\<lambda>_.
     if is_out e then
       abind (urmw H ENDPTCTRL1 (set_rx_type (type_bits t))) (\<lambda>_.
       abind (urd H ENDPTCTRL1) (\<lambda>v.
       if v AND ENDPTCTRL_TXE = 0 then urmw H ENDPTCTRL1 (set_tx_type BULKT) else aret ()))
     else
       abind (urmw H ENDPTCTRL1 (set_tx_type (type_bits t))) (\<lambda>_.
       abind (urd H ENDPTCTRL1) (\<lambda>v.
       if v AND ENDPTCTRL_RXE = 0 then urmw H ENDPTCTRL1 (set_rx_type BULKT) else aret ()))))"

definition enable_ep :: "usb_hw \<Rightarrow> profile \<Rightarrow> ep_addr \<Rightarrow> unit usb" where
  "enable_ep H p e =
     (if is_out e then
        abind (if ep_index e \<noteq> 0 then
                 abind (alift (epaddr2endptmask p e)) (\<lambda>msk. urmw H ENDPTPRIME (\<lambda>prime. prime OR msk))
               else aret ()) (\<lambda>_.
        urmw H ENDPTCTRL1 (\<lambda>ctrl. ctrl OR ENDPTCTRL_RXE))
      else urmw H ENDPTCTRL1 (\<lambda>ctrl. ctrl OR ENDPTCTRL_TXE))"

definition reset_ep :: "usb_hw \<Rightarrow> ep_addr \<Rightarrow> unit usb" where
  "reset_ep H e =
     (if is_out e then
        abind (urd H ENDPTCTRL1) (\<lambda>v.
        abind (alift (oassert (v AND ENDPTCTRL_RXE \<noteq> 0))) (\<lambda>_.
        urmw H ENDPTCTRL1 (\<lambda>ctrl. ctrl OR ENDPTCTRL_RXR)))
      else
        abind (urd H ENDPTCTRL1) (\<lambda>v.
        abind (alift (oassert (v AND ENDPTCTRL_TXE \<noteq> 0))) (\<lambda>_.
        urmw H ENDPTCTRL1 (\<lambda>ctrl. ctrl OR ENDPTCTRL_TXR))))"

section \<open>The pools\<close>

text \<open>\<^verbatim>\<open>Vec::pop\<close> takes the last element.\<close>

definition take_dtd :: "u32 usb" where
  "take_dtd = (\<lambda>s. if free_dtds s = [] then (Panic, s)
     else (Ok (last (free_dtds s)), s\<lparr>free_dtds := butlast (free_dtds s)\<rparr>))"

definition take_buffer :: "u16 \<Rightarrow> u32 usb" where
  "take_buffer max_packet_size = (\<lambda>s.
     if max_packet_size \<le> 64 then
       if b64s s = [] then (Panic, s) else (Ok (last (b64s s)), s\<lparr>b64s := butlast (b64s s)\<rparr>)
     else if max_packet_size \<le> 512 then
       if b512s s = [] then (Panic, s) else (Ok (last (b512s s)), s\<lparr>b512s := butlast (b512s s)\<rparr>)
     else (Panic, s))"

text \<open>An active token for \<open>n\<close> bytes, and the pages of the buffer, go into the descriptor.\<close>

definition put_token :: "usb_hw \<Rightarrow> u32 \<Rightarrow> nat \<Rightarrow> unit usb" where
  "put_token H d n =
     abind (alift (active_token n)) (\<lambda>t. dtd_set H d (\<lambda>x. x\<lparr>token_of := t\<rparr>))"

definition put_pages :: "usb_hw \<Rightarrow> profile \<Rightarrow> u32 \<Rightarrow> u32 \<Rightarrow> unit usb" where
  "put_pages H p d addr =
     abind (mem_get H (\<lambda>m. dtd_at m d)) (\<lambda>x.
     abind (alift (set_pages p addr x)) (\<lambda>x'.
     dtd_set H d (\<lambda>_. x')))"

section \<open>Allocation of an endpoint\<close>

definition pick_ep :: "usb_hw \<Rightarrow> bool \<Rightarrow> ep_addr option \<Rightarrow> (ep_addr \<times> u32) usb" where
  "pick_ep H out e =
     (case e of
        Some e \<Rightarrow>
          abind (dqh_or H e (Err EndpointOverflow)) (\<lambda>q.
          abind (gets (is_ep_being_used e)) (\<lambda>used.
          if used then alift (Err InvalidEndpoint) else aret (e, q)))
      | None \<Rightarrow>
          aloop (\<lambda>i.
            abind (dqh_or H (EpAddr i out) (Err EndpointOverflow)) (\<lambda>q.
            abind (gets (is_ep_being_used (EpAddr i out))) (\<lambda>used.
            aret (if used then Inl (i + 1) else Inr (EpAddr i out, q))))) (1 :: nat))"

definition alloc_ep ::
  "usb_hw \<Rightarrow> profile \<Rightarrow> bool \<Rightarrow> ep_addr option \<Rightarrow> ep_type \<Rightarrow> u16 \<Rightarrow> ep_addr usb" where
  "alloc_ep H p out e t max_packet_size =
     abind (alift (oassert (t \<noteq> Isochronous))) (\<lambda>_.
     abind (pick_ep H out e) (\<lambda>(e, q).
     abind (dqh_get H q (\<lambda>x. x)) (\<lambda>x.
     abind (alift (set_max_packet_size max_packet_size True x)) (\<lambda>x'.
     abind (dqh_set H q (\<lambda>_. x')) (\<lambda>_.
     abind take_dtd (\<lambda>d.
     abind (if is_out e \<and> ep_index e \<noteq> 0 then
              abind (take_buffer max_packet_size) (\<lambda>addr.
              abind (put_token H d (unat max_packet_size)) (\<lambda>_.
              abind (put_pages H p d addr) (\<lambda>_.
              dqh_set H q (set_address addr))))
            else aret ()) (\<lambda>_.
     abind (dqh_set H q (set_next_dtd (Some d))) (\<lambda>_.
     abind (modify (mark_ep_as_used e)) (\<lambda>_.
     abind (if ep_index e \<noteq> 0 then configure_ep H e t else aret ()) (\<lambda>_.
     aret e))))))))))"

section \<open>Reading\<close>

text \<open>The part of \<^verbatim>\<open>read\<close> that looks up, and clears, the cached bit of a SETUP packet.\<close>

definition take_setup :: "profile \<Rightarrow> ep_addr \<Rightarrow> u16 option usb" where
  "take_setup p e =
     abind (gets setupstat) (\<lambda>cached.
     abind (case cached of
              None \<Rightarrow> aret None
            | Some v \<Rightarrow>
                abind (alift (prof_bit p (ep_index e))) (\<lambda>msk.
                if v AND msk \<noteq> 0
                then abind (modify (\<lambda>s. s\<lparr>setupstat := Some (v AND NOT msk)\<rparr>)) (\<lambda>_. aret (Some msk))
                else aret None)) (\<lambda>r.
     abind (modify (\<lambda>s. if setupstat s = Some 0 then s\<lparr>setupstat := None\<rparr> else s)) (\<lambda>_.
     aret r)))"

definition CMD_SUTW :: u32 where "CMD_SUTW = push_bit 13 1"

text \<open>
  \<^verbatim>\<open>copy_setup_bytes\<close>, byte by byte, as the controller may write a new packet meanwhile; and the
  loop guarded by the setup tripwire.
\<close>

fun copy_setup_bytes :: "usb_hw \<Rightarrow> u32 \<Rightarrow> nat list \<Rightarrow> bytes usb" where
  "copy_setup_bytes H q [] = aret []"
| "copy_setup_bytes H q (i # is') =
     abind (dqh_get H q (\<lambda>x. setup_bytes x ! i)) (\<lambda>b.
     abind (copy_setup_bytes H q is') (\<lambda>bs. aret (b # bs)))"

definition tripwire_round :: "usb_hw \<Rightarrow> u32 \<Rightarrow> nat \<Rightarrow> unit \<Rightarrow> (unit + bytes) usb" where
  "tripwire_round H q cap = (\<lambda>_.
     abind (urmw H USBCMD (\<lambda>cmd. cmd OR CMD_SUTW)) (\<lambda>_.
     abind (alift (oassert (SETUP_BYTES \<le> cap))) (\<lambda>_.
     abind (copy_setup_bytes H q [0..<SETUP_BYTES]) (\<lambda>bs.
     abind (urd H USBCMD) (\<lambda>v.
     aret (if v AND CMD_SUTW \<noteq> 0 then Inr bs else Inl ()))))))"

text \<open>The standard requests that need more than what \<^verbatim>\<open>usb_device\<close> does with them.\<close>

definition on_request :: "usb_hw \<Rightarrow> bytes \<Rightarrow> unit usb" where
  "on_request H b =
     (let r = (b ! 0, b ! 1) in
      if r = (0, 5) then aret ()
      else if r = (0, 9) \<or> r = (1, 11) then
        abind (gets allocated_eps) (\<lambda>es. afor es (reset_ep H))
      else if r = (128, 6) then modify (\<lambda>s. s\<lparr>pre_status_out := 1\<rparr>)
      else alift Reset)"

definition read_setup :: "usb_hw \<Rightarrow> u32 \<Rightarrow> nat \<Rightarrow> u16 \<Rightarrow> bytes usb" where
  "read_setup H q cap msk =
     abind (uwr ENDPTSETUPSTAT (ucast msk)) (\<lambda>_.
     abind (aloop (tripwire_round H q cap) ()) (\<lambda>bs.
     abind (urmw H USBCMD (\<lambda>cmd. cmd AND NOT CMD_SUTW)) (\<lambda>_.
     abind clear_interrupt (\<lambda>_.
     abind (on_request H bs) (\<lambda>_.
     aret bs)))))"

definition prime :: "usb_hw \<Rightarrow> u32 \<Rightarrow> unit usb" where
  "prime H msk = urmw H ENDPTPRIME (\<lambda>v. v OR msk)"

text \<open>What a finished transfer leaves: the descriptor's token is checked.\<close>

definition finish_transfer :: "usb_hw \<Rightarrow> u32 \<Rightarrow> u32 \<Rightarrow> unit usb" where
  "finish_transfer H msk d =
     abind (uwr ENDPTCOMPLETE msk) (\<lambda>_.
     abind clear_interrupt (\<lambda>_.
     abind (mem_get H (\<lambda>m. token_of (dtd_at m d))) (\<lambda>t.
     if transfer_failed t then alift Reset else aret ())))"

definition keep_dtd :: "usb_hw \<Rightarrow> u32 \<Rightarrow> u32 \<Rightarrow> unit usb" where
  "keep_dtd H q d = abind (dqh_set H q clear_current_dtd) (\<lambda>_. dqh_set H q (set_next_dtd (Some d)))"

definition read_control :: "usb_hw \<Rightarrow> profile \<Rightarrow> u32 \<Rightarrow> u32 \<Rightarrow> nat \<Rightarrow> u32 \<Rightarrow> bytes usb" where
  "read_control H p q msk cap buf =
     abind (dqh_get H q get_current_dtd) (\<lambda>c.
     abind (alift (oassert (c = None))) (\<lambda>_.
     abind (dqh_get H q get_next_dtd) (\<lambda>n.
     abind (alift (oexpect n)) (\<lambda>d.
     abind (put_token H d cap) (\<lambda>_.
     abind (put_pages H p d buf) (\<lambda>_.
     abind (dqh_set H q (set_address buf)) (\<lambda>_.
     abind (prime H msk) (\<lambda>_.
     abind (wait_reg H ENDPTCOMPLETE (\<lambda>v. v AND msk \<noteq> 0) (2 * microframe)) (\<lambda>_.
     abind (finish_transfer H msk d) (\<lambda>_.
     abind (dqh_get H q (\<lambda>x. unat (get_total_bytes (overlay x)))) (\<lambda>left.
     abind (alift (oassert (left \<le> cap))) (\<lambda>_.
     abind (mem_get H (get_ram buf (cap - left))) (\<lambda>b.
     abind (keep_dtd H q d) (\<lambda>_.
     aret b))))))))))))))"

definition read_buffer :: "usb_hw \<Rightarrow> profile \<Rightarrow> u32 \<Rightarrow> u32 \<Rightarrow> nat \<Rightarrow> bytes usb" where
  "read_buffer H p q msk cap =
     abind (urd H ENDPTCOMPLETE) (\<lambda>v.
     if v AND msk = 0 then alift (Err WouldBlock)
     else
       abind (dqh_get H q get_current_dtd) (\<lambda>c.
       abind (alift (oexpect c)) (\<lambda>d.
       abind (finish_transfer H msk d) (\<lambda>_.
       abind (dqh_get H q (\<lambda>x. get_total_bytes (overlay x))) (\<lambda>left.
       abind (dqh_get H q get_max_packet_size) (\<lambda>mps.
       abind (alift (prof_sub p mps left)) (\<lambda>n.
       abind (dqh_get H q buffer_addr) (\<lambda>a.
       abind (alift (oexpect a)) (\<lambda>addr.
       abind (alift (oassert (unat n \<le> cap))) (\<lambda>_.
       abind (mem_get H (get_ram addr (unat n))) (\<lambda>b.
       abind (put_token H d (unat mps)) (\<lambda>_.
       abind (put_pages H p d addr) (\<lambda>_.
       abind (keep_dtd H q d) (\<lambda>_.
       abind (prime H msk) (\<lambda>_.
       aret b)))))))))))))))"

text \<open>
  \<^verbatim>\<open>read\<close>: the caller's buffer has \<open>cap\<close> bytes at address \<open>buf\<close>; the result is what it holds
  up to the returned length.
\<close>

definition usb_read :: "usb_hw \<Rightarrow> profile \<Rightarrow> ep_addr \<Rightarrow> nat \<Rightarrow> u32 \<Rightarrow> bytes usb" where
  "usb_read H p e cap buf =
     abind (take_setup p e) (\<lambda>setup.
     abind (dqh_or H e (Err InvalidEndpoint)) (\<lambda>q.
     abind (alift (epaddr2endptmask p e)) (\<lambda>msk.
     case setup of
       Some m \<Rightarrow> read_setup H q cap m
     | None \<Rightarrow> if ep_index e = 0 then read_control H p q msk cap buf
               else read_buffer H p q msk cap)))"

section \<open>Writing\<close>

text \<open>\<^verbatim>\<open>start_write\<close>: the buffer of the endpoint, the descriptor, the start of the transfer.\<close>

definition buffer_for :: "usb_hw \<Rightarrow> u32 \<Rightarrow> u16 \<Rightarrow> u32 usb" where
  "buffer_for H q mps =
     abind (dqh_get H q buffer_addr) (\<lambda>a.
     case a of
       Some addr \<Rightarrow> aret addr
     | None \<Rightarrow> abind (take_buffer mps) (\<lambda>addr.
         abind (dqh_set H q (set_address addr)) (\<lambda>_. aret addr)))"

definition fill_descriptor :: "usb_hw \<Rightarrow> profile \<Rightarrow> u32 \<Rightarrow> u32 \<Rightarrow> u32 \<Rightarrow> bytes \<Rightarrow> unit usb" where
  "fill_descriptor H p q d addr bs =
     abind (put_token H d (length bs)) (\<lambda>_.
     abind (mem_set H (put_ram addr bs)) (\<lambda>_.
     abind (put_pages H p d addr) (\<lambda>_.
     dqh_set H q (set_address addr))))"

definition start_transfer :: "usb_hw \<Rightarrow> profile \<Rightarrow> ep_addr \<Rightarrow> u32 \<Rightarrow> u16 \<Rightarrow> bytes \<Rightarrow> nat usb" where
  "start_transfer H p e q mps bs =
     abind (dqh_get H q get_next_dtd) (\<lambda>n.
     abind (alift (oexpect n)) (\<lambda>d.
     abind (buffer_for H q mps) (\<lambda>addr.
     abind (fill_descriptor H p q d addr bs) (\<lambda>_.
     abind (alift (epaddr2endptmask p e)) (\<lambda>msk.
     abind (prime H msk) (\<lambda>_.
     aret (length bs)))))))"

definition start_write :: "usb_hw \<Rightarrow> profile \<Rightarrow> ep_addr \<Rightarrow> bytes \<Rightarrow> nat usb" where
  "start_write H p e bs =
     abind (dqh_or H e (Err InvalidEndpoint)) (\<lambda>q.
     abind (dqh_get H q get_max_packet_size) (\<lambda>mps.
     if unat mps < length bs then alift (Err EndpointMemoryOverflow)
     else
       abind (dqh_get H q get_current_dtd) (\<lambda>c.
       if c \<noteq> None then alift (Err WouldBlock)
       else start_transfer H p e q mps bs)))"

text \<open>The status packet that GET_DESCRIPTOR announced is due once the IN transfer has ended.\<close>

definition note_status :: "u16 \<Rightarrow> usb_state \<Rightarrow> usb_state" where
  "note_status m s =
     (if pre_status_out s AND m \<noteq> 0
      then s\<lparr>status_out := status_out s OR m, pre_status_out := pre_status_out s AND NOT m\<rparr>
      else s)"

definition end_write :: "usb_hw \<Rightarrow> profile \<Rightarrow> nat \<Rightarrow> unit usb" where
  "end_write H p idx =
     (let e = EpAddr idx False in
      abind (alift (epaddr2endptmask p e)) (\<lambda>msk.
      abind (dqh_or H e Panic) (\<lambda>q.
      abind (dqh_get H q get_current_dtd) (\<lambda>c.
      abind (alift (oexpect c)) (\<lambda>d.
      abind (finish_transfer H msk d) (\<lambda>_.
      abind (set_ep_in_complete idx) (\<lambda>_.
      abind (modify (note_status (ucast (drop_bit 16 msk)))) (\<lambda>_.
      keep_dtd H q d))))))))"

section \<open>Polling, reset, address\<close>

text \<open>The part of \<^verbatim>\<open>poll\<close> that decides what to report, from the setup and OUT bits.\<close>

definition poll_report :: "u16 \<Rightarrow> u32 \<Rightarrow> poll_result usb" where
  "poll_report setup complete = (\<lambda>s.
     if setup \<noteq> 0 \<or> ep_in_complete s \<noteq> None \<or> status_out s \<noteq> 0 \<or> complete \<noteq> 0 then
       (let inc = (case ep_in_complete s of None \<Rightarrow> 0 | Some v \<Rightarrow> v);
            take = (status_out s \<noteq> 0 \<and> inc = 0)
        in (Ok (PollData inc (if take then status_out s else ucast complete) setup),
            s\<lparr>ep_in_complete := None, status_out := (if take then 0 else status_out s),
              last_poll_was_none := False\<rparr>))
     else (Ok PollNone, s\<lparr>last_poll_was_none := True\<rparr>))"

definition poll :: "usb_hw \<Rightarrow> profile \<Rightarrow> poll_result usb" where
  "poll H p =
     abind (uwr USBSTS USBSTS_SRE) (\<lambda>_.
     abind (urd H USBSTS) (\<lambda>sts.
     if sts AND USBSTS_URI \<noteq> 0 then
       abind (modify (\<lambda>s. s\<lparr>last_poll_was_none := False\<rparr>)) (\<lambda>_. aret PollReset)
     else
       abind (urd H ENDPTSETUPSTAT) (\<lambda>v.
       let setup = ucast v :: u16 in
       abind (urd H ENDPTCOMPLETE) (\<lambda>complete.
       abind (if sts AND USBSTS_PCI \<noteq> 0 then port_change else aret ()) (\<lambda>_.
       abind (if setup \<noteq> 0 then modify (\<lambda>s. s\<lparr>setupstat := Some setup\<rparr>) else aret ()) (\<lambda>_.
       let txcomplete = drop_bit 16 complete in
       abind (if txcomplete \<noteq> 0 then afor (one_indices txcomplete) (end_write H p) else aret ()) (\<lambda>_.
       poll_report setup (if txcomplete \<noteq> 0 then complete AND 0xFFFF else complete))))))))"

definition bus_reset :: "usb_hw \<Rightarrow> unit usb" where
  "bus_reset H =
     abind (urmw H ENDPTSETUPSTAT (\<lambda>r. r)) (\<lambda>_.
     abind (urmw H ENDPTCOMPLETE (\<lambda>r. r)) (\<lambda>_.
     abind (wait_reg H ENDPTPRIME (\<lambda>v. v = 0) (2 * frame)) (\<lambda>_.
     abind (uwr ENDPTFLUSH 0xFFFFFFFF) (\<lambda>_.
     abind (urd H PORTSC1) (\<lambda>_.
     uwr USBSTS USBSTS_URI)))))"

definition enable :: "usb_hw \<Rightarrow> unit usb" where
  "enable H = urmw H USBCMD (\<lambda>usbcmd. usbcmd OR 1)"

definition set_device_address :: "usb_hw \<Rightarrow> profile \<Rightarrow> u8 \<Rightarrow> unit usb" where
  "set_device_address H p addr =
     abind (uwr DEVICEADDR (push_bit 25 (ucast addr))) (\<lambda>_.
     abind (gets allocated_eps) (\<lambda>es. afor es (enable_ep H p)))"

definition set_stalled :: "bool \<Rightarrow> unit usb" where
  "set_stalled stalled = alift (if stalled then Panic else Ok ())"

section \<open>Taking the peripheral\<close>

text \<open>Where the linker put the static arrays of descriptors and buffers.\<close>

record usb_layout =
  dqh_list :: u32
  dtd_slots :: "u32 list"
  b64_slots :: "u32 list"
  b512_slots :: "u32 list"

definition usb_initial :: "usb_layout \<Rightarrow> trace \<Rightarrow> usb_state" where
  "usb_initial L tr =
     \<lparr>free_dtds = dtd_slots L, b64s = b64_slots L, b512s = b512_slots L, used_dqhs = 0, setupstat = None,
      ep_in_complete = None, last_poll_was_none = False, pre_status_out = 0, status_out = 0,
      shared = \<lparr>dqh_at = \<lambda>_. dqh_new, dtd_at = \<lambda>_. dtd_new, ram = \<lambda>_. 0\<rparr>, accesses = tr\<rparr>"

definition usb_power_up :: "hw \<Rightarrow> (usb_error, unit) io" where
  "usb_power_up hw =
     abind (wr (Usb PLL_USB1_SET) (push_bit 12 1)) (\<lambda>_.
     abind (wr (Usb PLL_USB1_SET) (push_bit 6 1)) (\<lambda>_.
     abind (await hw (Usb PLL_USB1) (\<lambda>v. v AND push_bit 31 1 \<noteq> 0)) (\<lambda>_.
     abind (wr (Usb PLL_USB1_CLR) (push_bit 31 1)) (\<lambda>_.
     abind (wr (Usb PLL_USB1_SET) (push_bit 13 1)) (\<lambda>_.
     abind (wr (Usb PHY_CTRL_SET) (push_bit 31 1)) (\<lambda>_.
     abind (wr (Usb PHY_CTRL_CLR) (push_bit 31 1)) (\<lambda>_.
     abind (wr (Usb PHY_CTRL_CLR) (push_bit 30 1)) (\<lambda>_.
     abind (wr (Usb PHY_PWD_CLR) (push_bit 20 1 OR push_bit 19 1 OR push_bit 18 1 OR push_bit 17 1 OR
       push_bit 12 1 OR push_bit 11 1 OR push_bit 10 1)) (\<lambda>_.
     abind (wr (Usb PHY_CTRL_SET) (push_bit 14 1)) (\<lambda>_.
     abind (wr (Usb PHY_CTRL_SET) (push_bit 15 1)) (\<lambda>_.
     abind (wr (Usb PHY_CTRL_SET) (push_bit 1 1)) (\<lambda>_.
     abind (wr (Usb USB1_CHRG_DETECT_SET) (push_bit 19 1)) (\<lambda>_.
     wr (Usb USB1_CHRG_DETECT_SET) (push_bit 20 1))))))))))))))"

definition wait_or_reset :: "hw \<Rightarrow> usb_reg \<Rightarrow> (u32 \<Rightarrow> bool) \<Rightarrow> duration \<Rightarrow> (usb_error, unit) io" where
  "wait_or_reset hw r q t =
     abind (wait_for_or_timeout hw (abind (rd hw (Usb r)) (\<lambda>v. aret (q v, ()))) t) (\<lambda>x.
     if x = None then alift Reset else aret ())"

definition usb_take :: "hw \<Rightarrow> usb_layout \<Rightarrow> (usb_error, usb_state) io" where
  "usb_take hw L =
     abind (usb_power_up hw) (\<lambda>_.
     abind (rmw hw (Usb USBCMD) (\<lambda>v. v OR push_bit 1 1)) (\<lambda>_.
     abind (wait_or_reset hw USBCMD (\<lambda>v. v AND push_bit 1 1 = 0) (2 * frame)) (\<lambda>_.
     abind (rmw hw (Usb USBMODE) (\<lambda>v. (v AND NOT 3) OR 2)) (\<lambda>_.
     abind (rmw hw (Usb USBMODE) (\<lambda>v. v OR push_bit 3 1)) (\<lambda>_.
     abind (rmw hw (Usb USBMODE) (\<lambda>v. v AND NOT (push_bit 4 1))) (\<lambda>_.
     abind (wait_or_reset hw USBMODE (\<lambda>v. v AND 3 = 2) (2 * frame)) (\<lambda>_.
     abind (wr (Usb ENDPTLISTADDR) (dqh_list L)) (\<lambda>_.
     abind (rmw hw (Usb OTGSC) (\<lambda>v. v OR push_bit 3 1)) (\<lambda>_.
     abind (rmw hw (Usb USBINTR) (\<lambda>v. v OR 1 OR push_bit 2 1 OR push_bit 4 1 OR push_bit 5 1 OR push_bit 7 1)) (\<lambda>_.
     (\<lambda>tr. (Ok (usb_initial L tr), tr))))))))))))"

definition interrupts_pending :: "hw \<Rightarrow> (usb_error, bool) io" where
  "interrupts_pending hw = abind (rd hw (Usb USBSTS)) (\<lambda>v. aret (v AND 1 \<noteq> 0))"

definition clear_start_of_frame_interrupt :: "(usb_error, unit) io" where
  "clear_start_of_frame_interrupt = wr (Usb USBSTS) (push_bit 7 1)"

section \<open>Evaluation\<close>

named_theorems usb_eval "the effect of single accesses"

lemma on_regs_eval [usb_eval]:
  "on_regs (rd hw r) s = (Ok (answer hw (accesses s) r), s\<lparr>accesses := Rd r (answer hw (accesses s) r) # accesses s\<rparr>)"
  "on_regs (wr r v) s = (Ok (), s\<lparr>accesses := Wr r v # accesses s\<rparr>)"
  "on_regs (rmw hw r f) s = (Ok (), s\<lparr>accesses :=
     Wr r (f (answer hw (accesses s) r)) # Rd r (answer hw (accesses s) r) # accesses s\<rparr>)"
  by (simp_all add: on_regs_def rd_def wr_def rmw_def)

lemma mem_eval [usb_eval]:
  "gets g s = (Ok (g s), s)" "modify h s = (Ok (), h s)"
  "mem_get H f s = (let m = dma H (accesses s) (shared s) in (Ok (f m), s\<lparr>shared := m\<rparr>))"
  "mem_set H k s = (let m = dma H (accesses s) (shared s) in (Ok (), s\<lparr>shared := k m\<rparr>))"
  by (simp_all add: gets_def modify_def mem_get_def mem_set_def sync_def Let_def)

end
