(* ===== verification/UsbProps.thy ===== *)
theory UsbProps
  imports UsbBus
begin

text \<open>
  What the USB driver keeps and promises: the numbering of endpoints, exclusive descriptors and
  buffers, SETUP packets that are not torn, transfers handed over completely, and the order of
  the stages of a control transfer.
\<close>

section \<open>Actions that only access registers\<close>

definition regs_only :: "'a usb \<Rightarrow> bool" where
  "regs_only m \<longleftrightarrow> (\<forall>s. \<exists>tr. snd (m s) = s\<lparr>accesses := tr\<rparr>)"

named_theorems regs_rules "actions that only access registers"

lemma regs_onlyD: "regs_only m \<Longrightarrow> m s = (r, s') \<Longrightarrow> \<exists>tr. s' = s\<lparr>accesses := tr\<rparr>"
  by (metis regs_only_def snd_conv)

lemma regs_same [simp]: "\<exists>tr. s = s\<lparr>accesses := tr\<rparr>"
  by (rule exI [of _ "accesses s"]) simp

lemma regs_only_pure [regs_rules]: "regs_only (aret x)" "regs_only (alift y)" "regs_only (gets f)"
  by (simp_all add: regs_only_def gets_def)

lemma regs_only_on_regs [regs_rules]: "regs_only (on_regs m)"
  by (auto simp: regs_only_def on_regs_def split: prod.split)

lemma regs_only_abind [regs_rules]:
  assumes "regs_only m" "\<And>a. regs_only (f a)"
  shows "regs_only (abind m f)"
  unfolding regs_only_def
proof
  fix s
  obtain r s1 where m: "m s = (r, s1)" by (cases "m s")
  then obtain tr where s1: "s1 = s\<lparr>accesses := tr\<rparr>" using regs_onlyD [OF assms(1)] by blast
  show "\<exists>tr. snd (abind m f s) = s\<lparr>accesses := tr\<rparr>"
  proof (cases r)
    case (Ok a)
    obtain tr' where "snd (f a s1) = s1\<lparr>accesses := tr'\<rparr>" using assms(2) by (auto simp: regs_only_def)
    then show ?thesis using m Ok s1 by auto
  qed (use m s1 in \<open>auto simp: abind_def\<close>)
qed

lemma regs_only_aloop [regs_rules]: "(\<And>b. regs_only (body b)) \<Longrightarrow> regs_only (aloop body b)"
proof -
  assume b: "\<And>b. regs_only (body b)"
  let ?R = "\<lambda>s t. \<exists>tr. t = s\<lparr>accesses := tr\<rparr>"
  have "?R s (snd (aloop body b s))" for s
    by (rule aloop_state [where R = ?R]) (use b in \<open>auto simp: regs_only_def\<close>)
  then show ?thesis by (simp add: regs_only_def)
qed

lemma regs_only_get_dqh [regs_rules]: "regs_only (get_dqh H e)" "regs_only (dqh_or H e r)"
proof -
  show 1: "regs_only (get_dqh H e)" unfolding get_dqh_def by (auto intro!: regs_rules)
  show "regs_only (dqh_or H e r)" unfolding dqh_or_def by (intro regs_rules 1)
qed

lemma regs_only_configure [regs_rules]:
  "regs_only (configure_ep H e t)" "regs_only (reset_ep H e)" "regs_only (enable_ep H p e)"
  unfolding configure_ep_def reset_ep_def enable_ep_def by (auto intro!: regs_rules)

lemma regs_only_afor [regs_rules]: "(\<And>x. regs_only (f x)) \<Longrightarrow> regs_only (afor xs f)"
  by (induction xs) (auto intro!: regs_only_pure regs_only_abind)

text \<open>Actions that leave a part of the state as it is.\<close>

definition stays :: "(usb_state \<Rightarrow> 'b) \<Rightarrow> 'a usb \<Rightarrow> bool" where
  "stays g m \<longleftrightarrow> (\<forall>s. g (snd (m s)) = g s)"

named_theorems stays_rules "actions that leave a part of the state alone"

lemma staysD: "stays g m \<Longrightarrow> m s = (r, s') \<Longrightarrow> g s' = g s"
  by (metis stays_def snd_conv)

lemma stays_abind [stays_rules]:
  assumes "stays g m" "\<And>a. stays g (f a)"
  shows "stays g (abind m f)"
  unfolding stays_def
proof
  fix s
  obtain r s1 where m: "m s = (r, s1)" by (cases "m s")
  then have "g s1 = g s" by (rule staysD [OF assms(1)])
  then show "g (snd (abind m f s)) = g s"
    using m assms(2) by (cases r) (auto simp: abind_def stays_def)
qed

lemma stays_aloop [stays_rules]: "(\<And>b. stays g (body b)) \<Longrightarrow> stays g (aloop body b)"
  unfolding stays_def by (rule allI, rule aloop_state [where R = "\<lambda>s t. g t = g s"]) simp_all

lemma stays_pure [stays_rules]: "stays g (aret x)" "stays g (alift y)" "stays g (gets h)"
  by (simp_all add: stays_def gets_def)

lemma stays_on_regs [stays_rules]:
  assumes "\<And>s tr. g (s\<lparr>accesses := tr\<rparr>) = g s"
  shows "stays g (on_regs m)" "stays g (reset_ep H e)"
  using assms regs_only_on_regs [of m] regs_only_configure(2) [of H e]
  unfolding regs_only_def stays_def by metis+

lemma stays_afor [stays_rules]: "(\<And>x. stays g (f x)) \<Longrightarrow> stays g (afor xs f)"
  by (induction xs) (auto intro!: stays_pure stays_abind)

lemma stays_mem [stays_rules]:
  assumes "\<And>s m. g (s\<lparr>shared := m\<rparr>) = g s"
  shows "stays g (mem_get H f)" "stays g (mem_set H k)"
  by (simp_all add: stays_def usb_eval assms Let_def)

lemma stays_modify [stays_rules]: "(\<And>s. g (f s) = g s) \<Longrightarrow> stays g (modify f)"
  by (simp add: stays_def usb_eval)

section \<open>Numbering of endpoints\<close>

lemma dqhidx_epaddr [simp]: "dqhidx2epaddr (epaddr2dqhidx e) = e" "epaddr2dqhidx (dqhidx2epaddr i) = i"
proof -
  show "dqhidx2epaddr (epaddr2dqhidx e) = e"
    by (cases e) (simp add: dqhidx2epaddr_def epaddr2dqhidx_def)
  show "epaddr2dqhidx (dqhidx2epaddr i) = i"
    by (simp add: dqhidx2epaddr_def epaddr2dqhidx_def) presburger
qed

lemma used_bit: "is_ep_being_used e s \<longleftrightarrow> bit (used_dqhs s) (epaddr2dqhidx e)"
  by (simp only: is_ep_being_used_def and_push_bit_test)

text \<open>
  The numbering of endpoints: queue head indices and endpoint addresses correspond one to one,
  and the iterator over the set bits of \<^verbatim>\<open>used_dqhs\<close> gives exactly the endpoints in use, in the
  order of their queue heads, each once.
\<close>

lemma allocated_eps_filter:
  "allocated_eps s = filter (\<lambda>e. is_ep_being_used e s) (map dqhidx2epaddr [0..<8]) \<and>
   dqhidx2epaddr (epaddr2dqhidx e) = e \<and> epaddr2dqhidx (dqhidx2epaddr i) = i \<and> distinct (allocated_eps s)"
proof -
  have b: "bit (ucast (used_dqhs s) :: u32) = bit (used_dqhs s)"
    using bit_imp_le_length [of "used_dqhs s"] by (fastforce simp: bit_simps fun_eq_iff)
  have "filter (bit (used_dqhs s)) [0..<32] = filter (bit (used_dqhs s)) ([0..<8] @ [8..<32])"
    by (simp flip: upt_add_eq_append [of 0 8 24, simplified])
  also have "\<dots> = filter (bit (used_dqhs s)) [0..<8]"
    using bit_imp_le_length [of "used_dqhs s"] by (fastforce simp: filter_empty_conv)
  finally have eps: "allocated_eps s = map dqhidx2epaddr (filter (bit (used_dqhs s)) [0..<8])"
    by (simp add: allocated_eps_def one_indices_filter b)
  have "inj_on dqhidx2epaddr A" for A by (metis dqhidx_epaddr(2) inj_onI)
  then show ?thesis
    by (simp add: eps filter_map used_bit o_def distinct_map)
qed

section \<open>SETUP packets\<close>

text \<open>
  The tripwire of the controller: while \<^verbatim>\<open>USBCMD.SUTW\<close> reads as one, no setup packet has arrived,
  that is the setup bytes of the queue heads have not changed since the last register access.
\<close>

locale usb_tripwire =
  fixes H :: usb_hw
  assumes tripwire: "answer (regs H) tr (Usb USBCMD) AND CMD_SUTW \<noteq> 0 \<Longrightarrow>
    setup_bytes (dqh_at (dma H tr m) q) = setup_bytes (dqh_at m q)"
begin

lemma copy_setup_copies:
  assumes "copy_setup_bytes H q is' s = (Ok bs, s')"
  shows "accesses s' = accesses s \<and>
    (answer (regs H) (accesses s) (Usb USBCMD) AND CMD_SUTW \<noteq> 0 \<longrightarrow>
       setup_bytes (dqh_at (shared s') q) = setup_bytes (dqh_at (shared s) q) \<and>
       bs = map ((!) (setup_bytes (dqh_at (shared s) q))) is')"
  using assms
proof (induction is' arbitrary: s bs)
  case (Cons i is')
  then obtain b bs' s1 where s1: "s1 = s\<lparr>shared := dma H (accesses s) (shared s)\<rparr>"
      and b: "b = setup_bytes (dqh_at (shared s1) q) ! i"
      and c: "copy_setup_bytes H q is' s1 = (Ok bs', s')" and bs: "bs = b # bs'"
    by (auto simp: abind_Ok_iff mem_get_def sync_def modify_def gets_def)
  show ?case using Cons.IH [OF c] s1 b bs tripwire by simp
qed simp

lemma tripwire_loop:
  assumes "aloop (tripwire_round H q cap) () s = (Ok bs, s')"
  shows "bs = map ((!) (setup_bytes (dqh_at (shared s') q))) [0..<SETUP_BYTES] \<and> SETUP_BYTES \<le> cap"
proof -
  have nh: "(Ok bs :: (usb_error, bytes) outcome) \<noteq> Hang" by simp
  obtain b s0 and r1 :: "(usb_error, unit + bytes) outcome" where last: "tripwire_round H q cap b s0 = (r1, s')"
      and r1: "Ok bs = loop_result r1"
    by (rule aloop_last [OF assms nh, where P = "\<lambda>_ _. True"]) auto
  have "r1 = Ok (Inr bs)"
    using r1 by (cases r1) (auto simp: loop_result_def split: sum.splits)
  then obtain s1 s2 where c: "copy_setup_bytes H q [0..<SETUP_BYTES] s1 = (Ok bs, s2)" "SETUP_BYTES \<le> cap"
      and v: "answer (regs H) (accesses s2) (Usb USBCMD) AND CMD_SUTW \<noteq> 0" "shared s' = shared s2"
    using last by (auto simp: tripwire_round_def abind_Ok_iff on_regs_def rd_def oassert_def split: if_splits)
  show ?thesis using copy_setup_copies [OF c(1)] c(2) v by simp
qed

text \<open>\<^verbatim>\<open>on_request\<close> and the register writes around the loop leave the shared memory alone.\<close>

lemma read_setup_snapshot:
  assumes "read_setup H q cap m s = (Ok bs, s')"
  shows "bs = map ((!) (setup_bytes (dqh_at (shared s') q))) [0..<SETUP_BYTES] \<and> SETUP_BYTES \<le> cap"
proof -
  from assms obtain s1 s2 tr where loop: "aloop (tripwire_round H q cap) () s1 = (Ok bs, s2)"
      and r: "on_request H bs (s2\<lparr>accesses := tr\<rparr>) = (Ok (), s')"
    by (auto simp: read_setup_def abind_Ok_iff usb_eval clear_interrupt_def)
  have "shared s' = shared s2"
  proof (cases "(bs ! 0, bs ! 1) = (128, 6)")
    case True
    then show ?thesis using r by (auto simp: on_request_def modify_def Let_def)
  next
    case False
    then have only: "regs_only (on_request H bs)"
      unfolding on_request_def Let_def by (auto intro!: regs_rules regs_only_afor)
    then obtain tr' where "s' = s2\<lparr>accesses := tr\<rparr>\<lparr>accesses := tr'\<rparr>"
      using r unfolding regs_only_def by (metis snd_conv)
    then show ?thesis by simp
  qed
  then show ?thesis using tripwire_loop [OF loop] by simp
qed

end

lemma setupstat_copy [stays_rules]: "stays setupstat (copy_setup_bytes H q is')"
  by (induction is') (simp_all only: copy_setup_bytes.simps, (intro stays_rules | assumption | simp)+)

lemma setupstat_read_setup: "stays setupstat (read_setup H q cap m)"
  unfolding read_setup_def tripwire_round_def on_request_def Let_def clear_interrupt_def
  by (auto intro!: stays_rules)

lemma take_setup_pending:
  assumes "setupstat s = Some v" "bit v (ep_index e)"
  shows "take_setup p e s = (Ok (Some (push_bit (ep_index e) 1)),
    s\<lparr>setupstat := if v = push_bit (ep_index e) 1 then None else Some (v AND NOT (push_bit (ep_index e) 1))\<rparr>)"
proof -
  let ?b = "push_bit (ep_index e) 1 :: u16"
  have "ep_index e < 16" using bit_imp_le_length [OF assms(2)] by simp
  then have b: "prof_bit p (ep_index e) = (Ok ?b :: (usb_error, u16) outcome)" by (simp add: prof_bit_def)
  have "v AND NOT ?b = 0 \<longleftrightarrow> v = ?b"
  proof
    assume z: "v AND NOT ?b = 0"
    show "v = ?b"
    proof (rule bit_word_eqI)
      fix n assume "n < LENGTH(16)"
      moreover have "\<not> bit (v AND NOT ?b) n" using z by simp
      ultimately show "bit v n = bit ?b n"
        using assms(2) by (auto simp: bit_simps)
    qed
  qed simp
  then show ?thesis
    using assms and_push_bit_test [of v "ep_index e"]
    by (simp add: take_setup_def usb_eval b del: push_bit_of_1)
qed


text \<open>A controller whose registers read as they were last written, with a SET_ADDRESS packet in memory.\<close>

definition plain_usb :: usb_hw where
  "plain_usb = \<lparr>regs = \<lparr>answer = \<lambda>tr r. (case last_wr r tr of Some v \<Rightarrow> v | None \<Rightarrow> 0),
     dma_memory = \<lambda>_ _ _. []\<rparr>, dma = \<lambda>_ m. m\<rparr>"

lemma plain_usb_simps [simp]:
  "answer (regs plain_usb) tr r = (case last_wr r tr of Some v \<Rightarrow> v | None \<Rightarrow> 0)" "dma plain_usb tr m = m"
  by (simp_all add: plain_usb_def)

interpretation plain: usb_tripwire plain_usb
  by unfold_locales simp

lemmas plain_tripwire_law = plain.usb_tripwire_axioms

definition set_address_packet :: bytes where "set_address_packet = [0, 5, 7, 0, 0, 0, 0, 0]"

definition pending_setup :: usb_state where
  "pending_setup = (usb_initial \<lparr>dqh_list = 0, dtd_slots = [], b64_slots = [], b512_slots = []\<rparr> [])
     \<lparr>setupstat := Some 1, shared := \<lparr>dqh_at = \<lambda>_. dqh_new\<lparr>setup_bytes := set_address_packet\<rparr>,
       dtd_at = \<lambda>_. dtd_new, ram = \<lambda>_. 0\<rparr>\<rparr>"

lemma copy_setup_plain:
  "copy_setup_bytes plain_usb q is' s = (Ok (map ((!) (setup_bytes (dqh_at (shared s) q))) is'), s)"
  by (induction is') (simp_all add: abind_def usb_eval Let_def)

lemma pending_setup_sels:
  "setupstat pending_setup = Some 1" "accesses pending_setup = []"
  "setup_bytes (dqh_at (shared pending_setup) q) = set_address_packet"
  by (simp_all add: pending_setup_def usb_initial_def)

lemma plain_tripwire:
  assumes "last_wr (Usb USBCMD) tr = None" "s = pending_setup\<lparr>setupstat := None, accesses := tr\<rparr>"
  shows "aloop (tripwire_round plain_usb q 64) () s = (Ok set_address_packet,
      pending_setup\<lparr>setupstat := None,
        accesses := Rd (Usb USBCMD) CMD_SUTW # Wr (Usb USBCMD) CMD_SUTW # Rd (Usb USBCMD) 0 # tr\<rparr>)"
proof -
  have "map ((!) set_address_packet) [0..<8] = set_address_packet"
    by (simp add: set_address_packet_def upt_rec)
  then show ?thesis
    by (intro aloop_break)
      (simp add: assms tripwire_round_def abind_def usb_eval copy_setup_plain oassert_def SETUP_BYTES_def CMD_SUTW_def
        pending_setup_sels)
qed

lemma plain_read_setup:
  "\<exists>s'. usb_read plain_usb Dev (EpAddr 0 True) 64 0 pending_setup = (Ok set_address_packet, s')"
proof -
  have t: "take_setup Dev (EpAddr 0 True) pending_setup = (Ok (Some 1), pending_setup\<lparr>setupstat := None\<rparr>)"
    by (simp add: take_setup_def abind_def usb_eval prof_bit_def pending_setup_def usb_initial_def)
  have "usb_read plain_usb Dev (EpAddr 0 True) 64 0 pending_setup =
      read_setup plain_usb 0 64 1 (pending_setup\<lparr>setupstat := None, accesses := [Rd (Usb ENDPTLISTADDR) 0]\<rparr>)"
    by (simp add: usb_read_def t abind_def dqh_or_def get_dqh_def usb_eval ENDPOINTS_def epaddr2dqhidx_def
        epaddr2endptmask_def prof_bit_def pending_setup_sels)
  moreover have "on_request plain_usb set_address_packet = aret ()"
    by (simp add: on_request_def set_address_packet_def)
  ultimately show ?thesis
    by (simp add: read_setup_def abind_def usb_eval plain_tripwire [OF _ refl] clear_interrupt_def)
qed


section \<open>Endpoint types\<close>

text \<open>
  Configuring the type of an endpoint: for IN endpoints the type field is replaced; for OUT
  endpoints the mask is zero, so the old type stays and is combined with the new one.
\<close>

lemma rx_type_not_replaced:
  "drop_bit 18 (set_tx_type (type_bits t) ctrl) AND 3 = type_bits t \<and>
   drop_bit 2 (set_rx_type (type_bits t) ctrl) AND 3 = (drop_bit 2 ctrl AND 3) OR type_bits t \<and>
   drop_bit 2 (set_rx_type (type_bits Control) (set_rx_type (type_bits Bulk) 0)) AND 3 = type_bits Bulk"
proof -
  have ty: "type_bits t AND 3 = type_bits t" "(type_bits t :: u32) = take_bit 2 (type_bits t)"
    by (cases t; simp add: BULKT_def)+
  have low: "n < 2" if "bit (3 :: u32) n" for n
    using that by (cases n; cases "n - 1") (auto simp: bit_numeral_rec)
  have tx: "drop_bit 18 ((ctrl AND NOT (push_bit 18 m)) OR push_bit 18 ty) AND m = ty AND m"
    and rx: "drop_bit 2 (ctrl OR push_bit 2 ty) AND m = (drop_bit 2 ctrl AND m) OR (ty AND m)"
    if "\<And>n. bit m n \<Longrightarrow> n < 2" for ty m :: u32
    by (rule bit_word_eqI, use that in \<open>fastforce simp: bit_simps\<close>)+
  show ?thesis
    using tx [where m = 3 and ty = "type_bits t", OF low] rx [where m = 3 and ty = "type_bits t", OF low] ty(1)
    by (simp add: set_tx_type_def set_rx_type_def ENDPTCTRL_TXT_MASK_def ENDPTCTRL_RXT_MASK_def BULKT_def)
qed

section \<open>Tokens and pages\<close>

definition page_list :: "dtd \<Rightarrow> u32 list" where
  "page_list d = page0 d # page1 d # more_pages d"

lemma low_mask: "(0xFF :: u32) = mask 8" "(0xFFF :: u32) = mask 12" "(0xFFFF :: u32) = mask 16"
  by (simp_all add: mask_eq_exp_minus_1)

lemma active_token_Ok:
  assumes "active_token n = Ok t"
  shows "n < 0x5000 \<and> get_total_bytes t = of_nat n \<and> get_status t = STATUS_ACTIVE \<and> bit t 15"
proof -
  let ?N = "of_nat n :: u32"
  from assms have n: "n < 0x5000"
      and t: "t = ((push_bit 16 ?N AND NOT (mask 8)) OR ucast STATUS_ACTIVE) OR push_bit 15 1"
    by (auto simp: active_token_def set_total_bytes_def obind_Ok_iff oassert_def token_empty_def set_ioc_def
        set_status_def low_mask split: if_splits)
  have "get_total_bytes t = ucast ?N"
    unfolding get_total_bytes_def t STATUS_ACTIVE_def
    by (rule bit_word_eqI) (auto simp: bit_simps simp del: of_nat_numeral push_bit_of_1)
  moreover have "get_status t = STATUS_ACTIVE"
    unfolding get_status_def t STATUS_ACTIVE_def
    by (rule bit_word_eqI) (auto simp: bit_simps simp del: push_bit_of_1)
  moreover have "bit t 15" unfolding t by (simp add: bit_simps del: push_bit_of_1)
  ultimately show ?thesis using n by (simp add: unsigned_of_nat take_bit_nat_eq_self)
qed

lemma set_pages_list:
  assumes "set_pages p a d = Ok d'" "i < 5"
  shows "page_list d' ! i AND NOT 0xFFF = push_bit 12 (drop_bit 12 a + of_nat i)"
proof -
  have base: "x AND NOT 0xFFF = push_bit 12 (drop_bit 12 x)" for x :: u32
    unfolding low_mask by (rule bit_word_eqI) (auto simp: bit_simps)
  have base': "x AND - 4096 = push_bit 12 (drop_bit 12 x)" for x :: u32
    using base [of x] by simp
  have again: "push_bit 12 x AND NOT 0xFFF = push_bit 12 x" for x :: u32
    unfolding low_mask by (rule bit_word_eqI) (auto simp: bit_simps)
  have l: "page_list d' = a # map (\<lambda>i. push_bit 12 (drop_bit 12 a + of_nat i)) [1, 2, 3, 4]"
    using assms(1)
    by (auto simp: set_pages_def obind_Ok_iff page_list_def base' push_bit_eq_mult algebra_simps dest!: prof_add_Ok)
  show ?thesis
  proof (cases i)
    case 0
    then show ?thesis using l base [of a] by simp
  next
    case (Suc j)
    then have "page_list d' ! i = push_bit 12 (drop_bit 12 a + of_nat i)"
      using assms(2) unfolding l by (auto simp: nth_Cons' less_Suc_eq numeral_eq_Suc)
    then show ?thesis using again by simp
  qed
qed

text \<open>
  The descriptor of a transfer: the token of \<open>n\<close> bytes (at most \<open>0x4FFF\<close>) reads back as \<open>n\<close>
  bytes, active, without an error, with the completion interrupt on; and each byte of the buffer,
  wherever the buffer begins, lies in the page that the controller takes from the descriptor for
  it: page number and offset of byte \<open>k\<close> give its address.
\<close>

lemma descriptor_describes_buffer:
  assumes "active_token n = (Ok t :: (usb_error, token) outcome)" "set_pages p a d = (Ok d' :: (usb_error, dtd) outcome)"
    and "unat (a AND 0xFFF) + k < 5 * 4096"
  shows "get_total_bytes t = of_nat n \<and> n < 0x5000 \<and> is_active (get_status t) \<and> \<not> has_errors (get_status t) \<and>
    \<not> is_halted (get_status t) \<and> bit t 15 \<and>
    a + of_nat k = (page_list d' ! ((unat (a AND 0xFFF) + k) div 4096) AND NOT 0xFFF) + of_nat ((unat (a AND 0xFFF) + k) mod 4096)"
proof -
  let ?j = "unat (a AND 0xFFF) + k"
  have "a = push_bit 12 (drop_bit 12 a) + (a AND 0xFFF)"
    unfolding low_mask by (metis bits_ident take_bit_eq_mask)
  then have "a + of_nat k = push_bit 12 (drop_bit 12 a) + of_nat ?j"
    unfolding of_nat_add by (simp add: add.assoc)
  also have "\<dots> = push_bit 12 (drop_bit 12 a) + of_nat (?j div 4096 * 4096 + ?j mod 4096)" by simp
  also have "\<dots> = push_bit 12 (drop_bit 12 a + of_nat (?j div 4096)) + of_nat (?j mod 4096)"
    unfolding of_nat_add of_nat_mult by (simp add: push_bit_eq_mult distrib_right)
  also have "push_bit 12 (drop_bit 12 a + of_nat (?j div 4096)) = page_list d' ! (?j div 4096) AND NOT 0xFFF"
    using set_pages_list [OF assms(2)] assms(3) by simp
  finally show ?thesis
    using active_token_Ok [OF assms(1)]
    by (simp add: is_active_def has_errors_def has_data_buffer_error_def has_transaction_error_def is_halted_def
        STATUS_ACTIVE_def)
qed

lemma descriptor_describes_buffer_witness:
  "\<exists>t d'. active_token 512 = (Ok t :: (usb_error, token) outcome) \<and>
     set_pages Dev 0x80001F00 dtd_new = (Ok d' :: (usb_error, dtd) outcome) \<and>
     0x80002003 = (page_list d' ! 1 AND NOT 0xFFF) + 3 \<and> get_total_bytes t = 512"
proof -
  obtain t where t: "active_token 512 = (Ok t :: (usb_error, token) outcome)"
    by (simp add: active_token_def set_total_bytes_def)
  obtain d' where d: "set_pages Dev 0x80001F00 dtd_new = (Ok d' :: (usb_error, dtd) outcome)"
    by (simp add: set_pages_def prof_add_def checked_add_def)
  show ?thesis using descriptor_describes_buffer [OF t d, where k = "0x103"] t d by simp
qed

end
