(* ===== verification/UsbAlloc.thy ===== *)
theory UsbAlloc
  imports UsbProps "HOL-Library.Multiset"
begin

text \<open>
  Allocation of endpoints: no transfer descriptor and no buffer is lost or handed out twice.
\<close>

section \<open>What an allocation does\<close>

text \<open>
  Before the device is enabled the controller neither changes the shared memory nor the list
  address.
\<close>

definition idle_controller :: "usb_hw \<Rightarrow> u32 \<Rightarrow> bool" where
  "idle_controller H base \<longleftrightarrow>
     (\<forall>tr m. dma H tr m = m) \<and> (\<forall>tr. answer (regs H) tr (Usb ENDPTLISTADDR) = base)"

lemma idle_mem:
  assumes "idle_controller H base"
  shows "mem_get H f s = (Ok (f (shared s)), s)" "mem_set H k s = (Ok (), s\<lparr>shared := k (shared s)\<rparr>)"
  using assms by (simp_all add: idle_controller_def usb_eval Let_def)

lemma idle_dqh_or:
  assumes "idle_controller H base"
  shows "dqh_or H e r s = (if epaddr2dqhidx e < 4
     then (Ok (base + 64 * of_nat (epaddr2dqhidx e)), s\<lparr>accesses := Rd (Usb ENDPTLISTADDR) base # accesses s\<rparr>)
     else (r, s))"
  using assms by (simp add: idle_controller_def dqh_or_def get_dqh_def usb_eval ENDPOINTS_def)

lemma is_ep_being_used_accesses [simp]: "is_ep_being_used e (s\<lparr>accesses := tr\<rparr>) = is_ep_being_used e s"
  by (simp add: is_ep_being_used_def)

definition free_slot :: "usb_hw \<Rightarrow> u32 \<Rightarrow> usb_state \<Rightarrow> ep_addr \<times> u32 \<Rightarrow> bool" where
  "free_slot H base s = (\<lambda>(e, q). epaddr2dqhidx e < 4 \<and> \<not> is_ep_being_used e s \<and>
     q = base + 64 * of_nat (epaddr2dqhidx e))"

lemma pick_ep_loop:
  assumes idle: "idle_controller H base"
    and loop: "aloop (\<lambda>i.
            abind (dqh_or H (EpAddr i out) (Err EndpointOverflow)) (\<lambda>q.
            abind (gets (is_ep_being_used (EpAddr i out))) (\<lambda>used.
            aret (if used then Inl (i + 1) else Inr (EpAddr i out, q))))) (1 :: nat) s = (r, s')"
  shows "\<exists>tr. s' = s\<lparr>accesses := tr\<rparr> \<and> (case r of Ok x \<Rightarrow> free_slot H base s x | Err e \<Rightarrow> e = EndpointOverflow | _ \<Rightarrow> False)"
proof -
  let ?body = "\<lambda>i. abind (dqh_or H (EpAddr i out) (Err EndpointOverflow)) (\<lambda>q.
            abind (gets (is_ep_being_used (EpAddr i out))) (\<lambda>used.
            aret (if used then Inl (i + 1) else Inr (EpAddr i out, q)))) :: (nat + ep_addr \<times> u32) usb"
  let ?idx = "\<lambda>i. epaddr2dqhidx (EpAddr i out)"
  have idx: "?idx 1 < 4" "\<not> ?idx (Suc 1) < 4" by (simp_all add: epaddr2dqhidx_def)
  let ?s1 = "s\<lparr>accesses := Rd (Usb ENDPTLISTADDR) base # accesses s\<rparr>"
  show ?thesis
  proof (cases "is_ep_being_used (EpAddr 1 out) s")
    case False
    have "aloop ?body 1 s = (Ok (EpAddr 1 out, base + 64 * of_nat (?idx 1)), ?s1)"
      by (rule aloop_break) (use idx False in \<open>simp add: idle_dqh_or [OF idle] abind_def gets_def\<close>)
    then show ?thesis using loop False idx by (auto simp: free_slot_def)
  next
    case True
    have first: "?body 1 s = (Ok (Inl (Suc 1)), ?s1)"
      using idx True by (simp add: idle_dqh_or [OF idle] abind_def gets_def)
    have second: "aloop ?body (Suc 1) ?s1 = (Err EndpointOverflow, ?s1)"
      by (rule aloop_err) (use idx in \<open>simp add: idle_dqh_or [OF idle] abind_def\<close>)
    have "aloop ?body 1 s = (Err EndpointOverflow, ?s1)"
      by (rule aloop_continue [where b' = "Suc 1" and s' = ?s1]) (use first second in simp_all)
    then show ?thesis using loop by auto
  qed
qed

lemma pick_ep_spec:
  assumes "idle_controller H base" "pick_ep H out e s = (r, s')"
  shows "\<exists>tr. s' = s\<lparr>accesses := tr\<rparr> \<and> (case r of Ok x \<Rightarrow> free_slot H base s x | Err _ \<Rightarrow> True | _ \<Rightarrow> False)"
proof (cases e)
  case None
  then show ?thesis
    using pick_ep_loop [OF assms(1), of out s r s'] assms(2)
    by (auto simp: pick_ep_def split: outcome.splits)
next
  case (Some a)
  then show ?thesis
    using assms(2) regs_same [of s]
    by (auto simp: pick_ep_def idle_dqh_or [OF assms(1)] abind_def gets_def free_slot_def split: if_splits)
qed

lemma configure_accesses: "configure_ep H e t s = (r, s') \<Longrightarrow> \<exists>tr. s' = s\<lparr>accesses := tr\<rparr>"
  by (rule regs_onlyD [OF regs_only_configure(1)])

text \<open>The pools after a buffer was taken.\<close>

definition took_buffer :: "usb_state \<Rightarrow> u32 \<Rightarrow> usb_state \<Rightarrow> bool" where
  "took_buffer s b s' \<longleftrightarrow>
     b64s s \<noteq> [] \<and> b = last (b64s s) \<and> b64s s' = butlast (b64s s) \<and> b512s s' = b512s s \<or>
     b512s s \<noteq> [] \<and> b = last (b512s s) \<and> b512s s' = butlast (b512s s) \<and> b64s s' = b64s s"

lemma take_buffer_Ok:
  "take_buffer n s = (Ok b, s') \<Longrightarrow> took_buffer s b s' \<and> s' = s\<lparr>b64s := b64s s', b512s := b512s s'\<rparr>"
  by (auto simp: take_buffer_def took_buffer_def split: if_splits)

lemma take_dtd_Ok:
  "take_dtd s = (Ok d, s') \<longleftrightarrow> free_dtds s \<noteq> [] \<and> d = last (free_dtds s) \<and> s' = s\<lparr>free_dtds := butlast (free_dtds s)\<rparr>"
  by (auto simp: take_dtd_def)

lemma set_max_packet_size_fields:
  "set_max_packet_size n b x = Ok y \<Longrightarrow> next_dtd y = next_dtd x \<and> buffer_addr y = buffer_addr x"
  by (auto simp: set_max_packet_size_def obind_Ok_iff)

lemma alloc_ep_steps:
  assumes idle: "idle_controller H base" and ok: "alloc_ep H p out e t mps s = (Ok e', s')"
  obtains q s1 s2 s3 x d where "free_slot H base s (e', q)" "\<exists>tr. s1 = s\<lparr>accesses := tr\<rparr>"
    "set_max_packet_size mps True (dqh_at (shared s1) q) = (Ok x :: (usb_error, dqh) outcome)"
    "take_dtd (s1\<lparr>shared := set_dqh q (\<lambda>_. x) (shared s1)\<rparr>) = (Ok d, s2)"
    "(if is_out e' \<and> ep_index e' \<noteq> 0 then
              abind (take_buffer mps) (\<lambda>addr.
              abind (put_token H d (unat mps)) (\<lambda>_.
              abind (put_pages H p d addr) (\<lambda>_.
              dqh_set H q (set_address addr))))
            else aret ()) s2 = (Ok () :: (usb_error, unit) outcome, s3)"
    "\<exists>tr. s' = mark_ep_as_used e' (s3\<lparr>shared := set_dqh q (set_next_dtd (Some d)) (shared s3)\<rparr>)\<lparr>accesses := tr\<rparr>"
proof -
  from ok obtain q s1 s2 s3 x d tr where p: "pick_ep H out e s = (Ok (e', q), s1)"
      and x: "set_max_packet_size mps True (dqh_at (shared s1) q) = (Ok x :: (usb_error, dqh) outcome)"
      and d: "take_dtd (s1\<lparr>shared := set_dqh q (\<lambda>_. x) (shared s1)\<rparr>) = (Ok d, s2)"
      and b: "(if is_out e' \<and> ep_index e' \<noteq> 0 then
              abind (take_buffer mps) (\<lambda>addr.
              abind (put_token H d (unat mps)) (\<lambda>_.
              abind (put_pages H p d addr) (\<lambda>_.
              dqh_set H q (set_address addr))))
            else aret ()) s2 = (Ok () :: (usb_error, unit) outcome, s3)"
      and c: "(if ep_index e' \<noteq> 0 then configure_ep H e' t else aret ())
         (mark_ep_as_used e' (s3\<lparr>shared := set_dqh q (set_next_dtd (Some d)) (shared s3)\<rparr>)) = (Ok (), s')"
    unfolding alloc_ep_def
    by (auto simp: abind_Ok_iff idle_mem [OF idle] modify_def simp del: if_split split: prod.splits)
  have "\<exists>tr. s' = mark_ep_as_used e' (s3\<lparr>shared := set_dqh q (set_next_dtd (Some d)) (shared s3)\<rparr>)\<lparr>accesses := tr\<rparr>"
  proof (cases "ep_index e' = 0")
    case True
    then show ?thesis using c by (auto simp: mark_ep_as_used_def)
  next
    case False
    then show ?thesis using configure_accesses c by simp
  qed
  moreover have "free_slot H base s (e', q)" "\<exists>tr. s1 = s\<lparr>accesses := tr\<rparr>"
    using pick_ep_spec [OF idle p] by auto
  ultimately show ?thesis by (intro that [OF _ _ x d b])
qed

lemma buffer_step:
  assumes idle: "idle_controller H base"
    and ok: "abind (take_buffer mps) (\<lambda>addr.
              abind (put_token H d (unat mps)) (\<lambda>_.
              abind (put_pages H p d addr) (\<lambda>_.
              dqh_set H q (set_address addr)))) s2 = (Ok (), s3)"
  shows "\<exists>b. took_buffer s2 b s3 \<and> used_dqhs s3 = used_dqhs s2 \<and> free_dtds s3 = free_dtds s2 \<and>
    dqh_at (shared s3) = (dqh_at (shared s2))(q := set_address b (dqh_at (shared s2) q))"
proof -
  from ok obtain b t x s where b: "take_buffer mps s2 = (Ok b, s)"
      and s3: "s3 = s\<lparr>shared := set_dqh q (set_address b) (set_dtd d (\<lambda>_. x) (set_dtd d (\<lambda>x. x\<lparr>token_of := t\<rparr>) (shared s)))\<rparr>"
    by (auto simp: abind_Ok_iff put_token_def put_pages_def idle_mem [OF idle])
  obtain l1 l2 where "took_buffer s2 b s" "s = s2\<lparr>b64s := l1, b512s := l2\<rparr>" using take_buffer_Ok [OF b] by blast
  then show ?thesis
    using s3 by (intro exI [of _ b]) (auto simp: took_buffer_def set_dqh_def set_dtd_def)
qed

lemma alloc_ep_Ok:
  assumes idle: "idle_controller H base" and ok: "alloc_ep H p out e t mps s = (Ok e', s')"
  shows "epaddr2dqhidx e' < 4 \<and> \<not> is_ep_being_used e' s \<and>
    used_dqhs s' = used_dqhs s OR push_bit (epaddr2dqhidx e') 1 \<and>
    free_dtds s \<noteq> [] \<and> free_dtds s' = butlast (free_dtds s) \<and>
    (\<exists>x. dqh_at (shared s') = (dqh_at (shared s))(base + 64 * of_nat (epaddr2dqhidx e') := x) \<and>
       next_dtd x = last (free_dtds s) \<and>
       (if is_out e' \<and> ep_index e' \<noteq> 0 then \<exists>b. buffer_addr x = Some b \<and> took_buffer s b s'
        else b64s s' = b64s s \<and> b512s s' = b512s s))"
  using alloc_ep_steps [OF idle ok]
proof -
  obtain q s1 s2 s3 x d where slot: "free_slot H base s (e', q)" and s1: "\<exists>tr. s1 = s\<lparr>accesses := tr\<rparr>"
    and d: "take_dtd (s1\<lparr>shared := set_dqh q (\<lambda>_. x) (shared s1)\<rparr>) = (Ok d, s2)"
    and b: "(if is_out e' \<and> ep_index e' \<noteq> 0 then
              abind (take_buffer mps) (\<lambda>addr.
              abind (put_token H d (unat mps)) (\<lambda>_.
              abind (put_pages H p d addr) (\<lambda>_.
              dqh_set H q (set_address addr))))
            else aret ()) s2 = (Ok () :: (usb_error, unit) outcome, s3)"
    and s': "\<exists>tr. s' = mark_ep_as_used e' (s3\<lparr>shared := set_dqh q (set_next_dtd (Some d)) (shared s3)\<rparr>)\<lparr>accesses := tr\<rparr>"
    by (rule alloc_ep_steps [OF idle ok])
  obtain tr where s2: "s2 = s\<lparr>accesses := tr, shared := set_dqh q (\<lambda>_. x) (shared s), free_dtds := butlast (free_dtds s)\<rparr>"
      and fd: "free_dtds s \<noteq> []" "d = last (free_dtds s)"
    using d s1 by (auto simp: take_dtd_Ok)
  have q: "q = base + 64 * of_nat (epaddr2dqhidx e')" "epaddr2dqhidx e' < 4" "\<not> is_ep_being_used e' s"
    using slot by (simp_all add: free_slot_def)
  show ?thesis
  proof (cases "is_out e' \<and> ep_index e' \<noteq> 0")
    case True
    then obtain b where "took_buffer s2 b s3" "used_dqhs s3 = used_dqhs s2" "free_dtds s3 = free_dtds s2"
        "dqh_at (shared s3) = (dqh_at (shared s2))(q := set_address b (dqh_at (shared s2) q))"
      using buffer_step [OF idle, of mps d p q s2 s3] b by auto
    then show ?thesis
      using True s' s2 fd q
      by (auto simp: mark_ep_as_used_def set_dqh_def set_next_dtd_def set_address_def took_buffer_def)
  next
    case False
    then have "s3 = s2" using b by auto
    then show ?thesis
      using False s' s2 fd q by (auto simp: mark_ep_as_used_def set_dqh_def set_next_dtd_def)
  qed
qed

section \<open>Nothing is lost or shared\<close>

definition used_idx :: "usb_state \<Rightarrow> nat list" where
  "used_idx s = filter (bit (used_dqhs s)) [0..<4]"

definition ep_dtds :: "u32 \<Rightarrow> usb_state \<Rightarrow> u32 list" where
  "ep_dtds base s = map (\<lambda>i. next_dtd (dqh_at (shared s) (base + 64 * of_nat i))) (used_idx s)"

definition owns_buffer :: "nat \<Rightarrow> bool" where
  "owns_buffer i \<longleftrightarrow> is_out (dqhidx2epaddr i) \<and> ep_index (dqhidx2epaddr i) \<noteq> 0"

definition ep_buffers :: "u32 \<Rightarrow> usb_state \<Rightarrow> u32 option list" where
  "ep_buffers base s = map (\<lambda>i. buffer_addr (dqh_at (shared s) (base + 64 * of_nat i))) (filter owns_buffer (used_idx s))"

definition resources_kept :: "usb_layout \<Rightarrow> u32 \<Rightarrow> usb_state \<Rightarrow> bool" where
  "resources_kept L base s \<longleftrightarrow>
     mset (free_dtds s) + mset (ep_dtds base s) = mset (dtd_slots L) \<and>
     image_mset Some (mset (b64s s @ b512s s)) + mset (ep_buffers base s) = image_mset Some (mset (b64_slots L @ b512_slots L))"

lemma mset_butlast: "xs \<noteq> [] \<Longrightarrow> mset xs = add_mset (last xs) (mset (butlast xs))"
  by (metis append_butlast_last_id mset.simps(1) mset.simps(2) mset_append union_mset_add_mset_right add.right_neutral)

lemma used_idx_mark:
  assumes "i < 4" "\<not> bit (used_dqhs s) i" "used_dqhs s' = used_dqhs s OR push_bit i 1"
  shows "mset (used_idx s') = add_mset i (mset (used_idx s))" "i \<notin> set (used_idx s)"
proof -
  have b: "bit (used_dqhs s') = (\<lambda>j. bit (used_dqhs s) j \<or> j = i)"
    using assms(1) by (auto simp: assms(3) bit_simps fun_eq_iff)
  have f: "mset (filter (\<lambda>j. P j \<or> j = i) xs) = add_mset i (mset (filter P xs))"
    if "distinct xs" "i \<in> set xs" "\<not> P i" for P and xs :: "nat list"
    using that
  proof (induction xs)
    case (Cons x xs)
    show ?case
    proof (cases "i = x")
      case True
      then have "filter (\<lambda>j. P j \<or> j = i) xs = filter P xs"
        using Cons.prems by (intro filter_cong) auto
      then show ?thesis using True Cons.prems by (simp del: mset_filter)
    next
      case False
      then show ?thesis using Cons by (simp del: mset_filter)
    qed
  qed simp
  show "mset (used_idx s') = add_mset i (mset (used_idx s))"
    unfolding used_idx_def b by (rule f) (use assms in auto)
  show "i \<notin> set (used_idx s)" using assms(2) by (simp add: used_idx_def)
qed

lemma dqh_addr_inject:
  assumes "i < 4" "j < 4" "base + 64 * of_nat i = base + 64 * (of_nat j :: u32)"
  shows "i = j"
proof -
  have "unat (64 * of_nat k :: u32) = 64 * k" if "k < 4" for k :: nat
    using unat_of_nat_small [of "64 * k", where 'a = 32] that by simp
  then show ?thesis using assms by (metis add_left_cancel mult_cancel1 zero_neq_numeral)
qed

lemma map_update:
  assumes "mset is' = add_mset i (mset js)" "i \<notin> set js" "\<And>j. j \<in> set js \<Longrightarrow> j \<noteq> i \<Longrightarrow> g' j = g j"
  shows "mset (map g' is') = add_mset (g' i) (mset (map g js))"
proof -
  have "mset (map g' is') = image_mset g' (add_mset i (mset js))" using assms(1) by simp
  moreover have "image_mset g' (mset js) = image_mset g (mset js)"
    using assms(2,3) by (intro image_mset_cong) auto
  ultimately show ?thesis by simp
qed

lemma alloc_ep_kept:
  assumes idle: "idle_controller H base" and ok: "alloc_ep H p out e t mps s = (Ok e', s')"
    and inv: "resources_kept L base s"
  shows "resources_kept L base s'"
proof -
  let ?i = "epaddr2dqhidx e'"
  note A = alloc_ep_Ok [OF idle ok]
  from A obtain x where x: "dqh_at (shared s') = (dqh_at (shared s))(base + 64 * of_nat ?i := x)"
      "next_dtd x = last (free_dtds s)"
      "if is_out e' \<and> ep_index e' \<noteq> 0 then \<exists>b. buffer_addr x = Some b \<and> took_buffer s b s'
        else b64s s' = b64s s \<and> b512s s' = b512s s"
    by blast
  have i: "?i < 4" "\<not> bit (used_dqhs s) ?i" using A by (simp_all add: used_bit)
  note idx = used_idx_mark [OF i, of s']
  have idx': "mset (used_idx s') = add_mset ?i (mset (used_idx s))" "?i \<notin> set (used_idx s)"
    using A by (auto intro!: idx)
  have other: "dqh_at (shared s') (base + 64 * of_nat j) = dqh_at (shared s) (base + 64 * of_nat j)"
    if "j \<in> set (used_idx s)" for j
    using that idx'(2) dqh_addr_inject [of j ?i base] i(1) by (auto simp: x(1) used_idx_def)
  have own: "owns_buffer ?i \<longleftrightarrow> is_out e' \<and> ep_index e' \<noteq> 0" by (simp add: owns_buffer_def)
  have dtds: "mset (ep_dtds base s') = add_mset (last (free_dtds s)) (mset (ep_dtds base s))"
    unfolding ep_dtds_def
    by (rule map_update [OF idx', where g' = "\<lambda>i. next_dtd (dqh_at (shared s') (base + 64 * of_nat i))", THEN trans])
      (simp_all add: other, simp add: x(1,2))
  have free: "mset (free_dtds s) = add_mset (last (free_dtds s)) (mset (free_dtds s'))"
    using A mset_butlast [of "free_dtds s"] by (metis (no_types))
  have flt: "mset (filter owns_buffer (used_idx s')) =
      (if owns_buffer ?i then add_mset ?i (mset (filter owns_buffer (used_idx s))) else mset (filter owns_buffer (used_idx s)))"
    using idx'(1) by simp
  have bufs: "image_mset Some (mset (b64s s' @ b512s s')) + mset (ep_buffers base s') =
      image_mset Some (mset (b64s s @ b512s s)) + mset (ep_buffers base s)"
  proof (cases "owns_buffer ?i")
    case True
    then obtain b where b: "buffer_addr x = Some b" "took_buffer s b s'" using x(3) own by auto
    have "mset (ep_buffers base s') = add_mset (Some b) (mset (ep_buffers base s))"
      unfolding ep_buffers_def
      by (rule map_update [where i = ?i and js = "filter owns_buffer (used_idx s)"
            and g' = "\<lambda>i. buffer_addr (dqh_at (shared s') (base + 64 * of_nat i))", THEN trans])
        (use flt True idx'(2) in \<open>simp_all add: other\<close>, simp add: x(1) b(1))
    moreover have "mset (b64s s @ b512s s) = add_mset b (mset (b64s s' @ b512s s'))"
      using b(2) mset_butlast [of "b64s s"] mset_butlast [of "b512s s"] by (auto simp: took_buffer_def)
    ultimately show ?thesis by simp
  next
    case False
    then have "mset (ep_buffers base s') = mset (ep_buffers base s)"
      unfolding ep_buffers_def mset_map flt if_not_P [OF False] using other
      by (intro image_mset_cong) auto
    then show ?thesis using x(3) own False by auto
  qed
  show ?thesis
    using inv dtds free bufs by (simp add: resources_kept_def)
qed

fun alloc_all :: "usb_hw \<Rightarrow> profile \<Rightarrow> (bool \<times> ep_addr option \<times> ep_type \<times> u16) list \<Rightarrow> unit usb" where
  "alloc_all H p [] = aret ()"
| "alloc_all H p ((out, e, t, mps) # rs) = abind (alloc_ep H p out e t mps) (\<lambda>_. alloc_all H p rs)"

lemma alloc_all_kept:
  assumes "idle_controller H base" "alloc_all H p rs s0 = (Ok (), s)" "resources_kept L base s0"
  shows "resources_kept L base s"
  using assms(2,3)
proof (induction rs arbitrary: s0)
  case (Cons r rs)
  obtain out e t mps where r: "r = (out, e, t, mps)" by (cases r) auto
  show ?case
    using Cons alloc_ep_kept [OF assms(1)] unfolding r by (auto simp: abind_Ok_iff)
qed simp

text \<open>
  C9. No descriptor and no buffer is lost or shared: whatever endpoints are allocated, in any
  order and number, each transfer descriptor of the static array is either still in the pool or
  installed in exactly one queue head of an endpoint in use, and each buffer is either in a pool
  or belongs to exactly one OUT endpoint.
\<close>

theorem alloc_ep_exclusive:
  assumes "idle_controller H base" "distinct (dtd_slots L)" "distinct (b64_slots L @ b512_slots L)"
    and "alloc_all H p rs (usb_initial L tr) = (Ok (), s)"
  shows "distinct (free_dtds s @ ep_dtds base s) \<and> set (free_dtds s @ ep_dtds base s) = set (dtd_slots L) \<and>
    distinct (map Some (b64s s @ b512s s) @ ep_buffers base s) \<and>
    set (map Some (b64s s @ b512s s) @ ep_buffers base s) = Some ` set (b64_slots L @ b512_slots L)"
proof -
  have "resources_kept L base (usb_initial L tr)"
    by (simp add: resources_kept_def usb_initial_def ep_dtds_def ep_buffers_def used_idx_def)
  then have kept: "resources_kept L base s" by (rule alloc_all_kept [OF assms(1,4)])
  then have d: "mset (free_dtds s @ ep_dtds base s) = mset (dtd_slots L)"
    and b: "mset (map Some (b64s s @ b512s s) @ ep_buffers base s) = mset (map Some (b64_slots L @ b512_slots L))"
    by (simp_all add: resources_kept_def add.assoc)
  have "distinct (map Some (b64_slots L @ b512_slots L))" using assms(3) by (subst distinct_map) (simp add: inj_on_def)
  then show ?thesis
    using d b assms(2) mset_eq_imp_distinct_iff [OF d] mset_eq_imp_distinct_iff [OF b]
      mset_eq_setD [OF d] mset_eq_setD [OF b] by (simp add: image_Un)
qed

text \<open>A controller whose registers all read as zero and that does not touch the memory.\<close>

definition quiet_usb :: usb_hw where
  "quiet_usb = \<lparr>regs = \<lparr>answer = \<lambda>_ _. 0, dma_memory = \<lambda>_ _ _. []\<rparr>, dma = \<lambda>_ m. m\<rparr>"

definition small_layout :: usb_layout where
  "small_layout = \<lparr>dqh_list = 0, dtd_slots = [0x1000, 0x1020, 0x1040], b64_slots = [0x2000], b512_slots = [0x3000]\<rparr>"

lemma quiet_usb_simps [simp]: "answer (regs quiet_usb) tr r = 0" "dma quiet_usb tr m = m"
  by (simp_all add: quiet_usb_def)

lemma quiet_usb_allocates:
  "\<exists>s. alloc_all quiet_usb Dev [(True, Some (EpAddr 0 True), Control, 64), (True, Some (EpAddr 1 True), Bulk, 512)]
     (usb_initial small_layout []) = (Ok (), s)"
  by (simp add: abind_def alloc_ep_def pick_ep_def dqh_or_def get_dqh_def usb_eval Let_def epaddr2dqhidx_def
      ENDPOINTS_def set_max_packet_size_def caps_new_def oassert_def take_dtd_def take_buffer_def usb_initial_def
      small_layout_def is_ep_being_used_def mark_ep_as_used_def put_token_def active_token_def set_total_bytes_def
      put_pages_def set_pages_def prof_add_def checked_add_def configure_ep_def)

theorem alloc_ep_exclusive_witness:
  "\<exists>s. distinct (free_dtds s @ ep_dtds 0 s) \<and>
    set (map Some (b64s s @ b512s s) @ ep_buffers 0 s) = {Some 0x2000, Some 0x3000}"
proof -
  obtain s where s: "alloc_all quiet_usb Dev [(True, Some (EpAddr 0 True), Control, 64), (True, Some (EpAddr 1 True), Bulk, 512)]
     (usb_initial small_layout []) = (Ok (), s)"
    using quiet_usb_allocates by blast
  have i: "idle_controller quiet_usb 0" by (simp add: idle_controller_def)
  show ?thesis
    using alloc_ep_exclusive [OF i _ _ s] by (intro exI [of _ s]) (simp add: small_layout_def)
qed

end
