(* ===== verification/UsbFlow.thy ===== *)
theory UsbFlow
  imports UsbProps
begin

text \<open>
  Transfers of the USB driver: what a write hands over to the controller before it primes the
  endpoint, the order of the stages after GET_DESCRIPTOR, and the errors of the operations.
\<close>

section \<open>Handing over a transfer\<close>

text \<open>
  The endpoint with queue head \<open>q\<close> and descriptor \<open>d\<close> is idle after the accesses \<open>tr0\<close>: until an
  endpoint is primed, the controller leaves them and the memory of the buffers alone.
\<close>

definition is_prime :: "event \<Rightarrow> bool" where
  "is_prime x = (case x of Wr r v \<Rightarrow> r = Usb ENDPTPRIME | _ \<Rightarrow> False)"

locale idle_endpoint =
  fixes H :: usb_hw and q d :: u32 and tr0 :: trace
  assumes untouched: "\<not> (\<exists>x \<in> set es. is_prime x) \<Longrightarrow>
    dqh_at (dma H (es @ tr0) m) q = dqh_at m q \<and> dtd_at (dma H (es @ tr0) m) d = dtd_at m d \<and>
    ram (dma H (es @ tr0) m) = ram m"
begin

lemma untouched_here:
  "dqh_at (dma H tr0 m) q = dqh_at m q" "dtd_at (dma H tr0 m) d = dtd_at m d" "ram (dma H tr0 m) = ram m"
  "dqh_at (dma H (Rd r v # tr0) m) q = dqh_at m q" "dtd_at (dma H (Rd r v # tr0) m) d = dtd_at m d"
  "ram (dma H (Rd r v # tr0) m) = ram m"
  using untouched [of "[]" m] untouched [of "[Rd r v]" m] by (simp_all add: is_prime_def)

end

definition written_ram :: "u32 \<Rightarrow> bytes \<Rightarrow> usb_mem \<Rightarrow> bool" where
  "written_ram a bs m \<longleftrightarrow> (\<forall>i < length bs. ram m (a + of_nat i) = bs ! i)"

lemma put_ram_written: "length bs < 2 ^ 32 \<Longrightarrow> written_ram a bs (put_ram a bs m)"
  by (simp add: written_ram_def put_ram_def unat_of_nat_small)

lemma put_ram_sels [simp]: "dqh_at (put_ram a bs m) = dqh_at m" "dtd_at (put_ram a bs m) = dtd_at m"
  by (simp_all add: put_ram_def)

lemma active_token_short: "active_token n = (Ok t :: (usb_error, token) outcome) \<Longrightarrow> n < 0x5000"
  using active_token_Ok by blast

lemma dqh_or_bad: "\<not> epaddr2dqhidx e < ENDPOINTS \<Longrightarrow> dqh_or H e r s = (r, s)"
  by (simp add: dqh_or_def get_dqh_def)

context idle_endpoint
begin

text \<open>The steps of a write after the look-up of the queue head, on a memory the controller leaves alone.\<close>

lemma hand_over_steps:
  assumes "accesses s0 = Rd r v # tr0"
    and "fill_descriptor H p q d addr bs s0 = (Ok (), s1)"
  shows "accesses s1 = accesses s0 \<and> buffer_addr (dqh_at (shared s1) q) = Some addr \<and>
    next_dtd (dqh_at (shared s1) q) = next_dtd (dqh_at (shared s0) q) \<and>
    active_token (length bs) = (Ok (token_of (dtd_at (shared s1) d)) :: (usb_error, token) outcome) \<and>
    page0 (dtd_at (shared s1) d) = addr \<and> written_ram addr bs (shared s1)"
proof -
  from assms(2) obtain t x' m where t: "active_token (length bs) = (Ok t :: (usb_error, token) outcome)"
    and x: "set_pages p addr (dtd_at (shared s0) d\<lparr>token_of := t\<rparr>) = (Ok x' :: (usb_error, dtd) outcome)"
    and s1: "dqh_at (shared s1) q = set_address addr (dqh_at (shared s0) q)" "dtd_at (shared s1) d = x'"
      "ram (shared s1) = ram (put_ram addr bs m)" "accesses s1 = accesses s0"
    by (auto simp: fill_descriptor_def abind_Ok_iff put_token_def put_pages_def usb_eval Let_def assms(1) untouched_here set_dtd_def
        set_dqh_def)
  from x have "token_of x' = t" "page0 x' = addr" by (auto simp: set_pages_def obind_Ok_iff)
  moreover have "written_ram addr bs (shared s1)"
    using put_ram_written [of bs addr m] active_token_short [OF t] s1(3) by (simp add: written_ram_def)
  ultimately show ?thesis using t s1 by (simp add: set_address_def)
qed

text \<open>A read of the idle queue head.\<close>

lemma queue_head_read:
  assumes "abind (dqh_get H q f) k s2 = (Ok n, s')" "accesses s2 = Rd r v # tr0" "dqh_at (shared s2) q = x"
  obtains s3 where "k (f x) s3 = (Ok n, s')" "accesses s3 = Rd r v # tr0" "dqh_at (shared s3) q = x"
proof (rule that)
  let ?s3 = "s2\<lparr>shared := dma H (accesses s2) (shared s2)\<rparr>"
  show "k (f x) ?s3 = (Ok n, s')" using assms by (simp add: abind_def usb_eval Let_def untouched_here)
  show "accesses ?s3 = Rd r v # tr0" "dqh_at (shared ?s3) q = x" using assms by (simp_all add: untouched_here)
qed

lemma start_write_steps:
  assumes q: "q = answer (regs H) tr0 (Usb ENDPTLISTADDR) + 64 * of_nat (epaddr2dqhidx e)"
    and s: "accesses s = tr0" and d: "get_next_dtd (dqh_at (shared s) q) = Some d"
    and ok: "start_write H p e bs s = (Ok n, s')"
  shows "n = length bs \<and> length bs \<le> unat (get_max_packet_size (dqh_at (shared s) q)) \<and>
    get_current_dtd (dqh_at (shared s) q) = None \<and>
    (\<exists>msk v. epaddr2endptmask p e = (Ok msk :: (usb_error, u32) outcome) \<and>
      accesses s' = Wr (Usb ENDPTPRIME) (v OR msk) # Rd (Usb ENDPTPRIME) v #
        Rd (Usb ENDPTLISTADDR) (answer (regs H) tr0 (Usb ENDPTLISTADDR)) # tr0) \<and>
    get_next_dtd (dqh_at (shared s') q) = Some d \<and>
    active_token (length bs) = (Ok (token_of (dtd_at (shared s') d)) :: (usb_error, token) outcome) \<and>
    buffer_addr (dqh_at (shared s') q) = Some (page0 (dtd_at (shared s') d)) \<and>
    written_ram (page0 (dtd_at (shared s') d)) bs (shared s')"
proof -
  let ?rd = "Rd (Usb ENDPTLISTADDR) (answer (regs H) tr0 (Usb ENDPTLISTADDR))"
  have idx: "epaddr2dqhidx e < ENDPOINTS"
  proof (rule ccontr)
    assume "\<not> epaddr2dqhidx e < ENDPOINTS"
    then show False using ok by (simp add: start_write_def abind_Ok_iff dqh_or_bad)
  qed
  let ?s1 = "s\<lparr>accesses := ?rd # tr0\<rparr>"
  have q1: "dqh_or H e (Err InvalidEndpoint) s = (Ok q, ?s1)"
    using idx s by (simp add: dqh_or_def get_dqh_def usb_eval q)
  let ?x = "dqh_at (shared s) q"
  have s1: "accesses ?s1 = ?rd # tr0" "dqh_at (shared ?s1) q = ?x" by simp_all
  let ?check = "\<lambda>c. if c \<noteq> None then alift (Err WouldBlock) else start_transfer H p e q (get_max_packet_size ?x) bs"
  have "abind (dqh_get H q get_max_packet_size) (\<lambda>mps. if unat mps < length bs then alift (Err EndpointMemoryOverflow)
      else abind (dqh_get H q get_current_dtd) (\<lambda>c. if c \<noteq> None then alift (Err WouldBlock)
        else start_transfer H p e q mps bs)) ?s1 = (Ok n, s')"
    using ok q1 by (simp add: start_write_def abind_def [of "dqh_or H e (Err InvalidEndpoint)"])
  then obtain s2 where 2: "accesses s2 = ?rd # tr0" "dqh_at (shared s2) q = ?x"
      and c2: "(if unat (get_max_packet_size ?x) < length bs then alift (Err EndpointMemoryOverflow)
        else abind (dqh_get H q get_current_dtd) ?check) s2 = (Ok n, s')"
    by (rule queue_head_read [OF _ s1])
  then have len: "length bs \<le> unat (get_max_packet_size ?x)" and r2: "abind (dqh_get H q get_current_dtd) ?check s2 = (Ok n, s')"
    by (simp_all only: not_less [symmetric] alift_simp split: if_splits) simp_all
  from r2 2 obtain s3 where 3: "accesses s3 = ?rd # tr0" "dqh_at (shared s3) q = ?x"
      and c3: "?check (get_current_dtd ?x) s3 = (Ok n, s')"
    by (rule queue_head_read)
  then have cur: "get_current_dtd ?x = None" and r3: "start_transfer H p e q (get_max_packet_size ?x) bs s3 = (Ok n, s')"
    by (simp_all split: if_splits)
  obtain s4 where 4: "accesses s4 = ?rd # tr0" "dqh_at (shared s4) q = ?x"
      and r4: "abind (buffer_for H q (get_max_packet_size ?x)) (\<lambda>addr. abind (fill_descriptor H p q d addr bs) (\<lambda>_.
        abind (alift (epaddr2endptmask p e)) (\<lambda>msk. abind (prime H msk) (\<lambda>_. aret (length bs))))) s4 = (Ok n, s')"
    by (rule queue_head_read [OF r3 [unfolded start_transfer_def] 3]) (simp add: d abind_def)
  from r4 obtain s6 s7 addr msk where
      a: "buffer_for H q (get_max_packet_size ?x) s4 = (Ok addr, s6)"
      and h: "fill_descriptor H p q d addr bs s6 = (Ok (), s7)"
      and msk: "epaddr2endptmask p e = (Ok msk :: (usb_error, u32) outcome)"
      and fin: "abind (prime H msk) (\<lambda>_. aret (length bs)) s7 = (Ok n, s')"
    by (auto simp: abind_Ok_iff simp del: aret_simp)
  have 6: "accesses s6 = ?rd # tr0" "next_dtd (dqh_at (shared s6) q) = next_dtd ?x"
    using a 4 by (auto simp: buffer_for_def abind_Ok_iff take_buffer_def usb_eval Let_def set_dqh_def set_address_def
        untouched_here split: option.splits if_splits)
  have "n = length bs" "shared s' = shared s7"
      "\<exists>v. accesses s' = Wr (Usb ENDPTPRIME) (v OR msk) # Rd (Usb ENDPTPRIME) v # accesses s7"
    using fin by (auto simp: abind_Ok_iff prime_def usb_eval)
  then show ?thesis
    using hand_over_steps [OF 6(1) h] len cur 6 msk d by (auto simp: get_next_dtd_def split: if_splits)
qed

end

text \<open>
  C24. A write hands over a complete transfer before it primes the endpoint: when the endpoint is
  idle and \<^verbatim>\<open>start_write\<close> succeeds, the packet fits the endpoint; the queue head points to the
  descriptor, the descriptor holds an active token of the packet's length and its first page is
  the endpoint's buffer, the buffer holds the packet; and the write of the prime bit of this
  endpoint is the last access, after nothing but reads.
\<close>

theorem start_write_hands_over:
  assumes "idle_endpoint H q d (accesses s)"
    and "q = answer (regs H) (accesses s) (Usb ENDPTLISTADDR) + 64 * of_nat (epaddr2dqhidx e)"
    and "get_next_dtd (dqh_at (shared s) q) = Some d"
    and "start_write H p e bs s = (Ok n, s')"
  shows "n = length bs \<and> length bs \<le> unat (get_max_packet_size (dqh_at (shared s) q)) \<and>
    get_current_dtd (dqh_at (shared s) q) = None \<and>
    (\<exists>msk v. epaddr2endptmask p e = (Ok msk :: (usb_error, u32) outcome) \<and>
      accesses s' = Wr (Usb ENDPTPRIME) (v OR msk) # Rd (Usb ENDPTPRIME) v #
        Rd (Usb ENDPTLISTADDR) (answer (regs H) (accesses s) (Usb ENDPTLISTADDR)) # accesses s) \<and>
    get_next_dtd (dqh_at (shared s') q) = Some d \<and>
    active_token (length bs) = (Ok (token_of (dtd_at (shared s') d)) :: (usb_error, token) outcome) \<and>
    buffer_addr (dqh_at (shared s') q) = Some (page0 (dtd_at (shared s') d)) \<and>
    written_ram (page0 (dtd_at (shared s') d)) bs (shared s')"
  using idle_endpoint.start_write_steps [OF assms(1,2) refl assms(3,4)] .

interpretation plain_ep: idle_endpoint plain_usb q d tr
  by unfold_locales simp

lemmas plain_idle = plain_ep.idle_endpoint_axioms

definition ready_to_write :: usb_state where
  "ready_to_write = (usb_initial \<lparr>dqh_list = 0, dtd_slots = [], b64_slots = [], b512_slots = []\<rparr> [])
     \<lparr>shared := \<lparr>dqh_at = \<lambda>_. dqh_new\<lparr>caps_of := push_bit 16 64, next_dtd := 0x1000\<rparr>,
       dtd_at = \<lambda>_. dtd_new, ram = \<lambda>_. 0\<rparr>, b64s := [0x2000]\<rparr>"

lemma plain_start_write: "\<exists>s'. start_write plain_usb Dev (EpAddr 0 False) [1, 2, 3] ready_to_write = (Ok 3, s')"
  by (simp add: start_write_def start_transfer_def buffer_for_def fill_descriptor_def abind_def usb_eval dqh_or_def
      get_dqh_def ENDPOINTS_def epaddr2dqhidx_def ready_to_write_def usb_initial_def Let_def get_max_packet_size_def
      caps_max_packet_size_def get_current_dtd_def get_next_dtd_def NO_NEXT_DTD_def take_buffer_def dqh_new_def
      put_token_def active_token_def set_total_bytes_def put_pages_def set_pages_def prof_add_def checked_add_def
      epaddr2endptmask_def prof_bit_def prime_def set_dqh_def set_dtd_def put_ram_def set_address_def)

theorem start_write_hands_over_witness:
  "\<exists>s'. start_write plain_usb Dev (EpAddr 0 False) [1, 2, 3] ready_to_write = (Ok 3, s') \<and>
     get_next_dtd (dqh_at (shared s') 64) = Some 0x1000 \<and> written_ram (page0 (dtd_at (shared s') 0x1000)) [1, 2, 3] (shared s')"
proof -
  obtain s' where s': "start_write plain_usb Dev (EpAddr 0 False) [1, 2, 3] ready_to_write = (Ok 3, s')"
    using plain_start_write by blast
  have r: "accesses ready_to_write = []" "get_next_dtd (dqh_at (shared ready_to_write) 64) = Some 0x1000"
    by (simp_all add: ready_to_write_def usb_initial_def get_next_dtd_def NO_NEXT_DTD_def)
  show ?thesis
    using start_write_hands_over [OF plain_idle, of 64 ready_to_write "EpAddr 0 False", OF _ r(2) s'] r(1) s'
    by (auto simp: epaddr2dqhidx_def)
qed

section \<open>Status stage\<close>

text \<open>What the driver remembers between transfers.\<close>

definition flags :: "usb_state \<Rightarrow> u16 \<times> u16 \<times> u16 option \<times> u16 option" where
  "flags s = (pre_status_out s, status_out s, ep_in_complete s, setupstat s)"

lemma stays_flags:
  "stays flags (dqh_or H e r)" "stays flags (finish_transfer H m d)" "stays flags (keep_dtd H q d)"
proof -
  have r: "stays flags m" if "regs_only m" for m :: "'a usb"
    unfolding stays_def using regs_onlyD [OF that] by (metis flags_def prod.collapse usb_state.select_convs usb_state.update_convs(11) usb_state.surjective)
  show "stays flags (dqh_or H e r)" by (rule r [OF regs_only_get_dqh(2)])
  show "stays flags (finish_transfer H m d)" "stays flags (keep_dtd H q d)"
    unfolding finish_transfer_def keep_dtd_def clear_interrupt_def
    by (auto intro!: stays_rules simp: flags_def)
qed

lemma end_write_flags:
  assumes "end_write H p 0 s = (Ok (), s1)" "flags s = (1, 0, None, v)"
  shows "flags s1 = (0, 1, Some 1, v)"
proof -
  have m: "epaddr2endptmask p (EpAddr 0 False) = (Ok 0x10000 :: (usb_error, u32) outcome)"
    by (simp add: epaddr2endptmask_def prof_bit_def)
  from assms(1) obtain q d s2 s3 s4 where q: "dqh_or H (EpAddr 0 False) Panic s = (Ok q, s2)"
      and s3: "finish_transfer H 0x10000 d (s2\<lparr>shared := dma H (accesses s2) (shared s2)\<rparr>) = (Ok (), s3)"
      and s4: "set_ep_in_complete 0 s3 = (Ok (), s4)"
      and s1: "keep_dtd H q d (note_status 1 s4) = (Ok (), s1)"
    by (auto simp: end_write_def m abind_Ok_iff usb_eval Let_def)
  have "flags s3 = (1, 0, None, v)"
    using staysD [OF stays_flags(1) q] staysD [OF stays_flags(2) s3] assms(2) by (simp add: flags_def)
  then have "flags (note_status 1 s4) = (0, 1, Some 1, v)"
    using s4 by (auto simp: set_ep_in_complete_def ENDPOINTS_def abind_Ok_iff usb_eval note_status_def flags_def)
  then show ?thesis using staysD [OF stays_flags(3) s1] by simp
qed


definition transfer_ended :: usb_state where
  "transfer_ended = (usb_initial \<lparr>dqh_list = 0, dtd_slots = [], b64_slots = [], b512_slots = []\<rparr> [])
     \<lparr>shared := \<lparr>dqh_at = \<lambda>_. dqh_new\<lparr>current_dtd := 0x1000\<rparr>, dtd_at = \<lambda>_. dtd_new, ram = \<lambda>_. 0\<rparr>,
       pre_status_out := 1\<rparr>"


section \<open>Errors\<close>

text \<open>
  Endpoints the driver has no queue head for are refused, and the state is left alone: a write or a
  read gives \<^verbatim>\<open>InvalidEndpoint\<close>, an allocation \<^verbatim>\<open>EndpointOverflow\<close>; an isochronous endpoint is not
  supported and panics.
\<close>

lemma bad_endpoints_refused:
  assumes "2 \<le> ep_index e"
  shows "start_write H p e bs s = (Err InvalidEndpoint, s) \<and>
    usb_read H p e cap buf (s\<lparr>setupstat := None\<rparr>) = (Err InvalidEndpoint, s\<lparr>setupstat := None\<rparr>) \<and>
    alloc_ep H p out (Some e) t mps s = (if t = Isochronous then Panic else Err EndpointOverflow, s)"
proof -
  have b: "\<not> epaddr2dqhidx e < ENDPOINTS" using assms by (simp add: epaddr2dqhidx_def ENDPOINTS_def)
  show ?thesis
    by (simp add: start_write_def alloc_ep_def pick_ep_def usb_read_def take_setup_def abind_def usb_eval
        dqh_or_bad [OF b] oassert_def)
qed

lemma bad_endpoints_refused_witness:
  "start_write plain_usb Dev (EpAddr 2 False) [] ready_to_write = (Err InvalidEndpoint, ready_to_write)"
  using bad_endpoints_refused [of "EpAddr 2 False" plain_usb Dev "[]" ready_to_write] by simp

end
