(* ===== verification/Dcp.thy ===== *)
theory Dcp
  imports Clock
begin

text \<open>
  The data co-processor, \<^verbatim>\<open>firmware/usbarmory/src/dcp.rs\<close>, \<^verbatim>\<open>dcp/sha256.rs\<close> and \<^verbatim>\<open>dcp/aes128.rs\<close>:
  the command structure shared with the engine, the channels and who holds them, SHA-256 over a
  stream of inputs of any length, and AES-128 of single blocks. What a job of the engine reads is
  the memory handed over to it right before: its source and then its command.
\<close>

section \<open>Commands\<close>

datatype control0_bit =
    Interrupt0 | Decr_semaphore | Chain | Chain_contiguous | Enable_memcpy | Enable_cipher | Enable_hash | Enable_blit
  | Cipher_encrypt | Cipher_init | Otp_key | Payload_key | Hash_init | Hash_term | Check_hash | Hash_output
  | Constant_fill | Key_byteswap | Key_wordswap | Input_byteswap | Input_wordswap | Output_byteswap | Output_wordswap

fun control0_offset :: "control0_bit \<Rightarrow> nat" where
  "control0_offset Interrupt0 = 0" | "control0_offset Decr_semaphore = 1" | "control0_offset Chain = 2"
| "control0_offset Chain_contiguous = 3" | "control0_offset Enable_memcpy = 4" | "control0_offset Enable_cipher = 5"
| "control0_offset Enable_hash = 6" | "control0_offset Enable_blit = 7" | "control0_offset Cipher_encrypt = 8"
| "control0_offset Cipher_init = 9" | "control0_offset Otp_key = 10" | "control0_offset Payload_key = 11"
| "control0_offset Hash_init = 12" | "control0_offset Hash_term = 13" | "control0_offset Check_hash = 14"
| "control0_offset Hash_output = 15" | "control0_offset Constant_fill = 16" | "control0_offset Key_byteswap = 18"
| "control0_offset Key_wordswap = 19" | "control0_offset Input_byteswap = 20" | "control0_offset Input_wordswap = 21"
| "control0_offset Output_byteswap = 22" | "control0_offset Output_wordswap = 23"

definition set0 :: "control0_bit \<Rightarrow> bool \<Rightarrow> u32 \<Rightarrow> u32" where
  "set0 b turn_on c =
     (if turn_on then c OR push_bit (control0_offset b) 1 else c AND NOT (push_bit (control0_offset b) 1))"

definition set_tag :: "u8 \<Rightarrow> u32 \<Rightarrow> u32" where
  "set_tag t c = (c AND NOT (push_bit 24 0xFF)) OR push_bit 24 (ucast t)"

datatype control1_field = Cipher_select | Cipher_mode | Key_select | Hash_select

fun control1_place :: "control1_field \<Rightarrow> u32 \<times> nat" where
  "control1_place Cipher_select = (0xF, 0)"
| "control1_place Cipher_mode = (0xF, 4)"
| "control1_place Key_select = (0xFF, 8)"
| "control1_place Hash_select = (0xF, 16)"

definition set1 :: "control1_field \<Rightarrow> u32 \<Rightarrow> u32 \<Rightarrow> u32" where
  "set1 f v c = (let (m, k) = control1_place f in (c AND NOT (push_bit k m)) OR push_bit k v)"

datatype cipher_mode = Ecb | Cbc

datatype key_select = Key0 | UniqueKey | OtpKey

fun cipher_mode_code :: "cipher_mode \<Rightarrow> u32" where
  "cipher_mode_code Ecb = 0" | "cipher_mode_code Cbc = 1"

fun key_code :: "key_select \<Rightarrow> u32" where
  "key_code Key0 = 0" | "key_code UniqueKey = 0xFE" | "key_code OtpKey = 0xFF"

definition CIPHER_AES128 :: u32 where "CIPHER_AES128 = 0"
definition HASH_SHA256 :: u32 where "HASH_SHA256 = 2"

text \<open>\<^verbatim>\<open>Option<NonNull<_>>\<close> is a word, zero for \<^verbatim>\<open>None\<close>.\<close>

record cmd =
  next_cmd_addr :: "u32 option"
  control0 :: u32
  control1 :: u32
  src_buffer_addr :: "u32 option"
  dest_buffer_addr :: "u32 option"
  buffer_size :: nat
  payload_pointer :: "u32 option"
  status_word :: u32

definition cmd_new :: cmd where
  "cmd_new = \<lparr>next_cmd_addr = None, control0 = 0, control1 = 0, src_buffer_addr = None, dest_buffer_addr = None,
     buffer_size = 0, payload_pointer = None, status_word = 0\<rparr>"

definition ptr_word :: "u32 option \<Rightarrow> u32" where
  "ptr_word x = (case x of None \<Rightarrow> 0 | Some a \<Rightarrow> a)"

definition cmd_bytes :: "cmd \<Rightarrow> bytes" where
  "cmd_bytes c = concat (map le32_bytes
     [ptr_word (next_cmd_addr c), control0 c, control1 c, ptr_word (src_buffer_addr c), ptr_word (dest_buffer_addr c),
      of_nat (buffer_size c), ptr_word (payload_pointer c), status_word c])"

definition word_at :: "bytes \<Rightarrow> nat \<Rightarrow> u32" where
  "word_at b i = le32_of (b ! i) (b ! (i + 1)) (b ! (i + 2)) (b ! (i + 3))"

section \<open>Running a command\<close>

definition STAT_ERROR_MASK :: u32 where
  "STAT_ERROR_MASK = push_bit 16 0xFF OR push_bit 6 1 OR push_bit 5 1 OR push_bit 4 1 OR push_bit 3 1 OR push_bit 2 1"

definition dcp_timeout :: duration where "dcp_timeout = from_millis 100"

definition AES128_HW_CHANNEL :: nat where "AES128_HW_CHANNEL = 3"
definition SHA256_CHANNEL :: nat where "SHA256_CHANNEL = 2"
definition AES128_RAM_CHANNEL :: nat where "AES128_RAM_CHANNEL = 1"

text \<open>The condition of the wait: the status word of the command, in memory, and the channel's status.\<close>

definition cmd_status :: "hw \<Rightarrow> u32 \<Rightarrow> (unit, u32) io" where
  "cmd_status hw a = (\<lambda>tr. (Ok (word_at (dma_memory hw tr (a + 28) 4) 0), tr))"

definition job_poll :: "hw \<Rightarrow> nat \<Rightarrow> u32 \<Rightarrow> (unit, bool \<times> u32) io" where
  "job_poll hw ch a =
     abind (cmd_status hw a) (\<lambda>status.
     abind (rd hw (Dcp (CHSTAT ch))) (\<lambda>stat.
     aret (status AND 1 \<noteq> 0 \<or> stat AND STAT_ERROR_MASK \<noteq> 0, stat)))"

definition run_cmd :: "hw \<Rightarrow> nat \<Rightarrow> u32 \<Rightarrow> cmd \<Rightarrow> u32 \<Rightarrow> bytes \<Rightarrow> (unit, unit) io" where
  "run_cmd hw ch a c src b =
     abind (wr (Dcp (CHCMDPTR ch)) a) (\<lambda>_.
     abind (hand_over src b) (\<lambda>_.
     abind (hand_over a (cmd_bytes c)) (\<lambda>_.
     abind (wr (Dcp (CHSEMA ch)) 1) (\<lambda>_.
     abind (wait_for_or_timeout hw (job_poll hw ch a) dcp_timeout) (\<lambda>r.
     case r of
       None \<Rightarrow> alift Reset
     | Some stat \<Rightarrow> if stat AND STAT_ERROR_MASK \<noteq> 0 then alift Reset else aret ())))))"

section \<open>SHA-256\<close>

definition MAX_COUNT :: nat where "MAX_COUNT = 512 * 1024 * 1024"
definition SHA_BLOCK :: nat where "SHA_BLOCK = 64"

record sha256 =
  next_is_first_block :: bool
  sha_buffer :: bytes
  sha_count :: nat

definition sha_new :: sha256 where
  "sha_new = \<lparr>next_is_first_block = True, sha_buffer = [], sha_count = 0\<rparr>"

text \<open>Where the command, the buffer and the digest are in memory.\<close>

record sha_layout =
  cmd_at :: u32
  buffer_at :: u32
  output_at :: u32

text \<open>\<^verbatim>\<open>Vec::extend_from_slice\<close> of \<^verbatim>\<open>heapless\<close>: what does not fit is not stored, and the error is ignored.\<close>

definition vec_extend :: "nat \<Rightarrow> bytes \<Rightarrow> bytes \<Rightarrow> bytes" where
  "vec_extend cap v xs = (if length v + length xs \<le> cap then v @ xs else v)"

definition hash_control :: "bool \<Rightarrow> bool \<Rightarrow> u32" where
  "hash_control first final =
     set0 Hash_term final (set0 Hash_init first (set0 Hash_output False (set0 Enable_hash True (set0 Decr_semaphore True 0))))"

definition process_blocks :: "hw \<Rightarrow> profile \<Rightarrow> sha_layout \<Rightarrow> u32 \<Rightarrow> bytes \<Rightarrow> bool \<Rightarrow> (unit, bool) io" where
  "process_blocks hw p L src blocks first =
     abind (alift (odebug_assert p (blocks \<noteq> []))) (\<lambda>_.
     abind (alift (odebug_assert p (length blocks mod SHA_BLOCK = 0))) (\<lambda>_.
     abind (alift (oassert (blocks \<noteq> []))) (\<lambda>_.
     abind (run_cmd hw SHA256_CHANNEL (cmd_at L)
       (cmd_new\<lparr>control0 := hash_control first False, control1 := set1 Hash_select HASH_SHA256 0,
         src_buffer_addr := Some src, buffer_size := length blocks\<rparr>) src blocks) (\<lambda>_.
     aret False))))"

definition process_and_push :: "hw \<Rightarrow> profile \<Rightarrow> sha_layout \<Rightarrow> u32 \<Rightarrow> bytes \<Rightarrow> bool \<times> bytes \<Rightarrow> (unit, bool \<times> bytes) io" where
  "process_and_push hw p L src input = (\<lambda>(first, buffer).
     abind (alift (odebug_assert p (buffer = []))) (\<lambda>_.
     abind (if SHA_BLOCK \<le> length input then
              abind (alift (round_down (length input) SHA_BLOCK)) (\<lambda>n.
              abind (process_blocks hw p L src (take n input) first) (\<lambda>first'.
              aret (first', drop n input)))
            else aret (first, input)) (\<lambda>(first', leftover).
     aret (first', vec_extend SHA_BLOCK buffer leftover))))"

definition push_and_process :: "hw \<Rightarrow> profile \<Rightarrow> sha_layout \<Rightarrow> u32 \<Rightarrow> bytes \<Rightarrow> bool \<times> bytes \<Rightarrow> (unit, bool \<times> bytes) io" where
  "push_and_process hw p L src input = (\<lambda>(first, buffer).
     abind (alift (odebug_assert p (buffer \<noteq> []))) (\<lambda>_.
     (let n = SHA_BLOCK - length buffer in
      abind (alift (oassert (n \<le> length input))) (\<lambda>_.
      abind (process_blocks hw p L (buffer_at L) (vec_extend SHA_BLOCK buffer (take n input)) first) (\<lambda>first'.
      process_and_push hw p L (src + of_nat n) (drop n input) (first', []))))))"

definition sha_input :: "hw \<Rightarrow> profile \<Rightarrow> sha_layout \<Rightarrow> u32 \<Rightarrow> bytes \<Rightarrow> sha256 \<Rightarrow> (unit, sha256) io" where
  "sha_input hw p L src input s =
     (if input = [] then aret s
      else if \<not> (sha_count s + length input < 2 ^ 32 \<and> sha_count s + length input \<le> MAX_COUNT) then alift Panic
      else
        (let s' = s\<lparr>sha_count := sha_count s + length input\<rparr> in
         abind (if sha_buffer s = [] then
                  process_and_push hw p L src input (next_is_first_block s, sha_buffer s)
                else if length (sha_buffer s) + length input < SHA_BLOCK then
                  aret (next_is_first_block s, vec_extend SHA_BLOCK (sha_buffer s) input)
                else push_and_process hw p L src input (next_is_first_block s, sha_buffer s)) (\<lambda>(first, buffer).
         aret (s'\<lparr>next_is_first_block := first, sha_buffer := buffer\<rparr>))))"

definition final_cmd :: "sha_layout \<Rightarrow> sha256 \<Rightarrow> cmd" where
  "final_cmd L s =
     (let c = cmd_new\<lparr>control0 := hash_control (next_is_first_block s) True, control1 := set1 Hash_select HASH_SHA256 0\<rparr>;
          c' = (if sha_buffer s = [] then c
                else c\<lparr>src_buffer_addr := Some (buffer_at L), buffer_size := length (sha_buffer s)\<rparr>)
      in c'\<lparr>payload_pointer := Some (output_at L)\<rparr>)"

definition fixed_result :: "hw \<Rightarrow> sha_layout \<Rightarrow> sha256 \<Rightarrow> (unit, bytes) io" where
  "fixed_result hw L s =
     abind (run_cmd hw SHA256_CHANNEL (cmd_at L) (final_cmd L s) (ptr_word (src_buffer_addr (final_cmd L s)))
       (sha_buffer s)) (\<lambda>_.
     (\<lambda>tr. (Ok (rev (dma_memory hw tr (output_at L) 32)), tr)))"

definition sha_reset :: "sha256 \<Rightarrow> sha256" where
  "sha_reset s = s\<lparr>sha_buffer := [], next_is_first_block := True\<rparr>"

section \<open>Who holds the channels\<close>

text \<open>
  The flags are atomics. \<^verbatim>\<open>compare_exchange_weak\<close> may fail although the flag has the expected
  value; whether it does is an argument of the operations that use it.
\<close>

record dcp_state =
  dcp_initialized :: bool
  dcp_taken :: bool
  sha_in_use :: bool
  hw_aes_in_use :: bool
  ram_aes_in_use :: bool
  dcp_trace :: trace

type_synonym 'a dcp = "(dcp_state, unit, 'a) act"

definition on_trace :: "(unit, 'a) io \<Rightarrow> 'a dcp" where
  "on_trace m = (\<lambda>s. case m (dcp_trace s) of (r, tr) \<Rightarrow> (r, s\<lparr>dcp_trace := tr\<rparr>))"

definition cas_weak :: "bool \<Rightarrow> (dcp_state \<Rightarrow> bool) \<Rightarrow> (dcp_state \<Rightarrow> dcp_state) \<Rightarrow> bool dcp" where
  "cas_weak spurious flag claim = (\<lambda>s.
     if flag s \<or> spurious then (Ok False, s) else (Ok True, claim s))"

definition DCP_VERSION :: u32 where "DCP_VERSION = push_bit 25 1 OR push_bit 16 1"

definition dcp_init :: "hw \<Rightarrow> u32 \<Rightarrow> bool \<Rightarrow> bool dcp" where
  "dcp_init hw ctxt spurious =
     abind (cas_weak spurious dcp_initialized (\<lambda>s. s\<lparr>dcp_initialized := True\<rparr>)) (\<lambda>ok.
     if ok then
       abind (\<lambda>s. if dcp_taken s then (Panic, s) else (Ok (), s\<lparr>dcp_taken := True\<rparr>)) (\<lambda>_.
       abind (on_trace (rd hw (Dcp VERSION))) (\<lambda>v.
       abind (alift (oassert (v = DCP_VERSION))) (\<lambda>_.
       abind (on_trace (rd hw (Dcp CAPABILITY1))) (\<lambda>capability.
       abind (alift (oassert (capability AND 1 \<noteq> 0))) (\<lambda>_.
       abind (alift (oassert (capability AND push_bit 18 1 \<noteq> 0))) (\<lambda>_.
       abind (on_trace (wr (Dcp CONTEXT) ctxt)) (\<lambda>_.
       aret True)))))))
     else aret False)"

definition sha_take :: "hw \<Rightarrow> u32 \<Rightarrow> bool \<Rightarrow> bool \<Rightarrow> sha256 option dcp" where
  "sha_take hw ctxt spurious1 spurious2 =
     abind (cas_weak spurious1 sha_in_use (\<lambda>s. s\<lparr>sha_in_use := True\<rparr>)) (\<lambda>ok.
     if ok then
       abind (dcp_init hw ctxt spurious2) (\<lambda>_.
       abind (on_trace (wr (Dcp CHANNELCTRL_SET) (push_bit SHA256_CHANNEL 1))) (\<lambda>_.
       aret (Some sha_new)))
     else aret None)"

definition sha_drop :: "unit dcp" where
  "sha_drop =
     abind (on_trace (wr (Dcp CHANNELCTRL_CLR) (push_bit SHA256_CHANNEL 1))) (\<lambda>_.
     (\<lambda>s. (Ok (), s\<lparr>sha_in_use := False\<rparr>)))"

text \<open>\<^verbatim>\<open>fixed_result\<close> consumes the handle: the channel is released when it returns.\<close>

definition sha_finish :: "hw \<Rightarrow> sha_layout \<Rightarrow> sha256 \<Rightarrow> bytes dcp" where
  "sha_finish hw L s =
     abind (on_trace (fixed_result hw L s)) (\<lambda>digest.
     abind sha_drop (\<lambda>_.
     aret digest))"

section \<open>AES-128\<close>

datatype hardware_key = Unique | Otp

fun key_of :: "hardware_key \<Rightarrow> key_select" where
  "key_of Unique = UniqueKey" | "key_of Otp = OtpKey"

definition new_hardware :: "hw \<Rightarrow> u32 \<Rightarrow> bool \<Rightarrow> bool \<Rightarrow> hardware_key \<Rightarrow> key_select option dcp" where
  "new_hardware hw ctxt spurious1 spurious2 key =
     abind (cas_weak spurious1 hw_aes_in_use (\<lambda>s. s\<lparr>hw_aes_in_use := True\<rparr>)) (\<lambda>ok.
     if ok then
       abind (dcp_init hw ctxt spurious2) (\<lambda>_.
       abind (on_trace (wait_for_or_timeout hw
         (abind (rd hw (Dcp STAT)) (\<lambda>stat. aret (stat AND push_bit 28 1 \<noteq> 0, ()))) dcp_timeout)) (\<lambda>r.
       if r = None then alift Reset
       else
         abind (on_trace (wr (Dcp CHANNELCTRL_SET) (push_bit AES128_HW_CHANNEL 1))) (\<lambda>_.
         aret (Some (key_of key)))))
     else aret None)"

definition new_ram :: "hw \<Rightarrow> u32 \<Rightarrow> bool \<Rightarrow> bool \<Rightarrow> bytes \<Rightarrow> key_select option dcp" where
  "new_ram hw ctxt spurious1 spurious2 key =
     abind (cas_weak spurious1 ram_aes_in_use (\<lambda>s. s\<lparr>ram_aes_in_use := True\<rparr>)) (\<lambda>ok.
     if ok then
       abind (dcp_init hw ctxt spurious2) (\<lambda>_.
       abind (on_trace (wr (Dcp KEY) (push_bit 6 (of_nat AES128_RAM_CHANNEL)))) (\<lambda>_.
       abind (on_trace (wr (Dcp KEYDATA) (word_at key 0))) (\<lambda>_.
       abind (on_trace (wr (Dcp KEYDATA) (word_at key 4))) (\<lambda>_.
       abind (on_trace (wr (Dcp KEYDATA) (word_at key 8))) (\<lambda>_.
       abind (on_trace (wr (Dcp KEYDATA) (word_at key 12))) (\<lambda>_.
       abind (on_trace (wr (Dcp CHANNELCTRL_SET) (push_bit AES128_RAM_CHANNEL 1 OR push_bit 3 1))) (\<lambda>_.
       aret (Some Key0))))))))
     else aret None)"

definition aes_drop :: "key_select \<Rightarrow> unit dcp" where
  "aes_drop key = (\<lambda>s. (Ok (),
     case key of Key0 \<Rightarrow> s\<lparr>ram_aes_in_use := False\<rparr> | _ \<Rightarrow> s\<lparr>hw_aes_in_use := False\<rparr>))"

text \<open>\<^verbatim>\<open>xcrypt\<close>: the block at address \<open>src\<close> is source and destination of the command.\<close>

definition aes_cmd :: "key_select \<Rightarrow> bool \<Rightarrow> u32 \<Rightarrow> nat \<Rightarrow> cmd" where
  "aes_cmd key encrypt src n =
     cmd_new\<lparr>control0 := set0 Otp_key (key = OtpKey) (set0 Cipher_encrypt encrypt (set0 Enable_cipher True
         (set0 Decr_semaphore True 0))),
       control1 := set1 Key_select (key_code key) (set1 Cipher_mode (cipher_mode_code Ecb)
         (set1 Cipher_select CIPHER_AES128 0)),
       src_buffer_addr := Some src, dest_buffer_addr := Some src, buffer_size := n\<rparr>"

definition xcrypt :: "hw \<Rightarrow> u32 \<Rightarrow> key_select \<Rightarrow> bool \<Rightarrow> u32 \<Rightarrow> bytes \<Rightarrow> (unit, bytes) io" where
  "xcrypt hw a key encrypt src b =
     abind (run_cmd hw AES128_HW_CHANNEL a (aes_cmd key encrypt src (length b)) src b) (\<lambda>_.
     (\<lambda>tr. (Ok (dma_memory hw tr src (length b)), tr)))"

end
