(* ===== verification/DcpProps.thy ===== *)
theory DcpProps
  imports Dcp
begin

text \<open>
  SHA-256 over a stream: whatever the lengths of the inputs, the jobs given to the engine are one
  message cut into blocks, begun and ended once. The engine itself is a parameter: \<open>digest\<close> is the
  hash it computes.
\<close>

section \<open>The jobs in a trace\<close>

fun mems :: "trace \<Rightarrow> bytes list" where
  "mems [] = []"
| "mems (Mem a b # tr) = b # mems tr"
| "mems (Rd r v # tr) = mems tr"
| "mems (Wr r v # tr) = mems tr"

text \<open>The jobs of the hash channel, oldest first: the first control word and the data.\<close>

definition job_of :: "bytes list \<Rightarrow> (u32 \<times> bytes) list" where
  "job_of ms = (case ms of cb # b # _ \<Rightarrow> [(word_at cb 4, b)] | _ \<Rightarrow> [])"

fun sha_jobs :: "trace \<Rightarrow> (u32 \<times> bytes) list" where
  "sha_jobs [] = []"
| "sha_jobs (Mem a b # tr) = sha_jobs tr"
| "sha_jobs (Rd r v # tr) = sha_jobs tr"
| "sha_jobs (Wr r v # tr) = sha_jobs tr @ (if r = Dcp (CHSEMA SHA256_CHANNEL) then job_of (mems tr) else [])"

text \<open>The message the engine has been given: a job with the init bit begins a new one.\<close>

definition hashed :: "(u32 \<times> bytes) list \<Rightarrow> bytes" where
  "hashed js = foldl (\<lambda>m (c, b). if bit c 12 then b else m @ b) [] js"

lemma jobs_effects: "mems (effects tr) = mems tr" "sha_jobs (effects tr) = sha_jobs tr"
proof -
  show *: "mems (effects tr) = mems tr" for tr by (induction tr rule: effects.induct) auto
  show "sha_jobs (effects tr) = sha_jobs tr"
    by (induction tr rule: effects.induct) (auto simp: *)
qed

lemma cmd_words:
  "word_at (cmd_bytes c) 4 = control0 c" "word_at (cmd_bytes c) 24 = ptr_word (payload_pointer c)"
  by (simp_all add: word_at_def cmd_bytes_def le32_bytes_def le32_of_bytes)

lemma job_poll_trace: "grows (job_poll hw ch a)" "silent (job_poll hw ch a)"
proof -
  have status: "grows (cmd_status hw a)" "silent (cmd_status hw a)"
    by (simp_all add: grows_def silent_def cmd_status_def)
  show "grows (job_poll hw ch a)" "silent (job_poll hw ch a)"
    unfolding job_poll_def by (intro trace_rules status)+
qed

text \<open>A command that has run: its job is in the trace, and the engine reported it done without error.\<close>

lemma run_cmd_Ok:
  assumes "run_cmd hw ch a c src b tr = (Ok (), tr')"
  obtains tr1 where "effects tr1 = Wr (Dcp (CHSEMA ch)) 1 # Mem a (cmd_bytes c) # Mem src b # Wr (Dcp (CHCMDPTR ch)) a # effects tr"
    "tr' = Rd (Dcp (CHSTAT ch)) (answer hw tr1 (Dcp (CHSTAT ch))) # tr1"
    "word_at (dma_memory hw tr1 (a + 28) 4) 0 AND 1 \<noteq> 0" "answer hw tr1 (Dcp (CHSTAT ch)) AND STAT_ERROR_MASK = 0"
proof -
  let ?t = "Wr (Dcp (CHSEMA ch)) 1 # Mem a (cmd_bytes c) # Mem src b # Wr (Dcp (CHCMDPTR ch)) a # tr"
  from assms obtain stat where w: "wait_for_or_timeout hw (job_poll hw ch a) dcp_timeout ?t = (Ok (Some stat), tr')"
      and ok: "stat AND STAT_ERROR_MASK = 0"
    by (auto simp: run_cmd_def abind_Ok_iff wr_def hand_over_def split: option.splits if_splits)
  obtain tr1 where "effects tr1 = effects ?t" "job_poll hw ch a tr1 = (Ok (True, stat), tr')"
    by (rule wait_for_Some [OF w refl job_poll_trace])
  then show ?thesis
    using ok by (intro that [of tr1]) (auto simp: job_poll_def cmd_status_def abind_def rd_def)
qed

lemma run_cmd_job:
  assumes "run_cmd hw SHA256_CHANNEL a c src b tr = (Ok (), tr')"
  shows "sha_jobs tr' = sha_jobs tr @ [(control0 c, b)]"
proof -
  obtain tr1 where e: "effects tr1 = Wr (Dcp (CHSEMA SHA256_CHANNEL)) 1 # Mem a (cmd_bytes c) # Mem src b #
      Wr (Dcp (CHCMDPTR SHA256_CHANNEL)) a # effects tr" and tr': "tr' = Rd (Dcp (CHSTAT SHA256_CHANNEL)) (answer hw tr1 (Dcp (CHSTAT SHA256_CHANNEL))) # tr1"
    by (rule run_cmd_Ok [OF assms])
  have "sha_jobs (effects tr1) = sha_jobs tr @ [(control0 c, b)]"
    unfolding e by (simp add: job_of_def jobs_effects cmd_words)
  then show ?thesis using tr' jobs_effects(2) [of tr1] by simp
qed

lemma hash_control_bits: "bit (hash_control f l) 12 = f" "bit (hash_control f l) 13 = l"
  by (cases f; cases l; simp add: hash_control_def set0_def)+

section \<open>One message\<close>

definition partial_jobs :: "(u32 \<times> bytes) list \<Rightarrow> bool" where
  "partial_jobs js \<longleftrightarrow> (\<forall>(c, b) \<in> set js. \<not> bit c 13 \<and> b \<noteq> [] \<and> 64 dvd length b) \<and>
     (\<forall>i < length js. bit (fst (js ! i)) 12 = (i = 0))"

lemma partial_jobs_snoc:
  "partial_jobs (js @ [(hash_control (js = []) False, b)]) \<longleftrightarrow> partial_jobs js \<and> b \<noteq> [] \<and> 64 dvd length b"
  by (auto simp: partial_jobs_def nth_append less_Suc_eq hash_control_bits)

lemma hashed_continue:
  "(\<And>c b. (c, b) \<in> set ks \<Longrightarrow> \<not> bit c 12) \<Longrightarrow>
    foldl (\<lambda>m (c, b). if bit c 12 then b else m @ b) m ks = m @ concat (map snd ks)"
proof (induction ks arbitrary: m)
  case (Cons k ks)
  obtain c b where k: "k = (c, b)" by (cases k)
  have "\<not> bit c 12" using Cons.prems [of c b] k by simp
  moreover have "foldl (\<lambda>m (c, b). if bit c 12 then b else m @ b) (m @ b) ks = (m @ b) @ concat (map snd ks)"
    by (rule Cons.IH) (meson Cons.prems list.set_intros(2))
  ultimately show ?case by (simp add: k)
qed simp

lemma hashed_partial:
  assumes "partial_jobs js" "bit c 12 = (js = [])"
  shows "hashed (js0 @ js @ [(c, b)]) = concat (map snd js) @ b"
proof (cases js)
  case Nil
  then show ?thesis using assms(2) by (simp add: hashed_def)
next
  case (Cons x ks)
  have "\<forall>i < length js. bit (fst (js ! i)) 12 = (i = 0)" using assms(1) by (simp add: partial_jobs_def)
  then have first: "bit (fst x) 12" and rest: "\<And>i. i < length ks \<Longrightarrow> \<not> bit (fst (ks ! i)) 12"
    unfolding Cons by force+
  have "\<not> bit c' 12" if "(c', b') \<in> set (ks @ [(c, b)])" for c' b'
    using that rest assms(2) Cons by (auto simp: in_set_conv_nth) (metis fst_conv)
  then show ?thesis
    using first hashed_continue [of "ks @ [(c, b)]" "snd x"] by (simp add: hashed_def Cons split_def)
qed

text \<open>
  The state of a digest and the jobs so far hold the message \<open>m\<close>: whole blocks have gone to the
  engine, the rest is in the buffer.
\<close>

definition holds_message :: "(u32 \<times> bytes) list \<Rightarrow> bool \<times> bytes \<Rightarrow> (u32 \<times> bytes) list \<Rightarrow> bytes \<Rightarrow> bool" where
  "holds_message js0 fb all_jobs m \<longleftrightarrow> (\<exists>js. all_jobs = js0 @ js \<and> partial_jobs js \<and> fst fb = (js = []) \<and>
     concat (map snd js) @ snd fb = m) \<and> length (snd fb) < 64"

lemma process_blocks_Ok:
  assumes "process_blocks hw p L src blocks first tr = (Ok f, tr')"
  shows "f = False \<and> blocks \<noteq> [] \<and> sha_jobs tr' = sha_jobs tr @ [(hash_control first False, blocks)]"
  using assms by (auto simp: process_blocks_def abind_Ok_iff oassert_def split: if_splits dest!: run_cmd_job)

lemma process_blocks_message:
  assumes "holds_message js0 (first, []) (sha_jobs tr) m" "64 dvd length blocks"
    and "process_blocks hw p L src blocks first tr = (Ok f, tr')"
  shows "holds_message js0 (f, []) (sha_jobs tr') (m @ blocks)"
proof -
  from assms(1) obtain js where js: "sha_jobs tr = js0 @ js" "partial_jobs js" "first = (js = [])" "concat (map snd js) = m"
    by (auto simp: holds_message_def)
  then have "partial_jobs (js @ [(hash_control first False, blocks)])"
    using partial_jobs_snoc process_blocks_Ok [OF assms(3)] assms(2) by simp
  then show ?thesis
    using js process_blocks_Ok [OF assms(3)]
    by (auto simp: holds_message_def intro!: exI [of _ "js @ [(hash_control first False, blocks)]"])
qed

lemma process_and_push_message:
  assumes "holds_message js0 (first, []) (sha_jobs tr) m"
    and "process_and_push hw p L src input (first, []) tr = (Ok fb, tr')"
  shows "holds_message js0 fb (sha_jobs tr') (m @ input)"
proof (cases "64 \<le> length input")
  case True
  let ?n = "length input - length input mod 64"
  from True assms(2) obtain f where f: "process_blocks hw p L src (take ?n input) first tr = (Ok f, tr')"
      and fb: "fb = (f, vec_extend SHA_BLOCK [] (drop ?n input))"
    by (auto simp: process_and_push_def abind_Ok_iff round_down_def SHA_BLOCK_def)
  have "length (take ?n input) = ?n" by simp
  then have "64 dvd length (take ?n input)" by (metis dvd_minus_mod)
  from process_blocks_message [OF assms(1) this f]
  have "holds_message js0 (f, []) (sha_jobs tr') (m @ take ?n input)" .
  moreover have "length (drop ?n input) < 64" by simp
  ultimately show ?thesis
    by (auto simp: holds_message_def fb vec_extend_def SHA_BLOCK_def)
next
  case False
  then show ?thesis
    using assms by (auto simp: process_and_push_def abind_Ok_iff vec_extend_def SHA_BLOCK_def holds_message_def)
qed

lemma push_and_process_message:
  assumes "holds_message js0 (first, buffer) (sha_jobs tr) m"
    and "push_and_process hw p L src input (first, buffer) tr = (Ok fb, tr')"
  shows "holds_message js0 fb (sha_jobs tr') (m @ input)"
proof -
  let ?n = "64 - length buffer"
  from assms(1) have len: "length buffer < 64" by (simp add: holds_message_def)
  from assms(2) len obtain f tr1 where n: "?n \<le> length input"
      and f: "process_blocks hw p L (buffer_at L) (buffer @ take ?n input) first tr = (Ok f, tr1)"
      and fb: "process_and_push hw p L (src + of_nat ?n) (drop ?n input) (f, []) tr1 = (Ok fb, tr')"
    by (auto simp: push_and_process_def abind_Ok_iff Let_def SHA_BLOCK_def vec_extend_def oassert_def split: if_splits)
  from assms(1) obtain m0 where m0: "holds_message js0 (first, []) (sha_jobs tr) m0" "m = m0 @ buffer"
    by (auto simp: holds_message_def)
  have "64 dvd length (buffer @ take ?n input)" using n len by simp
  from process_and_push_message [OF process_blocks_message [OF m0(1) this f] fb]
  show ?thesis by (simp add: m0(2))
qed

definition sha_ok :: "(u32 \<times> bytes) list \<Rightarrow> sha256 \<Rightarrow> trace \<Rightarrow> bytes \<Rightarrow> bool" where
  "sha_ok js0 s tr m \<longleftrightarrow> holds_message js0 (next_is_first_block s, sha_buffer s) (sha_jobs tr) m"

lemma sha_input_message:
  assumes "sha_ok js0 s tr m" "sha_input hw p L src input s tr = (Ok s', tr')"
  shows "sha_ok js0 s' tr' (m @ input) \<and> sha_count s' = sha_count s + length input \<and>
    (input \<noteq> [] \<longrightarrow> sha_count s' \<le> MAX_COUNT)"
proof (cases "input = []")
  case True
  then show ?thesis using assms by (simp add: sha_input_def)
next
  case False
  then obtain fb where s': "s' = s\<lparr>sha_count := sha_count s + length input, next_is_first_block := fst fb, sha_buffer := snd fb\<rparr>"
      and max: "sha_count s + length input \<le> MAX_COUNT"
      and step: "(if sha_buffer s = [] then process_and_push hw p L src input (next_is_first_block s, sha_buffer s)
        else if length (sha_buffer s) + length input < SHA_BLOCK
        then aret (next_is_first_block s, vec_extend SHA_BLOCK (sha_buffer s) input)
        else push_and_process hw p L src input (next_is_first_block s, sha_buffer s)) tr = (Ok fb, tr')"
    using assms(2) by (fastforce simp: sha_input_def abind_Ok_iff Let_def split: if_splits prod.splits)
  have "holds_message js0 fb (sha_jobs tr') (m @ input)"
  proof -
    consider "sha_buffer s = []" | "sha_buffer s \<noteq> []" "length (sha_buffer s) + length input < SHA_BLOCK"
      | "sha_buffer s \<noteq> []" "\<not> length (sha_buffer s) + length input < SHA_BLOCK" by blast
    then show ?thesis
    proof cases
      case 1
      then show ?thesis using step assms(1) process_and_push_message by (simp add: sha_ok_def)
    next
      case 2
      then show ?thesis using step assms(1) by (auto simp: sha_ok_def holds_message_def vec_extend_def SHA_BLOCK_def)
    next
      case 3
      then show ?thesis using step assms(1) push_and_process_message by (simp add: sha_ok_def)
    qed
  qed
  then show ?thesis using max by (simp add: sha_ok_def s')
qed

section \<open>The digest\<close>

text \<open>
  The engine's promise: when it reports the last job of a message done, without an error, the bytes at
  the payload pointer are the digest of the message, in reverse order.
\<close>

locale sha_engine =
  fixes hw :: hw and digest :: "bytes \<Rightarrow> bytes"
  assumes digest_done: "sha_jobs tr = js @ [(c, b)] \<Longrightarrow> bit c 13 \<Longrightarrow>
      last_wr (Dcp (CHCMDPTR SHA256_CHANNEL)) tr = Some a \<Longrightarrow>
      word_at (dma_memory hw tr (a + 28) 4) 0 AND 1 \<noteq> 0 \<Longrightarrow> v AND STAT_ERROR_MASK = 0 \<Longrightarrow>
      dma_memory hw (Rd (Dcp (CHSTAT SHA256_CHANNEL)) v # tr) (word_at (hd (mems tr)) 24) 32 = rev (digest (hashed (sha_jobs tr)))"
begin

lemma fixed_result_digest:
  assumes "sha_ok js0 s tr m" "fixed_result hw L s tr = (Ok out, tr')"
  shows "out = digest m \<and> (\<exists>js c b. sha_jobs tr' = js0 @ js @ [(c, b)] \<and> partial_jobs js \<and>
    bit c 12 = (js = []) \<and> bit c 13 \<and> length b < 64 \<and> concat (map snd js) @ b = m)"
proof -
  let ?c = "hash_control (next_is_first_block s) True"
  let ?f = "final_cmd L s"
  from assms(2) have run: "run_cmd hw SHA256_CHANNEL (cmd_at L) ?f (ptr_word (src_buffer_addr ?f)) (sha_buffer s) tr = (Ok (), tr')"
      and out: "out = rev (dma_memory hw tr' (output_at L) 32)"
    by (auto simp: fixed_result_def abind_Ok_iff)
  have c: "control0 ?f = ?c" "payload_pointer ?f = Some (output_at L)" by (simp_all add: final_cmd_def Let_def)
  obtain tr1 where e: "effects tr1 = Wr (Dcp (CHSEMA SHA256_CHANNEL)) 1 # Mem (cmd_at L) (cmd_bytes ?f) #
      Mem (ptr_word (src_buffer_addr ?f)) (sha_buffer s) # Wr (Dcp (CHCMDPTR SHA256_CHANNEL)) (cmd_at L) # effects tr"
    and tr': "tr' = Rd (Dcp (CHSTAT SHA256_CHANNEL)) (answer hw tr1 (Dcp (CHSTAT SHA256_CHANNEL))) # tr1"
    and ok: "word_at (dma_memory hw tr1 (cmd_at L + 28) 4) 0 AND 1 \<noteq> 0"
      "answer hw tr1 (Dcp (CHSTAT SHA256_CHANNEL)) AND STAT_ERROR_MASK = 0"
    by (rule run_cmd_Ok [OF run])
  have jobs: "sha_jobs tr1 = sha_jobs tr @ [(?c, sha_buffer s)]"
    using run_cmd_job [OF run] c(1) by (simp add: tr')
  have "last_wr (Dcp (CHCMDPTR SHA256_CHANNEL)) (effects tr1) = Some (cmd_at L)" "hd (mems (effects tr1)) = cmd_bytes ?f"
    by (simp_all add: e)
  then have ptr: "last_wr (Dcp (CHCMDPTR SHA256_CHANNEL)) tr1 = Some (cmd_at L)" "word_at (hd (mems tr1)) 24 = output_at L"
    by (simp_all add: last_effects jobs_effects cmd_words c(2) ptr_word_def)
  have "dma_memory hw tr' (output_at L) 32 = rev (digest (hashed (sha_jobs tr1)))"
    using digest_done [OF jobs _ ptr(1) ok] by (simp add: hash_control_bits tr' ptr(2))
  moreover obtain js where js: "sha_jobs tr = js0 @ js" "partial_jobs js" "next_is_first_block s = (js = [])"
      "concat (map snd js) @ sha_buffer s = m" "length (sha_buffer s) < 64"
    using assms(1) by (auto simp: sha_ok_def holds_message_def)
  moreover have "hashed (sha_jobs tr1) = m"
    using hashed_partial [of js ?c js0 "sha_buffer s"] js by (simp add: jobs hash_control_bits)
  ultimately show ?thesis
    using jobs hash_control_bits by (auto simp: out tr')
qed

end

fun sha_inputs :: "hw \<Rightarrow> profile \<Rightarrow> sha_layout \<Rightarrow> (u32 \<times> bytes) list \<Rightarrow> sha256 \<Rightarrow> (unit, sha256) io" where
  "sha_inputs hw p L [] s = aret s"
| "sha_inputs hw p L ((a, b) # is') s = abind (sha_input hw p L a b s) (sha_inputs hw p L is')"

lemma sha_inputs_message:
  "sha_ok js0 s tr m \<Longrightarrow> sha_inputs hw p L is' s tr = (Ok s', tr') \<Longrightarrow>
    sha_ok js0 s' tr' (m @ concat (map snd is')) \<and> sha_count s' = sha_count s + length (concat (map snd is')) \<and>
    sha_count s' \<le> max (sha_count s) MAX_COUNT"
proof (induction is' arbitrary: s tr m)
  case (Cons i is')
  obtain a b where i: "i = (a, b)" by (cases i)
  with Cons.prems(2) obtain s1 tr1 where s1: "sha_input hw p L a b s tr = (Ok s1, tr1)"
      and r: "sha_inputs hw p L is' s1 tr1 = (Ok s', tr')"
    by (auto simp: abind_Ok_iff)
  note 1 = sha_input_message [OF Cons.prems(1) s1]
  note 2 = Cons.IH [OF conjunct1 [OF 1] r]
  show ?case using 1 2 by (cases "b = []") (auto simp: i)
qed simp


section \<open>An example engine\<close>

text \<open>An engine that is done at once and whose hash is the first bytes of the message.\<close>

definition prefix_digest :: "bytes \<Rightarrow> bytes" where
  "prefix_digest m = take 32 (m @ replicate 32 0)"

definition quick_dcp :: hw where
  "quick_dcp = \<lparr>answer = \<lambda>_ _. 0,
     dma_memory = \<lambda>tr a n. if n = 4 then [1, 0, 0, 0] else rev (prefix_digest (hashed (sha_jobs tr)))\<rparr>"

lemma quick_dcp_simps [simp]:
  "answer quick_dcp tr r = 0" "dma_memory quick_dcp tr a 4 = [1, 0, 0, 0]"
  "dma_memory quick_dcp tr a 32 = rev (prefix_digest (hashed (sha_jobs tr)))"
  by (simp_all add: quick_dcp_def)

interpretation quick: sha_engine quick_dcp prefix_digest
  by unfold_locales simp

lemmas quick_engine = quick.sha_engine_axioms

lemma quick_run: "\<exists>tr'. run_cmd quick_dcp ch a c src b tr = (Ok (), tr')"
proof -
  let ?t = "Wr (Dcp (CHSEMA ch)) 1 # Mem a (cmd_bytes c) # Mem src b # Wr (Dcp (CHCMDPTR ch)) a # tr"
  have "aloop (now_round quick_dcp) (0, 0) t = (Ok 0 :: (unit, instant) outcome, Rd (Snvs RTCLR) 0 # Rd (Snvs RTCMR) 0 # t)" for t
    by (rule aloop_break) (simp add: now_round_def abind_def rd_def)
  then have now: "\<exists>t'. instant_now quick_dcp t = (Ok 0 :: (unit, instant) outcome, t')" for t
    by (simp add: instant_now_def abind_def rd_def)
  have poll: "\<exists>t'. aloop (poll_round quick_dcp (job_poll quick_dcp ch a) dcp_timeout 0) () t = (Ok (Some 0), t')" for t
    by (rule exI, rule aloop_break)
      (simp add: poll_round_def job_poll_def cmd_status_def word_at_def le32_of_def abind_def rd_def)
  obtain t1 where t1: "instant_now quick_dcp ?t = (Ok 0 :: (unit, instant) outcome, t1)" using now by blast
  obtain t2 where "aloop (poll_round quick_dcp (job_poll quick_dcp ch a) dcp_timeout 0) () t1 = (Ok (Some 0), t2)"
    using poll by blast
  then show ?thesis
    using t1 by (simp add: run_cmd_def abind_def wr_def hand_over_def wait_for_or_timeout_def)
qed

lemma quick_block:
  "blocks \<noteq> [] \<Longrightarrow> length blocks mod 64 = 0 \<Longrightarrow>
    \<exists>tr'. process_blocks quick_dcp Dev L src blocks first tr = (Ok False, tr')"
  by (simp add: process_blocks_def abind_Ok_iff SHA_BLOCK_def quick_run odebug_assert_def)

lemma quick_session:
  "\<exists>out tr'. abind (sha_inputs quick_dcp Dev L [(0x1000, [1, 2, 3]), (0x2000, replicate 64 7)] (sha_reset sha_new))
    (fixed_result quick_dcp L) [] = (Ok out, tr')"
proof -
  obtain t1 where t1: "process_blocks quick_dcp Dev L (buffer_at L) ([1, 2, 3] @ replicate 61 7) True [] = (Ok False, t1)"
    using quick_block [of "[1, 2, 3] @ replicate 61 7" L "buffer_at L" True "[]"] by auto
  let ?s = "sha_new\<lparr>sha_buffer := [1, 2, 3], sha_count := 3\<rparr>"
  have 1: "sha_input quick_dcp Dev L 0x1000 [1, 2, 3] (sha_reset sha_new) [] = (Ok ?s, [])"
    by (simp add: sha_input_def sha_reset_def sha_new_def MAX_COUNT_def process_and_push_def SHA_BLOCK_def
        odebug_assert_def vec_extend_def)
  have 2: "\<exists>s'. sha_input quick_dcp Dev L 0x2000 (replicate 64 7) ?s [] = (Ok s', t1)"
    using t1 by (simp add: sha_input_def sha_new_def MAX_COUNT_def push_and_process_def process_and_push_def
        SHA_BLOCK_def odebug_assert_def vec_extend_def abind_def [of "process_blocks _ _ _ _ _ _"])
  then obtain s' where s': "sha_input quick_dcp Dev L 0x2000 (replicate 64 7) ?s [] = (Ok s', t1)" by blast
  have "\<exists>out tr'. fixed_result quick_dcp L s' t1 = (Ok out, tr')"
    by (simp add: fixed_result_def abind_Ok_iff quick_run)
  then show ?thesis using 1 s' by simp
qed

definition example_layout :: sha_layout where
  "example_layout = \<lparr>cmd_at = 0x900000, buffer_at = 0x900040, output_at = 0x900080\<rparr>"


section \<open>Capacity and channels\<close>

text \<open>
  The counter of a digest limits its input to 512 MB, whatever the lengths of the inputs were: an input
  that exceeds it panics before the engine is given anything. \<^verbatim>\<open>reset\<close> does not clear the counter, so
  a new, short message panics as well once the messages before it add up to the limit.
\<close>

lemma sha_count_survives_reset:
  assumes "sha_ok js0 s0 tr0 m0" "sha_inputs hw p L is' s0 tr0 = (Ok s, tr)" "sha_count s0 = 0"
    and "input \<noteq> []" "MAX_COUNT < length (concat (map snd is')) + length input"
  shows "sha_input hw p L src input s tr = (Panic, tr) \<and> sha_input hw p L src input (sha_reset s) tr = (Panic, tr) \<and>
    sha_count s \<le> MAX_COUNT"
  using sha_inputs_message [OF assms(1,2)] assms(3-5) by (simp add: sha_input_def sha_reset_def)

lemma sha_count_survives_reset_witness:
  "sha_input quick_dcp Dev example_layout 0x1000 (replicate (MAX_COUNT + 1) 0) (sha_reset sha_new) [] = (Panic, [])"
proof -
  have "sha_ok [] sha_new [] []" by (simp add: sha_ok_def sha_new_def holds_message_def partial_jobs_def)
  moreover have "sha_inputs quick_dcp Dev example_layout [] sha_new [] = (Ok sha_new, [])" by simp
  moreover have "replicate (MAX_COUNT + 1) (0 :: u8) \<noteq> []" by simp
  ultimately show ?thesis
    using sha_count_survives_reset [of "[]" sha_new "[]" "[]" quick_dcp Dev example_layout "[]" sha_new "[]"
        "replicate (MAX_COUNT + 1) 0"]
    by (simp add: sha_new_def del: replicate_Suc)
qed

text \<open>
  A channel in use is not handed out again. And a spurious failure of the exchange in \<^verbatim>\<open>dcp::init\<close>
  counts as an initialisation that has already been done: the handle is given out although no context was ever
  installed.
\<close>

lemma sha_take_exclusive:
  assumes "sha_take hw c sp1 sp2 s = (Ok (Some d), s')"
  shows "sha_in_use s' \<and> sha_take hw c sp3 sp4 s' = (Ok None, s')"
proof -
  from assms have "sha_in_use s'"
    by (auto simp: sha_take_def dcp_init_def cas_weak_def abind_Ok_iff on_trace_def rd_def wr_def
        split: if_splits prod.splits)
  then show ?thesis by (simp add: sha_take_def cas_weak_def abind_def)
qed

lemma init_skipped:
  assumes "\<not> sha_in_use s"
  shows "sha_take hw c False True s = (Ok (Some sha_new),
    s\<lparr>sha_in_use := True, dcp_trace := Wr (Dcp CHANNELCTRL_SET) (push_bit SHA256_CHANNEL 1) # dcp_trace s\<rparr>)"
  using assms by (simp add: sha_take_def dcp_init_def cas_weak_def abind_def on_trace_def wr_def del: push_bit_of_1)

end
