(* ===== verification/RticLock.thy ===== *)
theory RticLock
  imports Prelude
begin

text \<open>
  Critical sections of \<^verbatim>\<open>firmware/cortex-a-rtic\<close>: what \<^verbatim>\<open>lock\<close> and \<^verbatim>\<open>run\<close> of \<^verbatim>\<open>src/export.rs\<close> do to the
  priority mask of the interrupt controller, with the preemptions that can happen between any two of their accesses.
\<close>

section \<open>Priorities\<close>

definition PRIO_BITS :: nat where "PRIO_BITS = 5"
definition IDLE_PRIORITY :: u8 where "IDLE_PRIORITY = 0"
definition MAX_PRIORITY :: u8 where "MAX_PRIORITY = push_bit PRIO_BITS 1 - 1"

definition logical2hw :: "profile \<Rightarrow> u8 \<Rightarrow> ('e, u8) outcome" where
  "logical2hw p logical =
     obind (odebug_assert p (logical \<le> MAX_PRIORITY)) (\<lambda>_.
     obind (prof_sub p (push_bit PRIO_BITS 1) logical) (\<lambda>a.
     obind (prof_sub p a 1) (\<lambda>b.
     Ok (push_bit (8 - PRIO_BITS) b))))"

section \<open>Hardware priorities are the logical ones, reversed\<close>

definition hw_prio :: "u8 \<Rightarrow> u8" where
  "hw_prio l = push_bit 3 (31 - l)"

lemma MAX_PRIORITY_31: "MAX_PRIORITY = 31"
  by (simp add: MAX_PRIORITY_def PRIO_BITS_def)

lemma logical2hw_Ok: "l \<le> 31 \<Longrightarrow> logical2hw p l = Ok (hw_prio l)"
proof -
  assume l: "l \<le> 31"
  then have "unat l \<le> 31" by (simp add: word_le_nat_alt)
  then have 1: "1 \<le> 32 - l" using l by (simp add: word_le_nat_alt unat_sub)
  have 2: "l \<le> 32" using l by (simp add: word_le_nat_alt)
  show ?thesis
    using l 1 2 by (simp add: logical2hw_def odebug_assert_def MAX_PRIORITY_31 PRIO_BITS_def prof_sub_fits hw_prio_def)
qed

lemma logical2hw_Ok_iff: "l \<le> 31 \<Longrightarrow> logical2hw p l = Ok v \<longleftrightarrow> v = hw_prio l"
  by (auto simp: logical2hw_Ok)

lemma unat_hw_prio: "l \<le> 31 \<Longrightarrow> unat (hw_prio l) = 8 * (31 - unat l)"
proof -
  assume "l \<le> 31"
  then have "unat (31 - l) = 31 - unat l" by (simp add: unat_sub)
  moreover have "unat (push_bit 3 x) = 8 * unat x" if "unat x \<le> 31" for x :: u8
    using that unat_mult_lem [of x 8] by (simp add: push_bit_eq_mult)
  ultimately show ?thesis by (simp only: hw_prio_def)
qed

lemma hw_prio_less [simp]: "l \<le> 31 \<Longrightarrow> k \<le> 31 \<Longrightarrow> hw_prio l < hw_prio k \<longleftrightarrow> k < l"
  by (auto simp: word_less_nat_alt word_le_nat_alt unat_hw_prio)

lemma hw_prio_le [simp]: "l \<le> 31 \<Longrightarrow> k \<le> 31 \<Longrightarrow> hw_prio l \<le> hw_prio k \<longleftrightarrow> k \<le> l"
  by (auto simp: word_le_nat_alt unat_hw_prio)


section \<open>The state of a running application\<close>

text \<open>
  What the macros know of an application: the priority of each task (task 0 is \<^verbatim>\<open>idle\<close>), the resources
  it uses, the ceiling of each resource.
\<close>

record app =
  prio_of :: "nat \<Rightarrow> u8"
  uses :: "nat \<Rightarrow> nat \<Rightarrow> bool"
  ceiling_of :: "nat \<Rightarrow> u8"

text \<open>
  A call of \<^verbatim>\<open>lock\<close> that took the first branch has set the priority cell (\<open>Raise\<close>), then the mask and
  runs the closure (\<open>Body\<close>), then has set the mask back (\<open>Drop\<close>). One that took the second
  branch only runs the closure.
\<close>

datatype lock_stage = Raise | Body | Drop

record lock_call =
  lres :: nat
  lcurrent :: u8
  lraised :: bool
  lstage :: lock_stage

text \<open>
  A handler: \<open>Acked\<close> (\<^verbatim>\<open>IRQ\<close> has read \<^verbatim>\<open>IAR\<close>, interrupts still masked), \<open>Enabled\<close> (after \<^verbatim>\<open>enable_irq\<close>),
  \<open>Running\<close> (\<^verbatim>\<open>run\<close> has read the mask, the task runs), \<open>Restored\<close> (\<^verbatim>\<open>run\<close> has written the mask),
  \<open>Finished\<close> (after \<^verbatim>\<open>disable_irq\<close>). \<open>initial\<close> is the local variable of \<^verbatim>\<open>run\<close>; \<open>found\<close> is not in the
  code: it records the mask at the interrupt.
\<close>

datatype handler_stage = Acked | Enabled | Running | Restored | Finished

record handler =
  htask :: nat
  cell :: u8
  locks :: "lock_call list"
  hstage :: handler_stage
  initial :: u32
  found :: u32

text \<open>The active handlers, the running one first and \<^verbatim>\<open>idle\<close> last, and the register \<^verbatim>\<open>PMR\<close>.\<close>

record system =
  pmr :: u32
  stack :: "handler list"

definition idle_start :: handler where
  "idle_start = \<lparr>htask = 0, cell = IDLE_PRIORITY, locks = [], hstage = Running, initial = 0, found = 0\<rparr>"

definition system_start :: system where
  "system_start = \<lparr>pmr = ucast (hw_prio IDLE_PRIORITY), stack = [idle_start]\<rparr>"

text \<open>Interrupts are unmasked; the closure of the innermost \<^verbatim>\<open>lock\<close>, or else the task itself, runs.\<close>

definition irqs_on :: "handler \<Rightarrow> bool" where
  "irqs_on h \<longleftrightarrow> hstage h \<noteq> Acked \<and> hstage h \<noteq> Finished"

definition in_user_code :: "handler \<Rightarrow> bool" where
  "in_user_code h \<longleftrightarrow> hstage h = Running \<and> (case locks h of [] \<Rightarrow> True | l # _ \<Rightarrow> lstage l = Body)"

text \<open>
  The interrupt controller signals an interrupt when its priority value is lower than \<^verbatim>\<open>PMR\<close> and lower
  than the running priority, that of the innermost handler (section 4.4 of the GIC architecture; outside of
  handlers it is 0xFF).
\<close>

definition gic_signals :: "app \<Rightarrow> system \<Rightarrow> nat \<Rightarrow> bool" where
  "gic_signals A s t \<longleftrightarrow>
     (case stack s of
        [] \<Rightarrow> False
      | h # _ \<Rightarrow> ucast (hw_prio (prio_of A t)) < pmr s \<and>
          (htask h \<noteq> 0 \<longrightarrow> hw_prio (prio_of A t) < hw_prio (prio_of A (htask h))))"

inductive rtic_step :: "profile \<Rightarrow> app \<Rightarrow> system \<Rightarrow> system \<Rightarrow> bool" for p A where
  preempt: "stack s = h # hs \<Longrightarrow> irqs_on h \<Longrightarrow> t \<noteq> 0 \<Longrightarrow> gic_signals A s t \<Longrightarrow>
    rtic_step p A s (s\<lparr>stack := \<lparr>htask = t, cell = prio_of A t, locks = [], hstage = Acked, initial = 0, found = pmr s\<rparr>
      # stack s\<rparr>)"
| enable: "stack s = h # hs \<Longrightarrow> hstage h = Acked \<Longrightarrow>
    rtic_step p A s (s\<lparr>stack := h\<lparr>hstage := Enabled\<rparr> # hs\<rparr>)"
| begin_run: "stack s = h # hs \<Longrightarrow> hstage h = Enabled \<Longrightarrow>
    rtic_step p A s (s\<lparr>stack := h\<lparr>hstage := Running, initial := (if prio_of A (htask h) = 1 then 0 else pmr s)\<rparr> # hs\<rparr>)"
| lock_raise: "stack s = h # hs \<Longrightarrow> in_user_code h \<Longrightarrow> uses A (htask h) r \<Longrightarrow> cell h < ceiling_of A r \<Longrightarrow>
    rtic_step p A s (s\<lparr>stack := h\<lparr>cell := ceiling_of A r,
      locks := \<lparr>lres = r, lcurrent = cell h, lraised = True, lstage = Raise\<rparr> # locks h\<rparr> # hs\<rparr>)"
| lock_mask: "stack s = h # hs \<Longrightarrow> hstage h = Running \<Longrightarrow> locks h = l # ls \<Longrightarrow> lstage l = Raise \<Longrightarrow>
    logical2hw p (ceiling_of A (lres l)) = (Ok v :: (unit, u8) outcome) \<Longrightarrow>
    rtic_step p A s (s\<lparr>pmr := ucast v, stack := h\<lparr>locks := l\<lparr>lstage := Body\<rparr> # ls\<rparr> # hs\<rparr>)"
| lock_nested: "stack s = h # hs \<Longrightarrow> in_user_code h \<Longrightarrow> uses A (htask h) r \<Longrightarrow> \<not> cell h < ceiling_of A r \<Longrightarrow>
    rtic_step p A s (s\<lparr>stack := h\<lparr>
      locks := \<lparr>lres = r, lcurrent = cell h, lraised = False, lstage = Body\<rparr> # locks h\<rparr> # hs\<rparr>)"
| lock_unmask: "stack s = h # hs \<Longrightarrow> hstage h = Running \<Longrightarrow> locks h = l # ls \<Longrightarrow> lstage l = Body \<Longrightarrow> lraised l \<Longrightarrow>
    logical2hw p (lcurrent l) = (Ok v :: (unit, u8) outcome) \<Longrightarrow>
    rtic_step p A s (s\<lparr>pmr := ucast v, stack := h\<lparr>locks := l\<lparr>lstage := Drop\<rparr> # ls\<rparr> # hs\<rparr>)"
| lock_drop: "stack s = h # hs \<Longrightarrow> hstage h = Running \<Longrightarrow> locks h = l # ls \<Longrightarrow> lstage l = Drop \<Longrightarrow>
    rtic_step p A s (s\<lparr>stack := h\<lparr>cell := lcurrent l, locks := ls\<rparr> # hs\<rparr>)"
| lock_leave: "stack s = h # hs \<Longrightarrow> hstage h = Running \<Longrightarrow> locks h = l # ls \<Longrightarrow> lstage l = Body \<Longrightarrow> \<not> lraised l \<Longrightarrow>
    rtic_step p A s (s\<lparr>stack := h\<lparr>locks := ls\<rparr> # hs\<rparr>)"
| restore: "stack s = h # hs \<Longrightarrow> hs \<noteq> [] \<Longrightarrow> hstage h = Running \<Longrightarrow> locks h = [] \<Longrightarrow>
    (if prio_of A (htask h) = 1 then logical2hw p IDLE_PRIORITY = (Ok v :: (unit, u8) outcome) \<and> m = ucast v
     else m = initial h) \<Longrightarrow>
    rtic_step p A s (s\<lparr>pmr := m, stack := h\<lparr>hstage := Restored\<rparr> # hs\<rparr>)"
| disable: "stack s = h # hs \<Longrightarrow> hstage h = Restored \<Longrightarrow>
    rtic_step p A s (s\<lparr>stack := h\<lparr>hstage := Finished\<rparr> # hs\<rparr>)"
| return_irq: "stack s = h # hs \<Longrightarrow> hstage h = Finished \<Longrightarrow> rtic_step p A s (s\<lparr>stack := hs\<rparr>)"

inductive rtic_reach :: "profile \<Rightarrow> app \<Rightarrow> system \<Rightarrow> bool" for p A where
  start: "rtic_reach p A system_start"
| step: "rtic_reach p A s \<Longrightarrow> rtic_step p A s s' \<Longrightarrow> rtic_reach p A s'"

text \<open>
  What the analysis of the application guarantees: idle has the lowest priority and the tasks one of 1 to
  31, the ceiling of a resource is at least the priority of each task that uses it and not above 31.
\<close>

definition analysed :: "app \<Rightarrow> bool" where
  "analysed A \<longleftrightarrow> prio_of A 0 = 0 \<and> (\<forall>t. t \<noteq> 0 \<longrightarrow> 1 \<le> prio_of A t \<and> prio_of A t \<le> MAX_PRIORITY) \<and>
     (\<forall>t r. uses A t r \<longrightarrow> prio_of A t \<le> ceiling_of A r) \<and> (\<forall>r. ceiling_of A r \<le> MAX_PRIORITY)"

text \<open>
  A handler accesses a resource in the closure of a lock or, when its own priority is the ceiling, directly.
\<close>

definition accesses :: "app \<Rightarrow> handler \<Rightarrow> nat \<Rightarrow> bool" where
  "accesses A h r \<longleftrightarrow>
     uses A (htask h) r \<and>
     ((\<exists>l \<in> set (locks h). lres l = r \<and> lstage l = Body) \<or> prio_of A (htask h) = ceiling_of A r)"


section \<open>The invariant\<close>

text \<open>
  \<open>nesting A p c ls\<close>: the calls of \<^verbatim>\<open>lock\<close> that are active in a handler of priority \<open>p\<close> whose cell is \<open>c\<close>.
  \<open>level h\<close> is the priority up to which the handler masks: the cell, unless a call of \<^verbatim>\<open>lock\<close> has not
  set the mask yet or has already set it back.
\<close>

fun nesting :: "app \<Rightarrow> u8 \<Rightarrow> u8 \<Rightarrow> lock_call list \<Rightarrow> bool" where
  "nesting A p c [] \<longleftrightarrow> c = p"
| "nesting A p c (l # ls) \<longleftrightarrow>
     (if lraised l then c = ceiling_of A (lres l) \<and> lcurrent l < c \<and> nesting A p (lcurrent l) ls
      else lstage l = Body \<and> ceiling_of A (lres l) \<le> c \<and> nesting A p c ls) \<and>
     (\<forall>k \<in> set ls. lstage k = Body)"

definition level :: "handler \<Rightarrow> u8" where
  "level h = (case locks h of [] \<Rightarrow> cell h | l # _ \<Rightarrow> if lstage l = Body then cell h else lcurrent l)"

definition masks :: "u32 \<Rightarrow> u8 \<Rightarrow> u8 \<Rightarrow> bool" where
  "masks m p e \<longleftrightarrow> e \<le> 31 \<and> (\<exists>k \<le> e. m = ucast (hw_prio k) \<and> (e \<noteq> p \<longrightarrow> k = e))"

definition sane :: "app \<Rightarrow> u32 \<Rightarrow> handler \<Rightarrow> bool" where
  "sane A m h \<longleftrightarrow>
     nesting A (prio_of A (htask h)) (cell h) (locks h) \<and> masks m (prio_of A (htask h)) (level h) \<and>
     (hstage h \<noteq> Running \<longrightarrow> locks h = [] \<and> m = found h) \<and>
     (hstage h = Running \<and> prio_of A (htask h) \<noteq> 1 \<longrightarrow> initial h = found h)"

fun stacked :: "app \<Rightarrow> u32 \<Rightarrow> handler list \<Rightarrow> bool" where
  "stacked A m [] \<longleftrightarrow> False"
| "stacked A m [h] \<longleftrightarrow> htask h = 0 \<and> hstage h = Running \<and> sane A m h"
| "stacked A m (h # g # hs) \<longleftrightarrow>
     htask h \<noteq> 0 \<and> sane A m h \<and> level g < prio_of A (htask h) \<and> stacked A (found h) (g # hs)"

lemma nesting_le: "nesting A p c ls \<Longrightarrow> p \<le> c"
proof (induction ls arbitrary: c)
  case (Cons l ls)
  then show ?case by (cases "lraised l") (auto dest: order.strict_implies_order intro: order.trans)
qed simp

lemma nesting_ceiling: "nesting A p c ls \<Longrightarrow> l \<in> set ls \<Longrightarrow> ceiling_of A (lres l) \<le> c"
  by (induction ls arbitrary: c) (auto split: if_splits intro: order.trans [OF _ order.strict_implies_order])

lemma level_simps:
  "locks h = [] \<Longrightarrow> level h = cell h"
  "locks h = l # ls \<Longrightarrow> lstage l = Body \<Longrightarrow> level h = cell h"
  "locks h = l # ls \<Longrightarrow> lstage l \<noteq> Body \<Longrightarrow> level h = lcurrent l"
  by (simp_all add: level_def)

lemma nesting_level:
  assumes "nesting A p (cell h) (locks h)"
  shows "p \<le> level h" "l \<in> set (locks h) \<Longrightarrow> lstage l = Body \<Longrightarrow> ceiling_of A (lres l) \<le> level h"
proof -
  have "p \<le> level h \<and> (l \<in> set (locks h) \<longrightarrow> lstage l = Body \<longrightarrow> ceiling_of A (lres l) \<le> level h)"
  proof (cases "locks h")
    case Nil
    then show ?thesis using assms by (simp add: level_simps)
  next
    case (Cons k ls)
    show ?thesis
    proof (cases "lstage k = Body")
      case True
      then show ?thesis
        using nesting_le [OF assms] nesting_ceiling [OF assms, of l] Cons by (simp add: level_simps)
    next
      case False
      then have "nesting A p (lcurrent k) ls" using assms Cons by (auto split: if_splits)
      then show ?thesis
        using False Cons nesting_le [of A p "lcurrent k" ls] nesting_ceiling [of A p "lcurrent k" ls l]
        by (auto simp: level_simps)
    qed
  qed
  then show "p \<le> level h" "l \<in> set (locks h) \<Longrightarrow> lstage l = Body \<Longrightarrow> ceiling_of A (lres l) \<le> level h"
    by simp_all
qed

lemma hw32_less [simp]: "l \<le> 31 \<Longrightarrow> k \<le> 31 \<Longrightarrow> (ucast (hw_prio l) :: u32) < ucast (hw_prio k) \<longleftrightarrow> k < l"
  by (simp add: word_less_nat_alt [of "ucast (hw_prio l)"] word_less_nat_alt [of k] unat_hw_prio word_le_nat_alt) linarith

text \<open>The interrupts that are signalled are those above the level of the running handler.\<close>

lemma signals_iff:
  assumes A: "analysed A" and s: "stack s = h # hs" and sane: "sane A (pmr s) h" and t: "t \<noteq> 0"
    and idle: "htask h = 0 \<Longrightarrow> prio_of A (htask h) = 0"
  shows "gic_signals A s t \<longleftrightarrow> level h < prio_of A t"
proof -
  let ?p = "prio_of A (htask h)" and ?q = "prio_of A t"
  from sane obtain k where k: "k \<le> level h" "level h \<le> 31" "pmr s = ucast (hw_prio k)" "level h \<noteq> ?p \<Longrightarrow> k = level h"
    by (auto simp: sane_def masks_def)
  have p: "?p \<le> level h" using sane nesting_level(1) by (auto simp: sane_def)
  have q: "1 \<le> ?q" "?q \<le> 31" using A t by (auto simp: analysed_def MAX_PRIORITY_31)
  have p31: "?p \<le> 31" and k31: "k \<le> 31" using p k by auto
  have "gic_signals A s t \<longleftrightarrow> k < ?q \<and> (htask h \<noteq> 0 \<longrightarrow> ?p < ?q)"
    using k(3) q p31 k31 by (simp add: gic_signals_def s)
  also have "\<dots> \<longleftrightarrow> level h < ?q"
  proof
    assume r: "k < ?q \<and> (htask h \<noteq> 0 \<longrightarrow> ?p < ?q)"
    show "level h < ?q"
    proof (cases "level h = ?p")
      case True
      have "0 < ?q" using q(1) by (simp add: word_le_nat_alt word_less_nat_alt)
      then show ?thesis using r True idle by metis
    qed (use r k in simp)
  qed (use p k in auto)
  finally show ?thesis .
qed


lemma stacked_sane: "stacked A m (h # hs) \<Longrightarrow> sane A m h"
  by (cases hs) auto

lemma stacked_top:
  assumes "stacked A m (h # hs)" "sane A m' h'" "htask h' = htask h" "found h' = found h"
    and "hstage h = Running \<Longrightarrow> hs = [] \<Longrightarrow> hstage h' = Running"
  shows "stacked A m' (h' # hs)"
  using assms by (cases hs) auto

lemma in_user_code_Body:
  assumes "in_user_code h" "nesting A p (cell h) (locks h)"
  shows "\<forall>l \<in> set (locks h). lstage l = Body" "level h = cell h" "hstage h = Running"
  using assms by (auto simp: in_user_code_def level_def split: list.splits)

lemma masks_at: "e \<le> 31 \<Longrightarrow> masks (ucast (hw_prio e)) p e"
  by (auto simp: masks_def)

lemma rtic_step_stacked:
  assumes A: "analysed A" and "rtic_step p A s s'" and st: "stacked A (pmr s) (stack s)"
  shows "stacked A (pmr s') (stack s')"
  using assms(2)
proof cases
  case (preempt h hs t)
  note sane = stacked_sane [OF st [unfolded preempt(2)]]
  have "htask h = 0 \<Longrightarrow> prio_of A (htask h) = 0" using A by (simp add: analysed_def)
  from signals_iff [OF A preempt(2) sane preempt(4) this] preempt(5) have l: "level h < prio_of A t" by simp
  from sane obtain k where k: "k \<le> level h" "pmr s = ucast (hw_prio k)" by (auto simp: sane_def masks_def)
  have "prio_of A t \<le> 31" using A preempt(4) by (simp add: analysed_def MAX_PRIORITY_31)
  moreover have "k \<le> prio_of A t" using k(1) l by simp
  ultimately have "masks (pmr s) (prio_of A t) (prio_of A t)" using k(2) by (auto simp: masks_def)
  then show ?thesis using st preempt l by (simp add: sane_def level_def)
next
  case (enable h hs)
  show ?thesis unfolding enable(1)
    by (simp, rule stacked_top [OF st [unfolded enable(2)]])
      (use stacked_sane [OF st [unfolded enable(2)]] enable in \<open>auto simp: sane_def level_def\<close>)
next
  case (begin_run h hs)
  show ?thesis unfolding begin_run(1)
    by (simp split del: if_split, rule stacked_top [OF st [unfolded begin_run(2)]])
      (use stacked_sane [OF st [unfolded begin_run(2)]] begin_run in \<open>auto simp: sane_def level_def\<close>)
next
  case (lock_raise h hs r)
  note sane = stacked_sane [OF st [unfolded lock_raise(2)]]
  show ?thesis unfolding lock_raise(1)
    by (simp, rule stacked_top [OF st [unfolded lock_raise(2)]])
      (use sane lock_raise in_user_code_Body [OF lock_raise(3)] in \<open>auto simp: sane_def level_simps\<close>)
next
  case (lock_mask h hs l ls v)
  note sane = stacked_sane [OF st [unfolded lock_mask(2)]]
  have "ceiling_of A (lres l) \<le> 31" using A by (simp add: analysed_def MAX_PRIORITY_31)
  then have "v = hw_prio (ceiling_of A (lres l))" "ceiling_of A (lres l) \<le> 31"
    using lock_mask(6) by (simp_all add: logical2hw_Ok_iff)
  then show ?thesis unfolding lock_mask(1)
    by (simp, intro stacked_top [OF st [unfolded lock_mask(2)]])
      (use sane lock_mask masks_at in \<open>auto simp: sane_def level_simps split: if_splits\<close>)
next
  case (lock_nested h hs r)
  note sane = stacked_sane [OF st [unfolded lock_nested(2)]]
  show ?thesis unfolding lock_nested(1)
    by (simp, rule stacked_top [OF st [unfolded lock_nested(2)]])
      (use sane lock_nested in_user_code_Body [OF lock_nested(3)] in \<open>auto simp: sane_def level_simps\<close>)
next
  case (lock_unmask h hs l ls v)
  note sane = stacked_sane [OF st [unfolded lock_unmask(2)]]
  have "lcurrent l \<le> 31" using sane lock_unmask by (auto simp: sane_def masks_def level_simps)
  then have "v = hw_prio (lcurrent l)" "lcurrent l \<le> 31"
    using lock_unmask(7) by (simp_all add: logical2hw_Ok_iff)
  then show ?thesis unfolding lock_unmask(1)
    by (simp, intro stacked_top [OF st [unfolded lock_unmask(2)]])
      (use sane lock_unmask masks_at in \<open>auto simp: sane_def level_simps split: if_splits\<close>)
next
  case (lock_drop h hs l ls)
  note sane = stacked_sane [OF st [unfolded lock_drop(2)]]
  have "level (h\<lparr>cell := lcurrent l, locks := ls\<rparr>) = lcurrent l"
    using sane lock_drop by (cases ls) (auto simp: sane_def level_def)
  then show ?thesis unfolding lock_drop(1)
    by (simp, intro stacked_top [OF st [unfolded lock_drop(2)]])
      (use sane lock_drop in \<open>auto simp: sane_def level_simps split: if_splits\<close>)
next
  case (lock_leave h hs l ls)
  note sane = stacked_sane [OF st [unfolded lock_leave(2)]]
  have "level (h\<lparr>locks := ls\<rparr>) = cell h"
    using sane lock_leave by (cases ls) (auto simp: sane_def level_def)
  then show ?thesis unfolding lock_leave(1)
    by (simp, intro stacked_top [OF st [unfolded lock_leave(2)]])
      (use sane lock_leave in \<open>auto simp: sane_def level_simps split: if_splits\<close>)
next
  case (restore h hs v m)
  obtain g gs where hs: "hs = g # gs" using restore(3) by (cases hs) auto
  have sane: "sane A (pmr s) h" and below: "stacked A (found h) (g # gs)" "level g < prio_of A (htask h)"
    using st restore(2) hs by auto
  from stacked_sane [OF below(1)] obtain k where k: "k \<le> level g" "found h = ucast (hw_prio k)"
    by (auto simp: sane_def masks_def)
  have "m = found h"
  proof (cases "prio_of A (htask h) = 1")
    case True
    then have "level g = 0" using below(2) by (simp add: word_less_nat_alt word_unat_eq_iff)
    then have "k = 0" using k(1) by simp
    then show ?thesis using restore(6) True k(2) by (simp add: IDLE_PRIORITY_def logical2hw_Ok_iff)
  next
    case False
    then show ?thesis using restore sane by (simp add: sane_def)
  qed
  moreover have "masks (found h) (prio_of A (htask h)) (prio_of A (htask h))"
  proof -
    have "prio_of A (htask h) \<le> 31"
      using sane restore(5) by (auto simp: masks_def sane_def level_simps)
    moreover have "k \<le> prio_of A (htask h)" using k(1) below(2) by simp
    ultimately show ?thesis using k(2) by (auto simp: masks_def)
  qed
  ultimately show ?thesis using st restore hs sane below by (simp add: sane_def level_simps)
next
  case (disable h hs)
  show ?thesis unfolding disable(1)
    by (simp, rule stacked_top [OF st [unfolded disable(2)]])
      (use stacked_sane [OF st [unfolded disable(2)]] disable in \<open>auto simp: sane_def level_def\<close>)
next
  case (return_irq h hs)
  then show ?thesis using st by (cases hs) (auto simp: sane_def)
qed

lemma rtic_reach_stacked:
  assumes "analysed A" "rtic_reach p A s"
  shows "stacked A (pmr s) (stack s)"
  using assms(2)
proof induction
  case start
  have "prio_of A 0 = 0" using assms(1) by (simp add: analysed_def)
  then show ?case
    using masks_at [of 0 0] by (simp add: system_start_def idle_start_def sane_def level_def IDLE_PRIORITY_def)
qed (rule rtic_step_stacked [OF assms(1)])


section \<open>Mutual exclusion\<close>

lemma stacked_nesting:
  "stacked A m hs \<Longrightarrow> h \<in> set hs \<Longrightarrow> nesting A (prio_of A (htask h)) (cell h) (locks h)"
  by (induction A m hs rule: stacked.induct) (auto simp: sane_def)

lemma stacked_above:
  "stacked A m hs \<Longrightarrow> i < j \<Longrightarrow> j < length hs \<Longrightarrow> level (hs ! j) < prio_of A (htask (hs ! i))"
proof (induction A m hs arbitrary: i j rule: stacked.induct)
  case (3 A m h g hs)
  have g: "prio_of A (htask g) \<le> level g"
    by (rule nesting_level(1) [of A], rule stacked_nesting [OF 3(2)]) simp
  show ?case
  proof (cases "i = 0")
    case False
    then show ?thesis using 3(1)[of "i - 1" "j - 1"] 3(2-4) by (auto simp: nth_Cons')
  next
    case True
    show ?thesis
    proof (cases "j = 1")
      case False
      then have "level ((g # hs) ! (j - 1)) < prio_of A (htask ((g # hs) ! 0))"
        using 3(1)[of 0 "j - 1"] 3(2-4) True by auto
      also have "\<dots> \<le> level g" using g by simp
      also have "\<dots> < prio_of A (htask h)" using 3(2) by simp
      finally show ?thesis using True 3(3) by simp
    qed (use 3(2) True in simp)
  qed
qed auto

text \<open>
  C3. Resources are never accessed by two contexts at once: in every reachable state, whatever the interleaving
  of interrupts with the single accesses of \<^verbatim>\<open>lock\<close> and \<^verbatim>\<open>run\<close>, no two active handlers (\<^verbatim>\<open>idle\<close>
  included) are both inside the closure of a lock of the same resource, or access it directly because their priority
  is its ceiling.
\<close>

theorem rtic_mutual_exclusion:
  assumes "analysed A" "rtic_reach p A s" "i < j" "j < length (stack s)" "accesses A (stack s ! j) r"
  shows "\<not> accesses A (stack s ! i) r"
proof
  assume top: "accesses A (stack s ! i) r"
  note st = rtic_reach_stacked [OF assms(1,2)]
  have "stack s ! j \<in> set (stack s)" using assms(4) by simp
  note nest = nesting_level [OF stacked_nesting [OF st this]]
  have "ceiling_of A r \<le> level (stack s ! j)"
    using assms(5) nest by (auto simp: accesses_def)
  also have "\<dots> < prio_of A (htask (stack s ! i))" by (rule stacked_above [OF st assms(3,4)])
  also have "\<dots> \<le> ceiling_of A r" using top assms(1) by (auto simp: accesses_def analysed_def)
  finally show False by simp
qed

text \<open>
  C37. Scheduling by ceilings. While interrupts are unmasked, an interrupt is taken exactly if its priority is
  above the level of the running context, which is its own priority or, in critical sections, the highest ceiling;
  a handler that returns leaves the mask as it found it; and there are never more than 32 contexts.
\<close>

theorem rtic_ceiling_scheduling:
  assumes "analysed A" "rtic_reach p A s" "stack s = h # hs"
  shows "(\<forall>t. t \<noteq> 0 \<longrightarrow> gic_signals A s t = (level h < prio_of A t)) \<and>
    prio_of A (htask h) \<le> level h \<and> (\<forall>l \<in> set (locks h). lstage l = Body \<longrightarrow> ceiling_of A (lres l) \<le> level h) \<and>
    (hstage h = Finished \<longrightarrow> pmr s = found h) \<and> length (stack s) \<le> 32"
proof -
  note st = rtic_reach_stacked [OF assms(1,2)]
  have sane: "sane A (pmr s) h" using st assms(3) stacked_sane by simp
  then have nest: "nesting A (prio_of A (htask h)) (cell h) (locks h)" by (simp add: sane_def)
  have idle: "htask h = 0 \<Longrightarrow> prio_of A (htask h) = 0" using assms(1) by (simp add: analysed_def)
  let ?hs = "stack s"
  let ?P = "\<lambda>i. unat (prio_of A (htask (?hs ! i)))"
  have dec: "?P j < ?P i" if "i < j" "j < length ?hs" for i j
  proof -
    have "prio_of A (htask (?hs ! j)) \<le> level (?hs ! j)"
      by (rule nesting_level(1) [of A]) (use stacked_nesting [OF st] that(2) in simp)
    also have "\<dots> < prio_of A (htask (?hs ! i))" by (rule stacked_above [OF st that])
    finally show ?thesis by (simp add: word_less_nat_alt)
  qed
  have "?P i \<le> 31" for i
    using assms(1) by (cases "htask (?hs ! i) = 0") (auto simp: analysed_def MAX_PRIORITY_31 word_le_nat_alt)
  then have "?P ` {..<length ?hs} \<subseteq> {..31}" by auto
  moreover have "inj_on ?P {..<length ?hs}"
    by (rule inj_onI) (metis dec lessThan_iff linorder_neqE_nat order_less_irrefl)
  ultimately have "card {..<length ?hs} \<le> card {..31 :: nat}" by (intro card_inj_on_le) auto
  then have "length ?hs \<le> 32" by simp
  then show ?thesis
    using signals_iff [OF assms(1,3) sane _ idle] nesting_level [OF nest] sane by (auto simp: sane_def)
qed


text \<open>
  Two tasks, of priorities 1 and 2; task 1 shares a resource with idle and another one with task 2. In the
  state below, idle is in its critical section and was preempted by task 2.
\<close>

definition two_tasks :: app where
  "two_tasks = \<lparr>prio_of = (\<lambda>t. if t = 0 then 0 else if t = 1 then 1 else 2),
     uses = (\<lambda>t r. if r = 0 then t \<le> 1 else 1 \<le> t), ceiling_of = (\<lambda>r. if r = 0 then 1 else 2)\<rparr>"

definition idle_lock :: lock_call where
  "idle_lock = \<lparr>lres = 0, lcurrent = 0, lraised = True, lstage = Body\<rparr>"

definition idle_locked :: handler where
  "idle_locked = \<lparr>htask = 0, cell = 1, locks = [idle_lock], hstage = Running, initial = 0, found = 0\<rparr>"

definition task2_acked :: handler where
  "task2_acked = \<lparr>htask = 2, cell = 2, locks = [], hstage = Acked, initial = 0, found = 0xF0\<rparr>"

lemma two_tasks_analysed: "analysed two_tasks"
  by (simp add: analysed_def two_tasks_def MAX_PRIORITY_31)

lemma idle_locked_reached: "rtic_reach Dev two_tasks \<lparr>pmr = 0xF0, stack = [idle_locked]\<rparr>"
proof -
  let ?l = "idle_lock\<lparr>lstage := Raise\<rparr>"
  let ?h = "idle_locked\<lparr>locks := [?l]\<rparr>"
  have "rtic_step Dev two_tasks system_start \<lparr>pmr = 0xF8, stack = [?h]\<rparr>"
    using rtic_step.lock_raise [of system_start idle_start "[]" two_tasks 0 Dev]
    by (simp add: system_start_def idle_start_def two_tasks_def IDLE_PRIORITY_def hw_prio_def in_user_code_def
        idle_lock_def idle_locked_def)
  then have 1: "rtic_reach Dev two_tasks \<lparr>pmr = 0xF8, stack = [?h]\<rparr>"
    by (rule rtic_reach.step [OF rtic_reach.start])
  have "logical2hw Dev (ceiling_of two_tasks (lres ?l)) = (Ok 0xF0 :: (unit, u8) outcome)"
    by (simp add: two_tasks_def idle_lock_def logical2hw_Ok hw_prio_def)
  from rtic_step.lock_mask [of "\<lparr>pmr = 0xF8, stack = [?h]\<rparr>" ?h "[]" ?l "[]", OF _ _ _ _ this]
  have "rtic_step Dev two_tasks \<lparr>pmr = 0xF8, stack = [?h]\<rparr> \<lparr>pmr = 0xF0, stack = [idle_locked]\<rparr>"
    by (simp add: idle_lock_def idle_locked_def)
  then show ?thesis by (rule rtic_reach.step [OF 1])
qed

lemma task2_reached: "rtic_reach Dev two_tasks \<lparr>pmr = 0xF0, stack = [task2_acked, idle_locked]\<rparr>"
proof -
  have "rtic_step Dev two_tasks \<lparr>pmr = 0xF0, stack = [idle_locked]\<rparr> \<lparr>pmr = 0xF0, stack = [task2_acked, idle_locked]\<rparr>"
    using rtic_step.preempt [of "\<lparr>pmr = 0xF0, stack = [idle_locked]\<rparr>" idle_locked "[]" 2 two_tasks Dev]
    by (simp add: irqs_on_def gic_signals_def idle_locked_def two_tasks_def task2_acked_def hw_prio_def)
  then show ?thesis by (rule rtic_reach.step [OF idle_locked_reached])
qed

theorem rtic_mutual_exclusion_witness:
  "accesses two_tasks idle_locked 0 \<and> \<not> accesses two_tasks task2_acked 0"
proof -
  have "accesses two_tasks idle_locked 0"
    by (simp add: accesses_def idle_locked_def idle_lock_def two_tasks_def)
  then show ?thesis
    using rtic_mutual_exclusion [OF two_tasks_analysed task2_reached, of 0 1 0] by simp
qed

theorem rtic_ceiling_scheduling_witness:
  "\<not> gic_signals two_tasks \<lparr>pmr = 0xF0, stack = [idle_locked]\<rparr> 1 \<and>
     gic_signals two_tasks \<lparr>pmr = 0xF0, stack = [idle_locked]\<rparr> 2"
  using rtic_ceiling_scheduling [OF two_tasks_analysed idle_locked_reached, of idle_locked "[]"]
  by (simp add: level_def idle_locked_def idle_lock_def two_tasks_def)

end
