(* ===== verification/Rtic.thy ===== *)
theory Rtic
  imports RticLock Gic
begin

text \<open>
  \<^verbatim>\<open>firmware/cortex-a-rtic\<close>: the run-time part of the scheduler (\<^verbatim>\<open>src/export.rs\<close>). The registers of the
  interrupt controller are accessed as the generated crate does it (theory Gic). \<^verbatim>\<open>lock\<close> and \<^verbatim>\<open>run\<close> are here the sequence
  of their accesses; theory RticLock has the preemptions between them.
\<close>

section \<open>The interrupt controller\<close>

definition set_priority_mask :: "profile \<Rightarrow> u8 \<Rightarrow> ('e, unit) io" where
  "set_priority_mask p logical =
     abind (alift (logical2hw p logical)) (\<lambda>v. gic_write gicc ''PMR'' 0 (ucast v))"

definition set_priority :: "profile \<Rightarrow> u16 \<Rightarrow> u8 \<Rightarrow> ('e, unit) io" where
  "set_priority p irq logical =
     abind (alift (odebug_assert p (IDLE_PRIORITY < logical))) (\<lambda>_.
     abind (alift (logical2hw p logical)) (\<lambda>v.
     gic_write gicd ''IPRIORITYR'' (unat (ucast irq :: u8)) (ucast v)))"

definition enable_spi :: "profile \<Rightarrow> u16 \<Rightarrow> ('e, unit) io" where
  "enable_spi p spi =
     abind (alift (odebug_assert p (32 \<le> spi))) (\<lambda>_.
     gic_write gicd ''ISENABLER'' (unat (ucast (drop_bit 5 spi) :: u8)) (push_bit (unat spi mod 32) 1))"

definition pend_sgi :: "u8 \<Rightarrow> ('e, unit) io" where
  "pend_sgi sgi = gic_write gicd ''SGIR'' 0 (push_bit 24 2 OR (ucast sgi AND 15))"

text \<open>Both singletons are taken; \<open>taken\<close> says which already were.\<close>

definition enable_gic :: "bool \<times> bool \<Rightarrow> ('e, unit) io" where
  "enable_gic taken =
     abind (alift (oassert (fst (take_singleton (fst taken))))) (\<lambda>_.
     abind (alift (oassert (fst (take_singleton (snd taken))))) (\<lambda>_.
     abind (gic_write gicc ''CTLR'' 0 1) (\<lambda>_.
     gic_write gicd ''CTLR'' 0 1)))"

text \<open>\<^verbatim>\<open>run\<close>: the body of an interrupt handler of logical priority \<open>priority\<close>.\<close>

definition run_handler :: "hw \<Rightarrow> profile \<Rightarrow> u8 \<Rightarrow> ('e, unit) io \<Rightarrow> ('e, unit) io" where
  "run_handler hw p priority f =
     (if priority = 1 then
        abind f (\<lambda>_. set_priority_mask p IDLE_PRIORITY)
      else
        abind (gic_read hw gicc ''PMR'' 0) (\<lambda>initial.
        abind f (\<lambda>_. gic_write gicc ''PMR'' 0 initial)))"

text \<open>\<^verbatim>\<open>lock\<close>: the cell with the current priority is part of the state, next to the registers.\<close>

definition rtic_lock ::
  "profile \<Rightarrow> u8 \<Rightarrow> (u8 \<times> trace, 'e, 'a) act \<Rightarrow> (u8 \<times> trace, 'e, 'a) act" where
  "rtic_lock p ceiling f = (\<lambda>(current, tr).
     if current < ceiling then
       (case set_priority_mask p ceiling tr of
          (Ok _, tr1) \<Rightarrow>
            (case f (ceiling, tr1) of
               (Ok r, (c, tr2)) \<Rightarrow>
                 (case set_priority_mask p current tr2 of
                    (Ok _, tr3) \<Rightarrow> (Ok r, (current, tr3))
                  | (Panic, tr3) \<Rightarrow> (Panic, (c, tr3))
                  | (_, tr3) \<Rightarrow> (Hang, (c, tr3)))
             | x \<Rightarrow> x)
        | (_, tr1) \<Rightarrow> (Panic, (ceiling, tr1)))
     else f (current, tr))"


section \<open>Setting up an interrupt\<close>

text \<open>What \<^verbatim>\<open>pre_init\<close> does for a hardware task.\<close>

definition setup_spi :: "profile \<Rightarrow> u16 \<Rightarrow> u8 \<Rightarrow> ('e, unit) io" where
  "setup_spi p irq logical = abind (set_priority p irq logical) (\<lambda>_. enable_spi p irq)"

lemma gicd_singleton_base: "gen_singletons (pname gicd) (pinstances gicd) =
    [\<lparr>sname = ''GICD'', smarker = None, sbase = unsuffixed_hex 0xA01000 False\<rparr>]"
  by (simp add: gicd_def gen_singletons_def GIC_BASE_def)

lemma gicd_indexed:
  "(gic_at gicd ''IPRIORITYR'' idx :: ('e, u32) outcome) = (if idx < 128 then Ok (0xA01400 + of_nat idx) else Panic)"
  "(gic_at gicd ''ISENABLER'' idx :: ('e, u32) outcome) = (if idx < 4 then Ok (0xA01100 + of_nat (idx * 4)) else Panic)"
  by (auto simp: gic_at_def gicd_def plain_reg_def INTERRUPTS_def gen_peripheral_def gen_register_def gen_singletons_def
      GIC_BASE_def method_access_def index_check_def method_address_def reg_index_def oassert_def
      take_bit_nat_eq_self)

definition spi_writes :: "u16 \<times> u8 \<Rightarrow> event list" where
  "spi_writes = (\<lambda>(irq, logical). [Wr (Reg (0xA01100 + of_nat (unat irq div 32 * 4))) (push_bit (unat irq mod 32) 1),
     Wr (Reg (0xA01400 + of_nat (unat irq))) (ucast (hw_prio logical))])"

lemma setup_spi_writes:
  assumes "32 \<le> irq" "irq < 128" "1 \<le> logical" "logical \<le> MAX_PRIORITY"
  shows "(setup_spi p irq logical tr :: (unit, unit) outcome \<times> trace) = (Ok (), spi_writes (irq, logical) @ tr)"
proof -
  have irq: "32 \<le> unat irq" "unat irq < 128" using assms(1,2) by (simp_all add: word_le_nat_alt word_less_nat_alt)
  then have byte: "unat (ucast irq :: u8) = unat irq"
    by (simp add: unsigned_ucast_eq take_bit_nat_eq_self)
  have "unat (drop_bit 5 irq) = unat irq div 32" by (simp add: drop_bit_eq_div unat_div_distrib)
  moreover have "unat irq div 32 < 256" using irq(2) by simp
  ultimately have row: "unat (ucast (drop_bit 5 irq) :: u8) = unat irq div 32"
    by (simp add: unsigned_ucast_eq take_bit_nat_eq_self)
  have l: "logical \<le> 31" "0 < logical"
    using assms(3,4) by (simp_all add: MAX_PRIORITY_31 word_le_nat_alt word_less_nat_alt)
  have "unat irq div 32 < 4" using irq by linarith
  then show ?thesis
    using irq l assms(1)
    by (simp add: setup_spi_def set_priority_def enable_spi_def gic_write_def gicd_indexed byte row logical2hw_Ok
        odebug_assert_def IDLE_PRIORITY_def abind_def wr_def spi_writes_def)
qed

text \<open>
  Setting up a shared peripheral interrupt: its priority byte and its enable bit are written, with the
  logical priority reversed, for the interrupts 32 to 127. For 128 to 159, which the chip has as
  well, the generated access is out of range and \<^verbatim>\<open>pre_init\<close> panics: \<^verbatim>\<open>gic.rs\<close> counts the 128 shared interrupts
  but not the 32 interrupts before them.
\<close>

lemma setup_spi_range:
  assumes "32 \<le> irq" "irq < 160" "1 \<le> logical" "logical \<le> MAX_PRIORITY"
  shows "(setup_spi p irq logical tr :: (unit, unit) outcome \<times> trace) =
    (if irq < 128
     then (Ok (), Wr (Reg (0xA01100 + of_nat (unat irq div 32 * 4))) (push_bit (unat irq mod 32) 1) #
                  Wr (Reg (0xA01400 + of_nat (unat irq))) (ucast (hw_prio logical)) # tr)
     else (Panic, tr))"
proof (cases "irq < 128")
  case True
  then show ?thesis using setup_spi_writes [OF assms(1) True assms(3,4)] by (simp add: spi_writes_def)
next
  case False
  then have irq: "128 \<le> unat irq" "unat irq < 160" using assms(2) by (simp_all add: word_le_nat_alt word_less_nat_alt)
  then have "unat (ucast irq :: u8) = unat irq" by (simp add: unsigned_ucast_eq take_bit_nat_eq_self)
  moreover have "logical \<le> 31" "0 < logical"
    using assms(3,4) by (simp_all add: MAX_PRIORITY_31 word_le_nat_alt word_less_nat_alt)
  ultimately show ?thesis
    using irq False by (simp add: setup_spi_def set_priority_def gic_write_def gicd_indexed logical2hw_Ok
        odebug_assert_def IDLE_PRIORITY_def abind_def)
qed

lemma setup_spi_range_witness:
  "setup_spi Dev 75 1 [] = ((Ok () :: (unit, unit) outcome), [Wr (Reg 0xA01108) 0x800, Wr (Reg 0xA0144B) 0xF0]) \<and>
   setup_spi Dev 150 1 [] = ((Panic :: (unit, unit) outcome), [])"
  using setup_spi_range [of 75 1 Dev "[]"] setup_spi_range [of 150 1 Dev "[]"]
  by (simp add: MAX_PRIORITY_31 hw_prio_def)


section \<open>Software generated interrupts\<close>

text \<open>
  The dispatcher of level \<open>l\<close> is the handler of SGI \<open>l - 1\<close>. The macro refuses an application with more
  than 16 different priorities of software tasks.
\<close>

definition sgi2prio :: "u8 \<Rightarrow> u8" where "sgi2prio sgi = sgi + 1"
definition prio2sgi :: "u8 \<Rightarrow> u8" where "prio2sgi logical = logical - 1"

definition NSGIS :: nat where "NSGIS = 16"

definition check_app :: "u8 list \<Rightarrow> bool" where
  "check_app priorities \<longleftrightarrow> length (remdups priorities) \<le> NSGIS"

text \<open>The generated \<^verbatim>\<open>main\<close> before \<^verbatim>\<open>init\<close>: priorities of the software tasks, interrupts and priorities of the hardware tasks.\<close>

definition pre_init :: "profile \<Rightarrow> u8 list \<Rightarrow> (u16 \<times> u8) list \<Rightarrow> (unit, unit) io" where
  "pre_init p sw hw_tasks =
     abind (enable_gic (False, False)) (\<lambda>_.
     abind (set_priority_mask p IDLE_PRIORITY) (\<lambda>_.
     abind (afor (map of_nat [0..<length (remdups sw)]) (\<lambda>sgi. set_priority p (ucast sgi) (sgi2prio sgi))) (\<lambda>_.
     afor hw_tasks (\<lambda>(irq, logical). setup_spi p irq logical))))"

lemma afor_writes:
  assumes "\<And>x tr. x \<in> set xs \<Longrightarrow> f x tr = (Ok (), g x @ tr)"
  shows "afor xs f tr = (Ok (), concat (rev (map g xs)) @ tr)"
  using assms by (induction xs arbitrary: tr) simp_all

lemma gic_single:
  "(gic_at gicc ''CTLR'' 0 :: ('e, u32) outcome) = Ok 0xA02000"
  "(gic_at gicc ''PMR'' 0 :: ('e, u32) outcome) = Ok 0xA02004"
  "(gic_at gicd ''CTLR'' 0 :: ('e, u32) outcome) = Ok 0xA01000"
  by (simp_all add: gic_at_def gicd_def gicc_def plain_reg_def INTERRUPTS_def gen_peripheral_def gen_register_def
      gen_singletons_def GIC_BASE_def method_access_def index_check_def method_address_def reg_index_def)

definition sgi_write :: "u8 \<Rightarrow> event" where
  "sgi_write sgi = Wr (Reg (0xA01400 + ucast sgi)) (ucast (hw_prio (sgi + 1)))"

lemma set_priority_sgi:
  assumes "sgi < 16"
  shows "(set_priority p (ucast sgi) (sgi2prio sgi) tr :: (unit, unit) outcome \<times> trace) = (Ok (), [sgi_write sgi] @ tr)"
proof -
  have n: "unat sgi < 16" using assms by (simp add: word_less_nat_alt)
  then have s: "unat (sgi + 1) = unat sgi + 1" by (simp add: unat_add_small)
  have "sgi + 1 \<le> 31" "0 < sgi + 1" using n s by (simp_all add: word_le_nat_alt word_less_nat_alt)
  moreover have "(of_nat (unat sgi) :: u32) = ucast sgi" by simp
  moreover have "(ucast (ucast sgi :: u16) :: u8) = sgi" by (rule bit_word_eqI) (simp add: bit_simps)
  ultimately show ?thesis
    using n by (simp add: set_priority_def gic_write_def gicd_indexed sgi2prio_def logical2hw_Ok odebug_assert_def
        IDLE_PRIORITY_def abind_def wr_def sgi_write_def)
qed


lemma pre_init_writes:
  assumes "check_app sw"
    and hw: "\<forall>(irq, l) \<in> set hw_tasks. 32 \<le> irq \<and> irq < 128 \<and> 1 \<le> l \<and> l \<le> MAX_PRIORITY"
  shows "pre_init p sw hw_tasks tr = (Ok (), concat (rev (map spi_writes hw_tasks)) @
    concat (rev (map (\<lambda>sgi. [sgi_write sgi]) (map of_nat [0..<length (remdups sw)]))) @
    [Wr (Reg 0xA02004) 0xF8, Wr (Reg 0xA01000) 1, Wr (Reg 0xA02000) 1] @ tr)"
proof -
  let ?n = "length (remdups sw)"
  have n: "?n \<le> 16" using assms(1) by (simp add: check_app_def NSGIS_def)
  have sgi: "(set_priority p (ucast sgi) (sgi2prio sgi) t :: (unit, unit) outcome \<times> trace) = (Ok (), [sgi_write sgi] @ t)"
    if "sgi \<in> set (map of_nat [0..<?n])" for sgi t
  proof (rule set_priority_sgi)
    from that obtain i where "sgi = of_nat i" "i < 16" using n by auto
    then show "sgi < 16" by (simp add: word_less_nat_alt unat_of_nat_small)
  qed
  have spi: "((\<lambda>(irq, logical). setup_spi p irq logical) e t :: (unit, unit) outcome \<times> trace) = (Ok (), spi_writes e @ t)"
    if "e \<in> set hw_tasks" for e t
  proof -
    obtain irq l where e: "e = (irq, l)" by (cases e)
    then have "32 \<le> irq" "irq < 128" "1 \<le> l" "l \<le> MAX_PRIORITY" using that hw by auto
    then show ?thesis unfolding e by (simp only: prod.case setup_spi_writes)
  qed
  have mask: "logical2hw p IDLE_PRIORITY = (Ok 0xF8 :: (unit, u8) outcome)"
    by (simp add: IDLE_PRIORITY_def logical2hw_Ok hw_prio_def)
  have A: "(enable_gic (False, False) t :: (unit, unit) outcome \<times> trace) = (Ok (), [Wr (Reg 0xA01000) 1, Wr (Reg 0xA02000) 1] @ t)" for t
    by (simp add: enable_gic_def take_singleton_def gic_write_def gic_single wr_def abind_def)
  have B: "(set_priority_mask p IDLE_PRIORITY t :: (unit, unit) outcome \<times> trace) = (Ok (), [Wr (Reg 0xA02004) 0xF8] @ t)" for t
    by (simp add: set_priority_mask_def mask gic_write_def gic_single wr_def)
  have C: "(afor (map of_nat [0..<?n]) (\<lambda>sgi. set_priority p (ucast sgi) (sgi2prio sgi)) t :: (unit, unit) outcome \<times> trace) =
      (Ok (), concat (rev (map (\<lambda>sgi. [sgi_write sgi]) (map of_nat [0..<?n]))) @ t)" for t
    by (rule afor_writes) (rule sgi)
  have D: "(afor hw_tasks (\<lambda>(irq, logical). setup_spi p irq logical) t :: (unit, unit) outcome \<times> trace) =
      (Ok (), concat (rev (map spi_writes hw_tasks)) @ t)" for t
    by (rule afor_writes) (rule spi)
  show ?thesis
    unfolding pre_init_def abind_Ok [of "enable_gic (False, False)", OF A] abind_Ok [of "set_priority_mask p IDLE_PRIORITY", OF B]
      abind_Ok [OF C] D by simp
qed

text \<open>The priority registers of the SGIs are written once each, and only for the first SGIs.\<close>

lemma sgi_written_iff:
  assumes "pre_init p sw hw_tasks [] = (Ok (), tr)" "check_app sw"
    and hw: "\<forall>(irq, l) \<in> set hw_tasks. 32 \<le> irq \<and> irq < 128 \<and> 1 \<le> l \<and> l \<le> MAX_PRIORITY"
    and "unat sgi < 32"
  shows "sgi_write sgi \<in> set tr \<longleftrightarrow> unat sgi < length (remdups sw)"
proof -
  let ?n = "length (remdups sw)"
  have n: "?n \<le> 16" using assms(2) by (simp add: check_app_def NSGIS_def)
  have addr: "unat (0xA01400 + ucast sgi :: u32) = 0xA01400 + unat sgi"
    using assms(4) by (simp add: unat_add_small)
  have spi: "sgi_write sgi \<notin> set (spi_writes (irq, l))" if "(irq, l) \<in> set hw_tasks" for irq l
  proof -
    have irq: "32 \<le> unat irq" "unat irq < 128"
      using that hw by (auto simp: word_le_nat_alt word_less_nat_alt)
    then have small: "unat irq div 32 * 4 < 16" by linarith
    have off: "unat (a + of_nat n :: u32) = unat a + n" if "unat a < 0xB00000" "n < 0x1000" for a n
      using that by (simp add: unat_add_small unat_of_nat_small)
    have "unat (0xA01100 + of_nat (unat irq div 32 * 4) :: u32) = 0xA01100 + unat irq div 32 * 4"
      using off [of "0xA01100" "unat irq div 32 * 4"] small by simp
    moreover have "unat (0xA01400 + of_nat (unat irq) :: u32) = 0xA01400 + unat irq"
      using off [of "0xA01400" "unat irq"] irq by simp
    ultimately show ?thesis
      using addr irq assms(4) small
      by (simp add: spi_writes_def sgi_write_def word_unat_eq_iff del: of_nat_mult)
  qed
  have inj: "sgi_write sgi = sgi_write k \<longleftrightarrow> sgi = k" if "unat k < 32" for k
  proof -
    have "unat (0xA01400 + ucast k :: u32) = 0xA01400 + unat k" using that by (simp add: unat_add_small)
    then have "(0xA01400 + ucast sgi :: u32) = 0xA01400 + ucast k \<Longrightarrow> unat sgi = unat k"
      using addr by (metis add_left_cancel)
    then have "sgi_write sgi = sgi_write k \<Longrightarrow> unat sgi = unat k" by (simp add: sgi_write_def)
    then show ?thesis by (metis word_unat_eq_iff)
  qed
  have fixed: "sgi_write sgi \<notin> set [Wr (Reg 0xA02004) 0xF8, Wr (Reg 0xA01000) 1, Wr (Reg 0xA02000) 1]"
    using addr assms(4) by (auto simp: sgi_write_def word_unat_eq_iff)
  have "sgi_write sgi \<in> set tr \<longleftrightarrow> (\<exists>i < ?n. sgi_write sgi = sgi_write (of_nat i))"
  proof -
    have "tr = concat (rev (map spi_writes hw_tasks)) @
        concat (rev (map (\<lambda>sgi. [sgi_write sgi]) (map of_nat [0..<?n]))) @
        [Wr (Reg 0xA02004) 0xF8, Wr (Reg 0xA01000) 1, Wr (Reg 0xA02000) 1]"
      using assms(1) pre_init_writes [OF assms(2) hw, of p "[]"] by simp
    then have "set tr = (\<Union>e \<in> set hw_tasks. set (spi_writes e)) \<union> (\<lambda>i. sgi_write (of_nat i)) ` {0..<?n} \<union>
        set [Wr (Reg 0xA02004) 0xF8, Wr (Reg 0xA01000) 1, Wr (Reg 0xA02000) 1]"
      by (auto simp del: map_map)
    moreover have "sgi_write sgi \<notin> (\<Union>e \<in> set hw_tasks. set (spi_writes e))" using spi by fastforce
    ultimately have "sgi_write sgi \<in> set tr \<longleftrightarrow> sgi_write sgi \<in> (\<lambda>i. sgi_write (of_nat i)) ` {0..<?n}"
      using fixed by simp
    then show ?thesis by auto
  qed
  also have "\<dots> \<longleftrightarrow> (\<exists>i < ?n. sgi = of_nat i)"
  proof -
    have "sgi_write sgi = sgi_write (of_nat i) \<longleftrightarrow> sgi = of_nat i" if "i < ?n" for i
      by (rule inj) (use that n in \<open>simp add: unat_of_nat_small\<close>)
    then show ?thesis by blast
  qed
  also have "\<dots> \<longleftrightarrow> unat sgi < ?n"
    using n by (auto simp: unat_of_nat_small intro!: exI [of _ "unat sgi"])
  finally show ?thesis .
qed


text \<open>
  C40. \<^verbatim>\<open>pre_init\<close> sets the priority of as many SGIs as there are different priorities of software tasks, starting
  at SGI 0, but the dispatcher of level \<open>l\<close> is SGI \<open>l - 1\<close>: every dispatcher gets the priority of its level
  exactly if the software tasks have the priorities 1, 2, and so on without a gap.
\<close>

theorem dispatcher_priorities_set:
  assumes "set sw \<noteq> {}" "\<forall>l \<in> set sw. 1 \<le> l \<and> l \<le> MAX_PRIORITY" "check_app sw"
    and "\<forall>(irq, l) \<in> set hw_tasks. 32 \<le> irq \<and> irq < 128 \<and> 1 \<le> l \<and> l \<le> MAX_PRIORITY"
  shows "\<exists>tr. pre_init p sw hw_tasks [] = (Ok (), tr) \<and>
    ((\<forall>l \<in> set sw. sgi_write (prio2sgi l) \<in> set tr) \<longleftrightarrow> unat ` set sw = {1..card (set sw)})"
proof -
  obtain tr where tr: "pre_init p sw hw_tasks [] = (Ok (), tr)"
    using pre_init_writes [OF assms(3,4), of p "[]"] by blast
  have n: "length (remdups sw) = card (set sw)" by (simp add: length_remdups_card_conv)
  have level: "1 \<le> unat l" "unat (prio2sgi l) = unat l - 1" "unat l \<le> 31" if "l \<in> set sw" for l
    using that assms(2) by (auto simp: MAX_PRIORITY_31 word_le_nat_alt prio2sgi_def unat_sub)
  have "(\<forall>l \<in> set sw. sgi_write (prio2sgi l) \<in> set tr) \<longleftrightarrow> (\<forall>l \<in> set sw. unat l \<le> card (set sw))"
    using sgi_written_iff [OF tr assms(3,4)] level n by (force simp: Suc_le_eq)
  also have "\<dots> \<longleftrightarrow> unat ` set sw = {1..card (set sw)}"
  proof
    assume "\<forall>l \<in> set sw. unat l \<le> card (set sw)"
    then have "unat ` set sw \<subseteq> {1..card (set sw)}" using level by auto
    moreover have "card (unat ` set sw) = card {1..card (set sw)}"
      by (subst card_image) (simp_all add: inj_on_def word_unat_eq_iff)
    ultimately show "unat ` set sw = {1..card (set sw)}" by (intro card_subset_eq) simp_all
  qed (metis atLeastAtMost_iff imageI)
  finally show ?thesis using tr by blast
qed

theorem dispatcher_priorities_set_witness:
  "\<exists>tr. pre_init Dev [2] [(75, 1)] [] = (Ok (), tr) \<and> sgi_write 1 \<notin> set tr"
  using dispatcher_priorities_set [of "[2]" "[(75, 1)]" Dev]
  by (simp add: check_app_def NSGIS_def MAX_PRIORITY_31 prio2sgi_def)

end
