(* ===== verification/RticQueue.thy ===== *)
theory RticQueue
  imports Main "HOL-Library.Multiset"
begin

text \<open>
  Software tasks of \<^verbatim>\<open>firmware/cortex-a-rtic\<close>: the code that \<^verbatim>\<open>macros/src/codegen/spawn_body.rs\<close>,
  \<^verbatim>\<open>dispatchers.rs\<close>, \<^verbatim>\<open>software_tasks.rs\<close> and \<^verbatim>\<open>pre_init.rs\<close> generate. Each operation on a queue is one step,
  as the two ends of a queue are lock-free and calls on the same end are in a critical section (theory
  RticLock); the steps of all contexts interleave in any order.
\<close>

section \<open>State\<close>

text \<open>
  A call of \<^verbatim>\<open>spawn\<close> that has got a free slot (\<open>Got\<close>), has written its input there (\<open>Written\<close>), has put the
  slot in the ready queue (\<open>Queued\<close>).
\<close>

datatype spawn_stage = Got | Written | Queued

record 'm spawner =
  sp_task :: nat
  sp_slot :: nat
  sp_msg :: 'm
  sp_stage :: spawn_stage

text \<open>
  The dispatcher of a level: not active, before the next \<^verbatim>\<open>dequeue\<close>, with a slot whose input it has not
  read, with the input, and while the task runs.
\<close>

datatype 'm dispatcher = Asleep | Looping | Holding nat nat | Reading nat nat 'm | Calling nat 'm

text \<open>
  The free queue and the input buffer of each task, the ready queue of each level, the pending
  interrupts. The last two fields are not in the code: what was enqueued and what was delivered.
\<close>

record 'm sched =
  fq :: "nat \<Rightarrow> nat list"
  inputs :: "nat \<Rightarrow> nat \<Rightarrow> 'm option"
  rq :: "nat \<Rightarrow> (nat \<times> nat) list"
  sgi_pending :: "nat \<Rightarrow> bool"
  spawning :: "'m spawner list"
  disp :: "nat \<Rightarrow> 'm dispatcher"
  enqueued :: "nat \<Rightarrow> (nat \<times> 'm) list"
  delivered :: "nat \<Rightarrow> (nat \<times> 'm) list"

text \<open>The capacity and the priority of each task.\<close>

record tasks =
  capacity :: "nat \<Rightarrow> nat"
  lv :: "nat \<Rightarrow> nat"

text \<open>\<^verbatim>\<open>pre_init\<close> fills the free queues.\<close>

definition sched_start :: "tasks \<Rightarrow> 'm sched" where
  "sched_start T = \<lparr>fq = (\<lambda>t. [0..<capacity T t]), inputs = (\<lambda>_ _. None), rq = (\<lambda>_. []), sgi_pending = (\<lambda>_. False),
     spawning = [], disp = (\<lambda>_. Asleep), enqueued = (\<lambda>_. []), delivered = (\<lambda>_. [])\<rparr>"

section \<open>Steps\<close>

text \<open>\<^verbatim>\<open>spawn\<close> of a task: it fails, with the input as its result, when no slot is free.\<close>

definition spawn_start :: "nat \<Rightarrow> 'm \<Rightarrow> 'm sched \<Rightarrow> 'm sched option" where
  "spawn_start t m s =
     (case fq s t of
        [] \<Rightarrow> None
      | i # is' \<Rightarrow> Some (s\<lparr>fq := (fq s)(t := is'),
          spawning := \<lparr>sp_task = t, sp_slot = i, sp_msg = m, sp_stage = Got\<rparr> # spawning s\<rparr>))"

definition spawn_write :: "'m spawner \<Rightarrow> 'm sched \<Rightarrow> 'm sched" where
  "spawn_write p s = s\<lparr>inputs := (inputs s)(sp_task p := (inputs s (sp_task p))(sp_slot p := Some (sp_msg p)))\<rparr>"

definition spawn_enqueue :: "tasks \<Rightarrow> 'm spawner \<Rightarrow> 'm sched \<Rightarrow> 'm sched" where
  "spawn_enqueue T p s =
     (let l = lv T (sp_task p) in
      s\<lparr>rq := (rq s)(l := rq s l @ [(sp_task p, sp_slot p)]),
        enqueued := (enqueued s)(l := enqueued s l @ [(sp_task p, sp_msg p)])\<rparr>)"

definition spawn_pend :: "tasks \<Rightarrow> 'm spawner \<Rightarrow> 'm sched \<Rightarrow> 'm sched" where
  "spawn_pend T p s = s\<lparr>sgi_pending := (sgi_pending s)(lv T (sp_task p) := True)\<rparr>"

definition set_disp :: "nat \<Rightarrow> 'm dispatcher \<Rightarrow> 'm sched \<Rightarrow> 'm sched" where
  "set_disp l d s = s\<lparr>disp := (disp s)(l := d)\<rparr>"

text \<open>The dispatcher: \<^verbatim>\<open>while let Some((task, index)) = rq.dequeue()\<close>.\<close>

definition disp_dequeue :: "nat \<Rightarrow> 'm sched \<Rightarrow> 'm sched" where
  "disp_dequeue l s =
     (case rq s l of
        [] \<Rightarrow> set_disp l Asleep s
      | (t, i) # r \<Rightarrow> set_disp l (Holding t i) (s\<lparr>rq := (rq s)(l := r)\<rparr>))"

definition disp_free :: "nat \<Rightarrow> nat \<Rightarrow> 'm sched \<Rightarrow> 'm sched" where
  "disp_free t i s = s\<lparr>fq := (fq s)(t := fq s t @ [i])\<rparr>"

definition note_delivered :: "nat \<Rightarrow> nat \<Rightarrow> 'm \<Rightarrow> 'm sched \<Rightarrow> 'm sched" where
  "note_delivered l t m s = s\<lparr>delivered := (delivered s)(l := delivered s l @ [(t, m)])\<rparr>"

inductive sched_step :: "tasks \<Rightarrow> 'm sched \<Rightarrow> 'm sched \<Rightarrow> bool" for T where
  spawn: "spawn_start t m s = Some s' \<Longrightarrow> sched_step T s s'"
| swrite: "spawning s = ps @ p # qs \<Longrightarrow> sp_stage p = Got \<Longrightarrow>
    sched_step T s (spawn_write p s\<lparr>spawning := ps @ p\<lparr>sp_stage := Written\<rparr> # qs\<rparr>)"
| enqueue: "spawning s = ps @ p # qs \<Longrightarrow> sp_stage p = Written \<Longrightarrow>
    sched_step T s (spawn_enqueue T p s\<lparr>spawning := ps @ p\<lparr>sp_stage := Queued\<rparr> # qs\<rparr>)"
| pend: "spawning s = ps @ p # qs \<Longrightarrow> sp_stage p = Queued \<Longrightarrow>
    sched_step T s (spawn_pend T p s\<lparr>spawning := ps @ qs\<rparr>)"
| interrupt: "sgi_pending s l \<Longrightarrow> disp s l = Asleep \<Longrightarrow>
    sched_step T s (set_disp l Looping (s\<lparr>sgi_pending := (sgi_pending s)(l := False)\<rparr>))"
| dequeue: "disp s l = Looping \<Longrightarrow> sched_step T s (disp_dequeue l s)"
| sread: "disp s l = Holding t i \<Longrightarrow> inputs s t i = Some m \<Longrightarrow> sched_step T s (set_disp l (Reading t i m) s)"
| free: "disp s l = Reading t i m \<Longrightarrow>
    sched_step T s (set_disp l (Calling t m) (note_delivered l t m (disp_free t i s)))"
| done_task: "disp s l = Calling t m \<Longrightarrow> sched_step T s (set_disp l Looping s)"

inductive sched_reach :: "tasks \<Rightarrow> 'm sched \<Rightarrow> bool" for T where
  start: "sched_reach T (sched_start T)"
| step: "sched_reach T s \<Longrightarrow> sched_step T s s' \<Longrightarrow> sched_reach T s'"


section \<open>The invariant\<close>

fun disp_slots :: "nat \<Rightarrow> 'm dispatcher \<Rightarrow> nat list" where
  "disp_slots t (Holding t' i) = (if t' = t then [i] else [])"
| "disp_slots t (Reading t' i m) = (if t' = t then [i] else [])"
| "disp_slots t _ = []"

fun in_hand :: "'m sched \<Rightarrow> 'm dispatcher \<Rightarrow> (nat \<times> 'm option) list" where
  "in_hand s (Holding t i) = [(t, inputs s t i)]"
| "in_hand s (Reading t i m) = [(t, Some m)]"
| "in_hand s _ = []"

text \<open>Where the slots of a task are: free, with a \<^verbatim>\<open>spawn\<close>, in the ready queue, with the dispatcher.\<close>

definition spawn_slots :: "nat \<Rightarrow> 'm spawner list \<Rightarrow> nat list" where
  "spawn_slots t ps = map sp_slot (filter (\<lambda>p. sp_task p = t \<and> sp_stage p \<noteq> Queued) ps)"

definition ready_slots :: "nat \<Rightarrow> (nat \<times> nat) list \<Rightarrow> nat list" where
  "ready_slots t q = map snd (filter (\<lambda>e. fst e = t) q)"

definition slots_of :: "tasks \<Rightarrow> 'm sched \<Rightarrow> nat \<Rightarrow> nat list" where
  "slots_of T s t =
     fq s t @ spawn_slots t (spawning s) @ ready_slots t (rq s (lv T t)) @ disp_slots t (disp s (lv T t))"

definition some_msgs :: "(nat \<times> 'm) list \<Rightarrow> (nat \<times> 'm option) list" where
  "some_msgs = map (\<lambda>(t, m). (t, Some m))"

definition ready_msgs :: "'m sched \<Rightarrow> (nat \<times> nat) list \<Rightarrow> (nat \<times> 'm option) list" where
  "ready_msgs s = map (\<lambda>(t, i). (t, inputs s t i))"

definition of_level :: "tasks \<Rightarrow> 'm sched \<Rightarrow> nat \<Rightarrow> bool" where
  "of_level T s l \<longleftrightarrow> (\<forall>e \<in> set (rq s l). lv T (fst e) = l) \<and>
     (case disp s l of Holding t i \<Rightarrow> lv T t = l | Reading t i m \<Rightarrow> lv T t = l | _ \<Rightarrow> True)"

definition awake :: "tasks \<Rightarrow> 'm sched \<Rightarrow> nat \<Rightarrow> bool" where
  "awake T s l \<longleftrightarrow> rq s l = [] \<or> sgi_pending s l \<or> disp s l \<noteq> Asleep \<or>
     (\<exists>p \<in> set (spawning s). sp_stage p = Queued \<and> lv T (sp_task p) = l)"

definition sched_inv :: "tasks \<Rightarrow> 'm sched \<Rightarrow> bool" where
  "sched_inv T s \<longleftrightarrow>
     (\<forall>t. mset (slots_of T s t) = mset [0..<capacity T t]) \<and>
     (\<forall>l. of_level T s l) \<and> (\<forall>l. awake T s l) \<and>
     (\<forall>p \<in> set (spawning s). sp_stage p = Written \<longrightarrow> inputs s (sp_task p) (sp_slot p) = Some (sp_msg p)) \<and>
     (\<forall>l. some_msgs (enqueued s l) = some_msgs (delivered s l) @ in_hand s (disp s l) @ ready_msgs s (rq s l))"

lemma slots_distinct: "sched_inv T s \<Longrightarrow> distinct (slots_of T s t) \<and> set (slots_of T s t) = {0..<capacity T t}"
  unfolding sched_inv_def by (metis distinct_upt mset_eq_imp_distinct_iff mset_eq_setD set_upt)

lemmas sched_simps = slots_of_def spawn_slots_def ready_slots_def some_msgs_def ready_msgs_def of_level_def awake_def
  spawn_write_def spawn_enqueue_def spawn_pend_def set_disp_def disp_free_def note_delivered_def Let_def

lemma start_inv: "sched_inv T (sched_start T)"
  by (simp add: sched_inv_def sched_start_def sched_simps)

text \<open>The parts of the invariant.\<close>

lemma sched_invD:
  assumes "sched_inv T s"
  shows "mset (slots_of T s t) = mset [0..<capacity T t]" "of_level T s l" "awake T s l"
    "p \<in> set (spawning s) \<Longrightarrow> sp_stage p = Written \<Longrightarrow> inputs s (sp_task p) (sp_slot p) = Some (sp_msg p)"
    "some_msgs (enqueued s l) = some_msgs (delivered s l) @ in_hand s (disp s l) @ ready_msgs s (rq s l)"
  using assms by (auto simp: sched_inv_def)

lemma sched_invI:
  assumes "\<And>t. mset (slots_of T s t) = mset [0..<capacity T t]" "\<And>l. of_level T s l" "\<And>l. awake T s l"
    "\<And>p. p \<in> set (spawning s) \<Longrightarrow> sp_stage p = Written \<Longrightarrow> inputs s (sp_task p) (sp_slot p) = Some (sp_msg p)"
    "\<And>l. some_msgs (enqueued s l) = some_msgs (delivered s l) @ in_hand s (disp s l) @ ready_msgs s (rq s l)"
  shows "sched_inv T s"
  using assms by (auto simp: sched_inv_def)

text \<open>Only a slot's owner writes to it.\<close>

lemma write_elsewhere:
  assumes "sched_inv T s" "spawning s = ps @ p # qs" "sp_stage p = Got"
  shows "q \<in> set ps \<union> set qs \<Longrightarrow> sp_stage q = Written \<Longrightarrow> sp_task q = sp_task p \<Longrightarrow> sp_slot q \<noteq> sp_slot p"
    and "(sp_task p, i) \<in> set (rq s (lv T (sp_task p))) \<Longrightarrow> i \<noteq> sp_slot p"
    and "disp s (lv T (sp_task p)) = Holding (sp_task p) i \<Longrightarrow> i \<noteq> sp_slot p"
  using slots_distinct [OF assms(1), of "sp_task p"] assms(2,3)
  by (auto simp: slots_of_def spawn_slots_def ready_slots_def image_iff)

lemma rtic_swrite:
  assumes inv: "sched_inv T s" and p: "spawning s = ps @ p # qs" "sp_stage p = Got"
  shows "sched_inv T (spawn_write p s\<lparr>spawning := ps @ p\<lparr>sp_stage := Written\<rparr> # qs\<rparr>)" (is "sched_inv T ?s")
proof -
  note other = write_elsewhere [OF inv p]
  have level: "of_level T s l" for l using inv by (simp add: sched_inv_def)
  have slots: "slots_of T ?s t = slots_of T s t" for t
    using p by (simp add: sched_simps)
  have ready: "ready_msgs ?s (rq ?s l) = ready_msgs s (rq s l)" for l
  proof -
    have "\<forall>(t, i) \<in> set (rq s l). inputs ?s t i = inputs s t i"
      using other(2) [of "sp_slot p"] level [of l] by (fastforce simp: sched_simps)
    then show ?thesis by (auto simp: sched_simps)
  qed
  have hand: "in_hand ?s (disp ?s l) = in_hand s (disp s l)" for l
    using other(3) level [of l] by (cases "disp s l") (auto simp: sched_simps)
  note D = sched_invD [OF inv]
  show ?thesis
  proof (rule sched_invI)
    show "mset (slots_of T ?s t) = mset [0..<capacity T t]" for t using D(1) [of t] by (simp add: slots)
    show "of_level T ?s l" for l using D(2) [of l] by (simp add: of_level_def spawn_write_def)
    show "awake T ?s l" for l using D(3) [of l] p by (auto simp: awake_def spawn_write_def)
    show "inputs ?s (sp_task q) (sp_slot q) = Some (sp_msg q)" if "q \<in> set (spawning ?s)" "sp_stage q = Written" for q
      using that other(1) [of q] D(4) [of q] p by (auto simp: spawn_write_def)
    show "some_msgs (enqueued ?s l) = some_msgs (delivered ?s l) @ in_hand ?s (disp ?s l) @ ready_msgs ?s (rq ?s l)" for l
      unfolding ready hand using D(5) [of l] by (simp add: spawn_write_def)
  qed
qed

lemma in_hand_cong: "inputs s' = inputs s \<Longrightarrow> in_hand s' d = in_hand s d"
  by (cases d) simp_all

lemma rtic_spawn:
  assumes inv: "sched_inv T s" and "spawn_start t m s = Some s'"
  shows "sched_inv T s'"
proof -
  obtain i is' where i: "fq s t = i # is'" and s': "s' = s\<lparr>fq := (fq s)(t := is'),
      spawning := \<lparr>sp_task = t, sp_slot = i, sp_msg = m, sp_stage = Got\<rparr> # spawning s\<rparr>"
    using assms(2) by (auto simp: spawn_start_def split: list.splits)
  note D = sched_invD [OF inv]
  show ?thesis
  proof (rule sched_invI)
    show "mset (slots_of T s' t') = mset [0..<capacity T t']" for t'
      using D(1) [of t'] i by (cases "t' = t") (simp_all add: s' sched_simps)
    show "awake T s' l" for l using D(3) [of l] by (auto simp: s' sched_simps)
    have hand: "in_hand s' d = in_hand s d" for d by (rule in_hand_cong) (simp add: s')
    show "some_msgs (enqueued s' l) = some_msgs (delivered s' l) @ in_hand s' (disp s' l) @ ready_msgs s' (rq s' l)" for l
      unfolding hand using D(5) [of l] by (simp add: s' sched_simps)
  qed (use D in \<open>auto simp: s' sched_simps\<close>)
qed

lemma rtic_enqueue:
  assumes inv: "sched_inv T s" and p: "spawning s = ps @ p # qs" "sp_stage p = Written"
  shows "sched_inv T (spawn_enqueue T p s\<lparr>spawning := ps @ p\<lparr>sp_stage := Queued\<rparr> # qs\<rparr>)" (is "sched_inv T ?s")
proof -
  note D = sched_invD [OF inv]
  have hand: "in_hand ?s d = in_hand s d" for d by (rule in_hand_cong) (simp add: spawn_enqueue_def Let_def)
  have msg: "inputs s (sp_task p) (sp_slot p) = Some (sp_msg p)" using D(4) [of p] p by simp
  show ?thesis
  proof (rule sched_invI)
    show "mset (slots_of T ?s t) = mset [0..<capacity T t]" for t
      using D(1) [of t] p by (auto simp: sched_simps)
    show "of_level T ?s l" for l using D(2) [of l] by (auto simp: sched_simps)
    show "awake T ?s l" for l using D(3) [of l] p by (auto simp: sched_simps)
    show "some_msgs (enqueued ?s l) = some_msgs (delivered ?s l) @ in_hand ?s (disp ?s l) @ ready_msgs ?s (rq ?s l)" for l
      unfolding hand using D(5) [of l] msg by (auto simp: sched_simps)
    show "inputs ?s (sp_task q) (sp_slot q) = Some (sp_msg q)" if "q \<in> set (spawning ?s)" "sp_stage q = Written" for q
      using D(4) [of q] that p by (auto simp: sched_simps)
  qed
qed

lemma rtic_pend:
  assumes inv: "sched_inv T s" and p: "spawning s = ps @ p # qs" "sp_stage p = Queued"
  shows "sched_inv T (spawn_pend T p s\<lparr>spawning := ps @ qs\<rparr>)" (is "sched_inv T ?s")
proof -
  note D = sched_invD [OF inv]
  have hand: "in_hand ?s d = in_hand s d" for d by (rule in_hand_cong) (simp add: spawn_pend_def)
  show ?thesis
  proof (rule sched_invI)
    show "mset (slots_of T ?s t) = mset [0..<capacity T t]" for t
      using D(1) [of t] p by (auto simp: sched_simps)
    show "awake T ?s l" for l using D(3) [of l] p by (auto simp: sched_simps)
    show "some_msgs (enqueued ?s l) = some_msgs (delivered ?s l) @ in_hand ?s (disp ?s l) @ ready_msgs ?s (rq ?s l)" for l
      unfolding hand using D(5) [of l] by (simp add: sched_simps)
  qed (use D p in \<open>auto simp: sched_simps\<close>)
qed

lemma rtic_dispatch:
  assumes inv: "sched_inv T s" and step: "sched_step T s s'" and d: "spawning s' = spawning s" "inputs s' = inputs s"
    and slots: "\<And>t. mset (slots_of T s' t) = mset (slots_of T s t)"
    and rest: "\<And>l. of_level T s l \<Longrightarrow> of_level T s' l" "\<And>l. awake T s l \<Longrightarrow> awake T s' l"
    and order: "\<And>l. some_msgs (enqueued s' l) = some_msgs (enqueued s l)"
      "\<And>l. some_msgs (delivered s' l) @ in_hand s (disp s' l) @ ready_msgs s (rq s' l) =
        some_msgs (delivered s l) @ in_hand s (disp s l) @ ready_msgs s (rq s l)"
  shows "sched_inv T s'"
proof -
  note D = sched_invD [OF inv]
  have hand: "in_hand s' = in_hand s" using in_hand_cong [OF d(2)] by (simp add: fun_eq_iff)
  have ready: "ready_msgs s' = ready_msgs s" using d(2) by (simp add: ready_msgs_def fun_eq_iff)
  show ?thesis
    by (rule sched_invI) (use D d slots rest order in \<open>auto simp: hand ready\<close>)
qed

lemma sched_step_inv:
  assumes inv: "sched_inv T s" and step: "sched_step T s s'"
  shows "sched_inv T s'"
  using step
proof cases
  case (spawn t m)
  then show ?thesis using rtic_spawn [OF inv] by simp
next
  case (swrite ps p qs)
  then show ?thesis using rtic_swrite [OF inv] by simp
next
  case (enqueue ps p qs)
  then show ?thesis using rtic_enqueue [OF inv] by simp
next
  case (pend ps p qs)
  then show ?thesis using rtic_pend [OF inv] by simp
next
  case (interrupt l)
  show ?thesis
    by (rule rtic_dispatch [OF inv step]) (use interrupt in \<open>auto simp: sched_simps\<close>)
next
  case (dequeue l)
  show ?thesis
  proof (cases "rq s l")
    case Nil
    show ?thesis
      by (rule rtic_dispatch [OF inv step]) (use dequeue Nil in \<open>auto simp: sched_simps disp_dequeue_def\<close>)
  next
    case (Cons e r)
    have "lv T (fst e) = l" using sched_invD(2) [OF inv, of l] Cons by (simp add: of_level_def)
    then show ?thesis
      by (intro rtic_dispatch [OF inv step])
        (use dequeue Cons in \<open>auto simp: sched_simps disp_dequeue_def split: prod.splits\<close>)
  qed
next
  case (sread l t i m)
  show ?thesis
    by (rule rtic_dispatch [OF inv step]) (use sread in \<open>auto simp: sched_simps\<close>)
next
  case (free l t i m)
  have "lv T t = l" using sched_invD(2) [OF inv, of l] free by (simp add: of_level_def)
  then show ?thesis
    by (intro rtic_dispatch [OF inv step]) (use free in \<open>auto simp: sched_simps\<close>)
next
  case (done_task l t m)
  show ?thesis
    by (rule rtic_dispatch [OF inv step]) (use done_task in \<open>auto simp: sched_simps\<close>)
qed

lemma sched_reach_inv: "sched_reach T s \<Longrightarrow> sched_inv T s"
  by (induction rule: sched_reach.induct) (auto intro: start_inv sched_step_inv)


section \<open>Delivery\<close>

lemma some_msgs_simps [simp]:
  fixes xs ys :: "(nat \<times> 'm) list"
  shows "some_msgs ([] :: (nat \<times> 'm) list) = []" "some_msgs (xs @ ys) = some_msgs xs @ some_msgs ys" "length (some_msgs xs) = length xs"
  "(t, None) \<notin> set (some_msgs xs)" "some_msgs xs = some_msgs ys \<longleftrightarrow> xs = ys"
proof -
  have "inj (\<lambda>(t :: nat, m :: 'm). (t, Some m))" by (auto simp: inj_def)
  then show "some_msgs xs = some_msgs ys \<longleftrightarrow> xs = ys" by (simp add: some_msgs_def inj_map_eq_map)
qed (auto simp: some_msgs_def)

lemma some_msgs_append:
  assumes "some_msgs xs = some_msgs ys @ zs"
  obtains rest where "xs = ys @ rest" "zs = some_msgs rest"
proof
  have "some_msgs (take (length ys) xs) = take (length ys) (some_msgs xs)"
    "some_msgs (drop (length ys) xs) = drop (length ys) (some_msgs xs)"
    by (simp_all add: some_msgs_def take_map drop_map)
  then have 1: "some_msgs (take (length ys) xs) = some_msgs ys" and 2: "some_msgs (drop (length ys) xs) = zs"
    using assms by simp_all
  from 1 have "take (length ys) xs = ys" by simp
  then show "xs = ys @ drop (length ys) xs" by (metis append_take_drop_id)
  show "zs = some_msgs (drop (length ys) xs)" using 2 by simp
qed

text \<open>
  C4. Message passing between tasks: in every reachable state, whatever the interleaving of \<^verbatim>\<open>spawn\<close> calls and
  dispatchers, what a level has delivered is an initial part of what was spawned at it, in that order, with nothing
  lost, doubled or overwritten; a dispatcher only reads inputs that were written; the unchecked queues of a task
  never hold more than its capacity; and \<^verbatim>\<open>spawn\<close> is refused exactly when all its slots are in use.
\<close>

theorem spawned_delivered_in_order:
  assumes "sched_reach T s"
  shows "(\<exists>rest. enqueued s l = delivered s l @ rest) \<and>
    (\<forall>t i. disp s l = Holding t i \<longrightarrow> (\<exists>m. inputs s t i = Some m)) \<and>
    length (fq s t) + length (ready_slots t (rq s (lv T t))) \<le> capacity T t \<and>
    (spawn_start t m s = None \<longleftrightarrow>
       length (spawn_slots t (spawning s)) + length (ready_slots t (rq s (lv T t))) +
       length (disp_slots t (disp s (lv T t))) = capacity T t)"
proof -
  note D = sched_invD [OF sched_reach_inv [OF assms]]
  have "length (slots_of T s t) = capacity T t"
    using arg_cong [OF D(1) [of t], of size] by simp
  then have n: "length (fq s t) + length (spawn_slots t (spawning s)) + length (ready_slots t (rq s (lv T t))) +
      length (disp_slots t (disp s (lv T t))) = capacity T t"
    by (simp add: slots_of_def)
  have "\<exists>m. inputs s t i = Some m" if "disp s l = Holding t i" for t i
  proof -
    have "(t, inputs s t i) \<in> set (some_msgs (enqueued s l))" unfolding D(5) [of l] using that by simp
    then show ?thesis by (cases "inputs s t i") auto
  qed
  moreover have "\<exists>rest. enqueued s l = delivered s l @ rest"
    using D(5) [of l] by (rule some_msgs_append) blast
  moreover have "spawn_start t m s = None \<longleftrightarrow> length (fq s t) = 0"
    by (simp add: spawn_start_def split: list.splits)
  then have "spawn_start t m s = None \<longleftrightarrow>
       length (spawn_slots t (spawning s)) + length (ready_slots t (rq s (lv T t))) +
       length (disp_slots t (disp s (lv T t))) = capacity T t"
    using n by linarith
  moreover have "length (fq s t) + length (ready_slots t (rq s (lv T t))) \<le> capacity T t" using n by linarith
  ultimately show ?thesis by blast
qed

text \<open>One task, with one slot: a message in the ready queue, its interrupt not yet pending.\<close>

definition one_task :: tasks where
  "one_task = \<lparr>capacity = (\<lambda>_. 1), lv = (\<lambda>_. 1)\<rparr>"

definition message_queued :: "nat sched" where
  "message_queued =
     (let p = \<lparr>sp_task = 0, sp_slot = 0, sp_msg = 7, sp_stage = Written\<rparr>;
          s = spawn_write p (sched_start one_task\<lparr>fq := (\<lambda>_. [0])(0 := [])\<rparr>)
      in spawn_enqueue one_task p s\<lparr>spawning := [p\<lparr>sp_stage := Queued\<rparr>]\<rparr>)"

lemma message_queued_reached: "sched_reach one_task message_queued"
proof -
  let ?p = "\<lparr>sp_task = 0, sp_slot = 0, sp_msg = 7 :: nat, sp_stage = Got\<rparr>"
  let ?s1 = "sched_start one_task\<lparr>fq := (\<lambda>_. [0])(0 := []), spawning := [?p]\<rparr>"
  have 1: "sched_reach one_task ?s1"
    by (rule sched_reach.step [OF sched_reach.start sched_step.spawn [where t = 0 and m = 7]])
      (simp add: spawn_start_def sched_start_def one_task_def)
  let ?s2 = "spawn_write ?p ?s1\<lparr>spawning := [] @ ?p\<lparr>sp_stage := Written\<rparr> # []\<rparr>"
  have 2: "sched_reach one_task ?s2"
    by (rule sched_reach.step [OF 1 sched_step.swrite]) simp_all
  have "sched_reach one_task (spawn_enqueue one_task (?p\<lparr>sp_stage := Written\<rparr>) ?s2\<lparr>spawning :=
      [] @ ?p\<lparr>sp_stage := Queued\<rparr> # []\<rparr>)"
    using sched_reach.step [OF 2 sched_step.enqueue [where ps = "[]" and qs = "[]" and p = "?p\<lparr>sp_stage := Written\<rparr>"]]
    by simp
  then show ?thesis by (simp add: message_queued_def spawn_write_def spawn_enqueue_def sched_start_def Let_def)
qed

theorem spawned_delivered_in_order_witness:
  "spawn_start 0 8 message_queued = None \<and> (\<exists>rest. enqueued message_queued 1 = delivered message_queued 1 @ rest)"
proof -
  have "spawn_slots 0 (spawning message_queued) = []" "ready_slots 0 (rq message_queued 1) = [0]"
    "disp_slots 0 (disp message_queued 1) = []" "lv one_task 0 = 1" "capacity one_task 0 = 1"
    by (simp_all add: message_queued_def sched_simps sched_start_def one_task_def)
  then show ?thesis
    using spawned_delivered_in_order [OF message_queued_reached, of 1 0 8] by simp
qed

text \<open>
  C38. No message is left behind: as long as a ready queue is not empty, its interrupt is pending, its
  dispatcher is active, or a \<^verbatim>\<open>spawn\<close> is about to pend the interrupt. So when no \<^verbatim>\<open>spawn\<close> is under way, no
  interrupt is pending and no dispatcher is active, everything that was spawned has been delivered, and all slots are free.
\<close>

theorem no_message_left_behind:
  assumes "sched_reach T s"
  shows "(rq s l \<noteq> [] \<longrightarrow> sgi_pending s l \<or> disp s l \<noteq> Asleep \<or>
      (\<exists>p \<in> set (spawning s). sp_stage p = Queued \<and> lv T (sp_task p) = l)) \<and>
    (spawning s = [] \<and> (\<forall>l. \<not> sgi_pending s l \<and> disp s l = Asleep) \<longrightarrow>
      delivered s = enqueued s \<and> mset (fq s t) = mset [0..<capacity T t])"
proof -
  note D = sched_invD [OF sched_reach_inv [OF assms]]
  have "delivered s l = enqueued s l \<and> mset (fq s t) = mset [0..<capacity T t]"
    if "spawning s = []" "\<forall>l. \<not> sgi_pending s l \<and> disp s l = Asleep" for l
  proof -
    have empty: "rq s l = []" for l using D(3) [of l] that by (simp add: awake_def)
    have "some_msgs (enqueued s l) = some_msgs (delivered s l)"
      using D(5) [of l] that empty by (simp add: ready_msgs_def)
    then show ?thesis
      using D(1) [of t] that empty by (simp add: slots_of_def spawn_slots_def ready_slots_def)
  qed
  then show ?thesis using D(3) [of l] by (auto simp: awake_def fun_eq_iff)
qed

theorem no_message_left_behind_witness:
  "\<exists>p \<in> set (spawning message_queued). sp_stage p = Queued \<and> lv one_task (sp_task p) = 1"
proof -
  have "rq message_queued 1 \<noteq> []" "\<not> sgi_pending message_queued 1" "disp message_queued 1 = Asleep"
    by (simp_all add: message_queued_def sched_simps sched_start_def one_task_def)
  then show ?thesis using no_message_left_behind [OF message_queued_reached, of 1 0] by simp
qed

end
