(* ===== verification/Handle.thy ===== *)
theory Handle
  imports Codegen
begin

text \<open>
  \<^verbatim>\<open>firmware/usbarmory/src/serial.rs\<close> and \<^verbatim>\<open>led.rs\<close>: the exclusive handles \<^verbatim>\<open>Serial\<close> and \<^verbatim>\<open>Leds\<close>. Both are taken and
  released by the same code on an atomic byte; each load and each compare-exchange is one step here, and steps of
  different contexts interleave.
\<close>

section \<open>Taking and releasing\<close>

definition NEVER :: u8 where "NEVER = 0"
definition TAKEN :: u8 where "TAKEN = 1"
definition FREE :: u8 where "FREE = 2"

lemmas states_def = NEVER_def TAKEN_def FREE_def

text \<open>The byte \<^verbatim>\<open>STATE\<close>, and the flag of the singleton of the peripheral (\<^verbatim>\<open>UART2\<close> or \<^verbatim>\<open>GPIO4\<close>).\<close>

record singleton =
  cell_state :: u8
  periph_taken :: bool

definition singleton_start :: singleton where
  "singleton_start = \<lparr>cell_state = NEVER, periph_taken = False\<rparr>"

text \<open>
  Where a context is in \<^verbatim>\<open>take\<close>: before the load, before the first compare-exchange, before the peripheral
  is taken, before the second compare-exchange; then it has the handle or not.
\<close>

datatype take_stage = Load | FirstCas | PeriphTake | SecondCas | Got | NotGot

fun take_step :: "singleton \<times> take_stage \<Rightarrow> singleton \<times> take_stage" where
  "take_step (s, Load) = (s, if cell_state s = NEVER then FirstCas else SecondCas)"
| "take_step (s, FirstCas) =
     (if cell_state s = NEVER then (s\<lparr>cell_state := TAKEN\<rparr>, PeriphTake) else (s, SecondCas))"
| "take_step (s, PeriphTake) =
     (let (ok, t) = take_singleton (periph_taken s) in (s\<lparr>periph_taken := t\<rparr>, if ok then Got else NotGot))"
| "take_step (s, SecondCas) =
     (if cell_state s = FREE then (s\<lparr>cell_state := TAKEN\<rparr>, Got) else (s, NotGot))"
| "take_step (s, Got) = (s, Got)"
| "take_step (s, NotGot) = (s, NotGot)"

definition release :: "singleton \<Rightarrow> singleton" where
  "release s = s\<lparr>cell_state := FREE\<rparr>"

text \<open>Contexts are numbered; other code may take the peripheral itself, and a handle may be passed on (it is \<^verbatim>\<open>Send\<close>).\<close>

inductive handle_step :: "singleton \<times> (nat \<Rightarrow> take_stage) \<Rightarrow> singleton \<times> (nat \<Rightarrow> take_stage) \<Rightarrow> bool" where
  call: "c i = NotGot \<Longrightarrow> handle_step (s, c) (s, c(i := Load))"
| taking: "take_step (s, c i) = (s', g) \<Longrightarrow> handle_step (s, c) (s', c(i := g))"
| releasing: "c i = Got \<Longrightarrow> handle_step (s, c) (release s, c(i := NotGot))"
| sending: "c i = Got \<Longrightarrow> c j = NotGot \<Longrightarrow> handle_step (s, c) (s, c(i := NotGot, j := Got))"
| periph: "handle_step (s, c) (s\<lparr>periph_taken := True\<rparr>, c)"

inductive handle_reach :: "singleton \<Rightarrow> (nat \<Rightarrow> take_stage) \<Rightarrow> bool" where
  start: "handle_reach singleton_start (\<lambda>_. NotGot)"
| step: "handle_reach s c \<Longrightarrow> handle_step (s, c) (s', c') \<Longrightarrow> handle_reach s' c'"

section \<open>Exclusive\<close>

definition owns :: "take_stage \<Rightarrow> bool" where
  "owns g \<longleftrightarrow> g = Got \<or> g = PeriphTake"

definition owners :: "(nat \<Rightarrow> take_stage) \<Rightarrow> nat set" where
  "owners c = {i. owns (c i)}"

text \<open>Nobody owns the handle (and the byte is only \<open>TAKEN\<close> if the peripheral was), or one context does.\<close>

definition handle_inv :: "singleton \<Rightarrow> (nat \<Rightarrow> take_stage) \<Rightarrow> bool" where
  "handle_inv s c \<longleftrightarrow>
     owners c = {} \<and> (cell_state s = NEVER \<or> cell_state s = FREE \<or> cell_state s = TAKEN \<and> periph_taken s) \<or>
     (\<exists>i. owners c = {i}) \<and> cell_state s = TAKEN"

lemma owns_simps [simp]: "owns Got" "owns PeriphTake" "\<not> owns NotGot" "\<not> owns Load" "\<not> owns FirstCas" "\<not> owns SecondCas"
  by (simp_all add: owns_def)

lemma owners_upd [simp]: "owners (c(i := g)) = (if owns g then insert i (owners c) else owners c - {i})"
  by (auto simp: owners_def)

lemma owner_iff: "i \<in> owners c \<longleftrightarrow> owns (c i)"
  by (simp add: owners_def)

lemma handle_inv_take:
  assumes I: "handle_inv s c" and step: "take_step (s, c i) = (s', g)"
  shows "handle_inv s' (c(i := g))"
proof (cases "c i")
  case Got
  then have "i \<in> owners c" by (simp add: owner_iff)
  then show ?thesis using I step Got by (auto simp: handle_inv_def)
next
  case PeriphTake
  then have "i \<in> owners c" by (simp add: owner_iff)
  then have "owners c = {i}" "cell_state s = TAKEN" using I by (auto simp: handle_inv_def)
  then show ?thesis using step PeriphTake by (auto simp: handle_inv_def take_singleton_def split: if_splits)
next
  case FirstCas
  then have "i \<notin> owners c" by (simp add: owner_iff)
  then show ?thesis using I step FirstCas by (auto simp: handle_inv_def states_def split: if_splits)
next
  case SecondCas
  then have "i \<notin> owners c" by (simp add: owner_iff)
  then show ?thesis using I step SecondCas by (auto simp: handle_inv_def states_def split: if_splits)
next
  case Load
  then have "i \<notin> owners c" by (simp add: owner_iff)
  then show ?thesis using I step Load by (auto simp: handle_inv_def split: if_splits)
next
  case NotGot
  then have "i \<notin> owners c" by (simp add: owner_iff)
  then show ?thesis using I step NotGot by (auto simp: handle_inv_def)
qed

lemma handle_inv_step:
  assumes I: "handle_inv s c" and "handle_step (s, c) (s', c')"
  shows "handle_inv s' c'"
  using assms(2)
proof cases
  case (call i)
  then have "i \<notin> owners c" by (simp add: owner_iff)
  then show ?thesis using I call by (simp add: handle_inv_def)
next
  case (taking i g)
  then show ?thesis using handle_inv_take [OF I] by simp
next
  case (releasing i)
  then have "i \<in> owners c" by (simp add: owner_iff)
  then show ?thesis using I releasing by (auto simp: handle_inv_def release_def)
next
  case (sending i j)
  then have "i \<in> owners c" by (simp add: owner_iff)
  then have "owners c = {i}" "cell_state s = TAKEN" using I by (auto simp: handle_inv_def)
  moreover from this have "owners c' = {j}" unfolding sending by simp
  ultimately show ?thesis using sending(1) by (simp add: handle_inv_def)
next
  case periph
  then show ?thesis using I by (auto simp: handle_inv_def)
qed

lemma handle_reach_inv: "handle_reach s c \<Longrightarrow> handle_inv s c"
proof (induction rule: handle_reach.induct)
  case start
  then show ?case by (simp add: handle_inv_def singleton_start_def owners_def)
next
  case (step s c s' c')
  then show ?case using handle_inv_step by blast
qed

text \<open>\<^verbatim>\<open>take\<close> on its own, without another context in between.\<close>

definition take_alone :: "singleton \<Rightarrow> singleton \<times> bool" where
  "take_alone s = (let (s', g) = (take_step ^^ 4) (s, Load) in (s', g = Got))"

lemma take_alone_eq:
  "take_alone s =
     (if cell_state s = NEVER then (s\<lparr>cell_state := TAKEN, periph_taken := True\<rparr>, \<not> periph_taken s)
      else if cell_state s = FREE then (s\<lparr>cell_state := TAKEN\<rparr>, True) else (s, False))"
  by (simp add: take_alone_def eval_nat_numeral states_def take_singleton_def)


lemma reach_taking:
  assumes "handle_reach s c" "take_step (s, c i) = (s', g)"
  shows "handle_reach s' (c(i := g))"
  using assms by (blast intro: handle_reach.step taking)

lemma handle_taken:
  "handle_reach \<lparr>cell_state = TAKEN, periph_taken = True\<rparr> ((\<lambda>_. NotGot)(0 := Got))"
proof -
  let ?c = "\<lambda>_ :: nat. NotGot"
  have 0: "handle_reach singleton_start (?c(0 := Load))"
    by (rule handle_reach.step [OF handle_reach.start call]) simp
  have 1: "handle_reach singleton_start (?c(0 := FirstCas))"
    using reach_taking [OF 0, of 0] by (simp add: singleton_start_def)
  have 2: "handle_reach \<lparr>cell_state = TAKEN, periph_taken = False\<rparr> (?c(0 := PeriphTake))"
    using reach_taking [OF 1, of 0] by (simp add: singleton_start_def)
  show ?thesis
    using reach_taking [OF 2, of 0] by (simp add: take_singleton_def)
qed


end
