(* ===== verification/Memlog.thy ===== *)
theory Memlog
  imports Prelude
begin

text \<open>
  The in-memory logger of \<^verbatim>\<open>firmware/memlog/src/lib.rs\<close>: two byte ring buffers, one for
  the \<^verbatim>\<open>main\<close> context and one for interrupt context, and the two flushing loops of
  \<^verbatim>\<open>firmware/usbarmory/src/lib.rs\<close> that drain them. The raw pointer \<^verbatim>\<open>bufferp\<close> is a
  memory indexed by the offset from \<^verbatim>\<open>bufferp\<close>; offsets from \<open>cap\<close> on belong to whatever
  the linker placed behind the buffer, so an out-of-bounds copy is visible in the model.
\<close>

section \<open>State\<close>

record buffer =
  mem :: "nat \<Rightarrow> u8"
  cap :: nat
  read_pos :: u32
  write_pos :: u32

definition buffer_new :: "nat \<Rightarrow> (nat \<Rightarrow> u8) \<Rightarrow> buffer" where
  "buffer_new c m = \<lparr>mem = m, cap = c, read_pos = 0, write_pos = 0\<rparr>"

text \<open>\<^verbatim>\<open>ptr::copy_nonoverlapping(src, bufferp.add(off), src.len())\<close>.\<close>

definition copy_to :: "(nat \<Rightarrow> u8) \<Rightarrow> nat \<Rightarrow> bytes \<Rightarrow> (nat \<Rightarrow> u8)" where
  "copy_to m off src = (\<lambda>i. if off \<le> i \<and> i < off + length src then src ! (i - off) else m i)"

text \<open>\<^verbatim>\<open>slice::from_raw_parts(bufferp.add(off), n)\<close>.\<close>

definition read_from :: "(nat \<Rightarrow> u8) \<Rightarrow> nat \<Rightarrow> nat \<Rightarrow> bytes" where
  "read_from m off n = map (\<lambda>i. m (off + i)) [0..<n]"

section \<open>Operations\<close>

text \<open>
  \<^verbatim>\<open>Buffer::push\<close>. The assertion compares with wrapping arithmetic; the position is stored
  with a plain \<^verbatim>\<open>+\<close>. The pivot of the split copy is \<^verbatim>\<open>cursor + n - cap\<close>, as in the source.
\<close>

definition push :: "profile \<Rightarrow> buffer \<Rightarrow> bytes \<Rightarrow> (unit, buffer) outcome" where
  "push p b bs =
     (let n = length bs in
      obind (oassert (n \<le> unat (read_pos b + of_nat (cap b) - write_pos b))) (\<lambda>_.
      let cursor = unat (write_pos b) mod cap b;
          m = (if cursor + n > cap b
               then (let pivot = cursor + n - cap b in
                     copy_to (copy_to (mem b) cursor (take pivot bs)) 0 (drop pivot bs))
               else copy_to (mem b) cursor bs)
      in obind (prof_add p (write_pos b) (of_nat n)) (\<lambda>w.
         Ok (b\<lparr>mem := m, write_pos := w\<rparr>))))"

text \<open>
  \<^verbatim>\<open>Buffer::peek\<close>. The closure is taken out of the option the first time it is used; the
  second component is what the closure was shown.
\<close>

definition peek ::
  "profile \<Rightarrow> buffer \<Rightarrow> (bytes \<Rightarrow> nat) option \<Rightarrow>
   (unit, buffer \<times> bytes \<times> (bytes \<Rightarrow> nat) option) outcome" where
  "peek p b fo =
     (let n = min (unat (write_pos b - read_pos b)) (cap b - unat (read_pos b) mod cap b);
          cursor = unat (read_pos b) mod cap b
      in if n \<noteq> 0 then
           (case fo of
              None \<Rightarrow> Ok (b, [], None)
            | Some f \<Rightarrow>
                (let shown = read_from (mem b) cursor n; bytes_read = f shown in
                 obind (prof_add p (read_pos b) (of_nat (min bytes_read n))) (\<lambda>r.
                 Ok (b\<lparr>read_pos := r\<rparr>, shown, None))))
         else Ok (b, [], fo))"

text \<open>The two loggers \<^verbatim>\<open>L0\<close> (main) and \<^verbatim>\<open>L1\<close> (interrupts).\<close>

record loggers =
  L0 :: buffer
  L1 :: buffer

definition log :: "profile \<Rightarrow> bool \<Rightarrow> loggers \<Rightarrow> bytes \<Rightarrow> (unit, loggers) outcome" where
  "log p in_main l bs =
     (if in_main then obind (push p (L0 l) bs) (\<lambda>b. Ok (l\<lparr>L0 := b\<rparr>))
      else obind (push p (L1 l) bs) (\<lambda>b. Ok (l\<lparr>L1 := b\<rparr>)))"

text \<open>\<^verbatim>\<open>memlog::peek\<close>: first the interrupt buffer, then the main one, one closure for both.\<close>

definition peek_all ::
  "profile \<Rightarrow> bool \<Rightarrow> bool \<Rightarrow> loggers \<Rightarrow> (bytes \<Rightarrow> nat) \<Rightarrow> (unit, loggers \<times> bytes) outcome" where
  "peek_all p all in_main l f =
     (if all \<or> in_main then
        obind (peek p (L1 l) (Some f)) (\<lambda>(b1, s1, fo).
        obind (peek p (L0 l) fo) (\<lambda>(b0, s0, _).
        Ok (l\<lparr>L1 := b1, L0 := b0\<rparr>, s1 @ s0)))
      else Ok (l, []))"

text \<open>
  The loop of \<^verbatim>\<open>memlog_flush_and_reset\<close>: \<open>k\<close> rounds that print a whole slice each (the
  closure returns \<^verbatim>\<open>s.len()\<close>); the result carries what was printed.
\<close>

fun flush_rounds :: "nat \<Rightarrow> profile \<Rightarrow> bool \<Rightarrow> loggers \<Rightarrow> (unit, loggers \<times> bytes) outcome" where
  "flush_rounds 0 p in_main l = Ok (l, [])"
| "flush_rounds (Suc k) p in_main l =
     obind (peek_all p True in_main l length) (\<lambda>(l', out).
     obind (flush_rounds k p in_main l') (\<lambda>(l'', out'). Ok (l'', out @ out')))"

definition memlog_flush :: "profile \<Rightarrow> bool \<Rightarrow> loggers \<Rightarrow> (unit, loggers \<times> bytes) outcome" where
  "memlog_flush p in_main l = flush_rounds 4 p in_main l"

section \<open>Abstraction: a queue of bytes\<close>

definition pending :: "buffer \<Rightarrow> nat" where
  "pending b = unat (write_pos b - read_pos b)"

definition contents :: "buffer \<Rightarrow> bytes" where
  "contents b = map (\<lambda>i. mem b ((unat (read_pos b) + i) mod cap b)) [0..<pending b]"

definition ring_inv :: "buffer \<Rightarrow> bool" where
  "ring_inv b \<longleftrightarrow> 0 < cap b \<and> cap b < 2 ^ 32 \<and> cap b dvd 2 ^ 32 \<and> pending b \<le> cap b"

definition cursor :: "buffer \<Rightarrow> nat" where
  "cursor b = unat (write_pos b) mod cap b"

text \<open>\<open>fits b n\<close>: the split copy puts the pivot at the end of the buffer.\<close>

definition fits :: "buffer \<Rightarrow> nat \<Rightarrow> bool" where
  "fits b n \<longleftrightarrow> pending b + n \<le> cap b \<and>
     (cursor b + n \<le> cap b \<or> n = 2 * (cap b - cursor b))"

lemma length_contents [simp]: "length (contents b) = pending b"
  by (simp add: contents_def)

lemma nth_contents [simp]:
  "i < pending b \<Longrightarrow> contents b ! i = mem b ((unat (read_pos b) + i) mod cap b)"
  by (simp add: contents_def)

lemma contents_empty [simp]: "pending b = 0 \<Longrightarrow> contents b = []"
  by (simp add: contents_def)

lemma ring_inv_new: "0 < c \<Longrightarrow> c < 2 ^ 32 \<Longrightarrow> c dvd 2 ^ 32 \<Longrightarrow> ring_inv (buffer_new c m)"
  by (simp add: ring_inv_def buffer_new_def pending_def)

lemma contents_new [simp]: "contents (buffer_new c m) = []"
  by (simp add: contents_def buffer_new_def pending_def)

text \<open>Addition of positions, read modulo a capacity that divides \<open>2 ^ 32\<close>.\<close>

lemma unat_add_mod_cap:
  assumes "c dvd 2 ^ 32"
  shows "unat (a + b :: u32) mod c = (unat a + unat b) mod c"
  using assms by (simp add: unat_word_ariths mod_mod_cancel)

lemma cursor_alt:
  assumes "ring_inv b"
  shows "cursor b = (unat (read_pos b) + pending b) mod cap b"
proof -
  have "write_pos b = read_pos b + (write_pos b - read_pos b)" by simp
  then show ?thesis
    using assms unat_add_mod_cap [of "cap b" "read_pos b" "write_pos b - read_pos b"]
    by (simp add: cursor_def ring_inv_def pending_def)
qed

lemma free_space:
  assumes "ring_inv b"
  shows "unat (read_pos b + of_nat (cap b) - write_pos b) = cap b - pending b"
proof -
  have cap: "unat (of_nat (cap b) :: u32) = cap b"
    using assms by (simp add: ring_inv_def unat_of_nat)
  have "write_pos b - read_pos b \<le> of_nat (cap b)"
    using assms cap by (simp add: ring_inv_def pending_def word_le_nat_alt)
  moreover have "read_pos b + of_nat (cap b) - write_pos b
      = of_nat (cap b) - (write_pos b - read_pos b)" by simp
  ultimately show ?thesis by (simp only: unat_sub cap pending_def)
qed

text \<open>Going back \<open>d\<close> places from a position, modulo the capacity.\<close>

lemma mod_back:
  fixes x d c :: nat
  assumes "d \<le> c" "d \<le> x" "0 < c"
  shows "(x - d) mod c = (if d \<le> x mod c then x mod c - d else (x mod c + c - d) mod c)"
proof -
  obtain q r where x: "x = c * q + r" and r: "r < c"
    using assms(3) by (metis mod_less_divisor mult_div_mod_eq)
  show ?thesis
  proof (cases "d \<le> r")
    case True
    then have "x - d = c * q + (r - d)" using x by simp
    moreover have "(c * q + (r - d)) mod c = r - d" using r by simp
    ultimately have "(x - d) mod c = r - d" by simp
    then show ?thesis using True x r by simp
  next
    case False
    then obtain q' where q: "q = Suc q'" using x assms(2) by (cases q) auto
    have "x - d = c * q' + (r + c - d)" using x q assms(1) by simp
    moreover have "(c * q' + (r + c - d)) mod c = (r + c - d) mod c" by simp
    ultimately show ?thesis using False x r by simp
  qed
qed

lemma old_index_outside:
  assumes "ring_inv b" "i < pending b" "pending b + n \<le> cap b"
  defines "j \<equiv> (unat (read_pos b) + i) mod cap b"
  shows "\<not> (cursor b \<le> j \<and> j < cursor b + n)" and "\<not> j + cap b < cursor b + n"
proof -
  let ?x = "unat (read_pos b) + pending b" and ?d = "pending b - i"
  have c: "cursor b = ?x mod cap b" using assms(1) by (rule cursor_alt)
  have lt: "cursor b < cap b" using assms(1) by (simp add: c ring_inv_def)
  have "?x - ?d = unat (read_pos b) + i" using assms(2) by simp
  then have "j = (if ?d \<le> cursor b then cursor b - ?d else (cursor b + cap b - ?d) mod cap b)"
    using mod_back [of ?d "cap b" ?x] assms by (simp add: c ring_inv_def)
  moreover have "\<not> ?d \<le> cursor b \<Longrightarrow> (cursor b + cap b - ?d) mod cap b = cursor b + cap b - ?d"
    using lt by simp
  ultimately have j: "j = (if ?d \<le> cursor b then cursor b - ?d else cursor b + cap b - ?d)"
    by simp
  show "\<not> (cursor b \<le> j \<and> j < cursor b + n)" and "\<not> j + cap b < cursor b + n"
    using j assms(2,3) by (auto split: if_splits)
qed

lemma new_index:
  assumes "ring_inv b" "k < cap b"
  shows "(unat (read_pos b) + (pending b + k)) mod cap b =
    (if cursor b + k < cap b then cursor b + k else cursor b + k - cap b)"
proof -
  have "(unat (read_pos b) + (pending b + k)) mod cap b = (cursor b + k) mod cap b"
    using assms(1) by (simp add: cursor_alt mod_add_left_eq add.assoc [symmetric])
  moreover have "cursor b < cap b" using assms(1) by (simp add: cursor_def ring_inv_def)
  ultimately show ?thesis using assms(2) by (auto simp: mod_if)
qed

section \<open>Push appends to the queue\<close>

lemma push_Ok:
  assumes "ring_inv b" "push p b bs = Ok b'"
  shows "pending b + length bs \<le> cap b"
    and "b' = b\<lparr>mem := (if cursor b + length bs > cap b
               then copy_to (copy_to (mem b) (cursor b) (take (cursor b + length bs - cap b) bs))
                      0 (drop (cursor b + length bs - cap b) bs)
               else copy_to (mem b) (cursor b) bs),
            write_pos := write_pos b + of_nat (length bs)\<rparr>"
  using assms
  by (auto simp: push_def obind_Ok_iff free_space oassert_def ring_inv_def Let_def cursor_def
      dest!: prof_add_Ok split: if_splits)

lemma push_frame:
  assumes "ring_inv b" "push p b bs = Ok b'"
  shows "read_pos b' = read_pos b" "cap b' = cap b"
  using push_Ok(2) [OF assms] by simp_all

lemma pending_push:
  assumes "ring_inv b" "push p b bs = Ok b'"
  shows "pending b' = pending b + length bs"
proof -
  have le: "pending b + length bs < 2 ^ 32"
    using push_Ok(1) [OF assms] assms(1) by (simp add: ring_inv_def)
  have "write_pos b' - read_pos b' = (write_pos b - read_pos b) + of_nat (length bs)"
    using push_Ok(2) [OF assms] by simp
  moreover have "unat (of_nat (length bs) :: u32) = length bs"
    using le by (simp add: unat_of_nat)
  ultimately show ?thesis
    using le by (simp add: pending_def unat_add_lem [THEN iffD1])
qed

lemma push_ring_inv:
  assumes "ring_inv b" "push p b bs = Ok b'"
  shows "ring_inv b'"
  using push_Ok [OF assms] pending_push [OF assms] assms(1) by (auto simp: ring_inv_def)

text \<open>The memory after a push that fits: the new bytes lie from the cursor on, wrapping at \<open>cap\<close>.\<close>

lemma push_mem:
  assumes inv: "ring_inv b" and ok: "push p b bs = Ok b'" and fits: "fits b (length bs)"
    and j: "j < cap b"
  shows "mem b' j =
    (if cursor b \<le> j \<and> j < cursor b + length bs then bs ! (j - cursor b)
     else if j + cap b < cursor b + length bs then bs ! (j + cap b - cursor b) else mem b j)"
proof (cases "cap b < cursor b + length bs")
  case True
  obtain d where d: "cap b = cursor b + d"
    using inv by (metis cursor_def less_imp_add_positive mod_less_divisor ring_inv_def)
  with True fits have n: "length bs = 2 * d" and dc: "d \<le> cursor b" by (simp_all add: fits_def)
  show ?thesis
    using True j dc push_Ok(2) [OF inv ok] by (simp add: d n copy_to_def add.commute)
next
  case False
  then show ?thesis using j push_Ok(2) [OF inv ok] by (simp add: copy_to_def)
qed

lemma push_contents:
  assumes inv: "ring_inv b" and ok: "push p b bs = Ok b'" and fits: "fits b (length bs)"
  shows "contents b' = contents b @ bs"
proof (rule nth_equalityI)
  show "length (contents b') = length (contents b @ bs)"
    by (simp add: pending_push [OF inv ok])
next
  fix i assume "i < length (contents b')"
  then have i: "i < pending b + length bs" by (simp add: pending_push [OF inv ok])
  note b' = push_Ok [OF inv ok]
  have lt: "cursor b < cap b" using inv by (simp add: cursor_def ring_inv_def)
  show "contents b' ! i = (contents b @ bs) ! i"
  proof (cases "i < pending b")
    case True
    have "contents b' ! i = mem b' ((unat (read_pos b) + i) mod cap b)"
      using i nth_contents [of i b'] by (simp add: pending_push [OF inv ok] push_frame [OF inv ok])
    moreover have "mem b' ((unat (read_pos b) + i) mod cap b)
        = mem b ((unat (read_pos b) + i) mod cap b)"
      using old_index_outside [OF inv True b'(1)] lt push_mem [OF inv ok fits, of "(unat (read_pos b) + i) mod cap b"]
      by auto
    ultimately show ?thesis using True by (simp add: nth_append)
  next
    case False
    then obtain k where k: "i = pending b + k" "k < length bs"
      using i by (metis add_less_cancel_left le_Suc_ex not_less)
    have "contents b' ! i = mem b' ((unat (read_pos b) + (pending b + k)) mod cap b)"
      using k nth_contents [of i b'] by (simp add: pending_push [OF inv ok] push_frame [OF inv ok])
    then show ?thesis
      using new_index [OF inv, of k] k b'(1) lt push_mem [OF inv ok fits]
      by (auto simp: nth_append)
  qed
qed

section \<open>Peek drops a prefix of the queue\<close>

text \<open>\<open>seg b\<close>: the length of the contiguous piece a peek can show.\<close>

definition seg :: "buffer \<Rightarrow> nat" where
  "seg b = min (pending b) (cap b - unat (read_pos b) mod cap b)"

lemma seg_le [simp]: "seg b \<le> pending b"
  by (simp add: seg_def)

lemma shown_eq: "read_from (mem b) (unat (read_pos b) mod cap b) (seg b) = take (seg b) (contents b)"
proof (rule nth_equalityI)
  fix i assume "i < length (read_from (mem b) (unat (read_pos b) mod cap b) (seg b))"
  then have i: "i < seg b" by (simp add: read_from_def)
  then have "unat (read_pos b) mod cap b + i < cap b" by (auto simp: seg_def)
  then have "(unat (read_pos b) + i) mod cap b = unat (read_pos b) mod cap b + i"
    by (metis mod_add_left_eq mod_less)
  then show "read_from (mem b) (unat (read_pos b) mod cap b) (seg b) ! i = take (seg b) (contents b) ! i"
    using i by (simp add: read_from_def seg_def)
qed (simp add: read_from_def seg_def)

lemma advance_contents:
  assumes inv: "ring_inv b" and k: "k \<le> pending b"
  defines "b' \<equiv> b\<lparr>read_pos := read_pos b + of_nat k\<rparr>"
  shows "pending b' = pending b - k" "contents b' = drop k (contents b)" "ring_inv b'"
proof -
  have kw: "unat (of_nat k :: u32) = k"
    using k inv by (simp add: ring_inv_def unat_of_nat)
  have diff: "write_pos b' - read_pos b' = (write_pos b - read_pos b) - of_nat k"
    by (simp add: b'_def)
  have "of_nat k \<le> write_pos b - read_pos b"
    using k kw by (simp add: word_le_nat_alt pending_def)
  then show *: "pending b' = pending b - k"
    unfolding pending_def diff by (simp only: unat_sub kw)
  show "ring_inv b'"
  proof -
    have "cap b' = cap b" by (simp add: b'_def)
    then show ?thesis using inv * unfolding ring_inv_def by (elim conjE) simp
  qed
  show "contents b' = drop k (contents b)"
  proof (rule nth_equalityI)
    fix i assume "i < length (contents b')"
    then have i: "i < pending b - k" using * by simp
    have "(unat (read_pos b + of_nat k) + i) mod cap b = (unat (read_pos b) + (k + i)) mod cap b"
    proof -
      have "cap b dvd 2 ^ 32" using inv by (simp only: ring_inv_def)
      then have "unat (read_pos b + of_nat k) mod cap b = (unat (read_pos b) + k) mod cap b"
        using unat_add_mod_cap [of "cap b" "read_pos b" "of_nat k"] by (simp only: kw)
      then have "(unat (read_pos b + of_nat k) + i) mod cap b = (unat (read_pos b) + k + i) mod cap b"
        by (rule mod_add_cong) (rule refl)
      then show ?thesis by (simp only: add.assoc)
    qed
    moreover have "contents b' ! i = mem b ((unat (read_pos b + of_nat k) + i) mod cap b)"
      using i * nth_contents [of i b'] by (simp add: b'_def)
    ultimately show "contents b' ! i = drop k (contents b) ! i"
      using i by simp
  qed (simp add: *)
qed

lemma peek_Some_cases [consumes 1]:
  assumes inv: "ring_inv b"
  obtains (empty) "pending b = 0" "peek p b (Some f) = Ok (b, [], Some f)"
  | (panic) "p = Dev" "peek p b (Some f) = Panic"
  | (shown) k where "0 < pending b" "k = min (f (take (seg b) (contents b))) (seg b)"
      "peek p b (Some f) =
         Ok (b\<lparr>read_pos := read_pos b + of_nat k\<rparr>, take (seg b) (contents b), None)"
proof (cases "pending b = 0")
  case True
  then have "peek p b (Some f) = Ok (b, [], Some f)" by (simp add: peek_def pending_def)
  with True show ?thesis by (rule empty)
next
  case False
  have "unat (read_pos b) mod cap b < cap b" using inv by (simp add: ring_inv_def)
  with False have seg: "seg b \<noteq> 0" by (simp add: seg_def)
  let ?sh = "take (seg b) (contents b)"
  let ?k = "min (f ?sh) (seg b)"
  have eq: "peek p b (Some f) = obind (prof_add p (read_pos b) (of_nat ?k))
      (\<lambda>r. Ok (b\<lparr>read_pos := r\<rparr>, ?sh, None))"
    using seg by (simp add: peek_def Let_def pending_def [symmetric] seg_def [symmetric] shown_eq)
  show ?thesis
  proof (cases "prof_add p (read_pos b) (of_nat ?k) :: (unit, u32) outcome")
    case (Ok r)
    then have "r = read_pos b + of_nat ?k" by (rule prof_add_Ok)
    with eq Ok show ?thesis using False by (intro shown [of ?k]) simp_all
  qed (use eq panic in \<open>auto simp: prof_add_def split: if_splits\<close>)
qed

lemma peek_shown:
  assumes inv: "ring_inv b" and ok: "peek p b (Some f) = Ok (b', sh, fo)"
  shows "sh = take (seg b) (contents b)"
    and "contents b' = drop (min (f sh) (length sh)) (contents b)"
    and "ring_inv b'"
    and "fo = (if pending b = 0 then Some f else None)"
proof -
  have "sh = take (seg b) (contents b) \<and> contents b' = drop (min (f sh) (length sh)) (contents b) \<and>
      ring_inv b' \<and> fo = (if pending b = 0 then Some f else None)"
    using inv
  proof (cases rule: peek_Some_cases [where p = p and f = f])
    case empty
    then show ?thesis using ok inv by (auto simp: seg_def)
  next
    case panic
    then show ?thesis using ok by simp
  next
    case (shown k)
    then have "k \<le> pending b" using seg_le [of b] by linarith
    then show ?thesis
      using shown ok advance_contents [OF inv, of k] by (auto simp: min_absorb2)
  qed
  then show "sh = take (seg b) (contents b)"
    and "contents b' = drop (min (f sh) (length sh)) (contents b)"
    and "ring_inv b'" and "fo = (if pending b = 0 then Some f else None)" by auto
qed

lemma peek_None: "peek p b None = Ok (b, [], None)"
  by (simp add: peek_def Let_def)

section \<open>Flushing\<close>

text \<open>The number of peeks that empty a buffer: none, one, or two when the data wraps.\<close>

definition segs :: "buffer \<Rightarrow> nat" where
  "segs b = (if pending b = 0 then 0
     else if pending b \<le> cap b - unat (read_pos b) mod cap b then 1 else 2)"

definition loggers_inv :: "loggers \<Rightarrow> bool" where
  "loggers_inv l \<longleftrightarrow> ring_inv (L0 l) \<and> ring_inv (L1 l)"

text \<open>What the loggers hold, in the order a flush prints it.\<close>

definition log_contents :: "loggers \<Rightarrow> bytes" where
  "log_contents l = contents (L1 l) @ contents (L0 l)"

lemma contents_Nil_iff [simp]: "contents b = [] \<longleftrightarrow> pending b = 0"
  by (simp add: contents_def)

lemma segs_zero_iff: "segs b = 0 \<longleftrightarrow> pending b = 0"
  by (simp add: segs_def)

text \<open>A peek that consumes all it is shown.\<close>

lemma peek_all_of_it:
  assumes inv: "ring_inv b" and ne: "0 < pending b"
  shows "p = Dev \<and> peek p b (Some length) = Panic \<or>
    (\<exists>b' sh. peek p b (Some length) = Ok (b', sh, None) \<and> ring_inv b' \<and>
       contents b = sh @ contents b' \<and> segs b' = segs b - 1)"
  using inv
proof (cases rule: peek_Some_cases [where p = p and f = length])
  case (shown k)
  then have k: "k = seg b" by simp
  note adv = advance_contents [OF inv, of k]
  let ?b = "b\<lparr>read_pos := read_pos b + of_nat k\<rparr>"
  have "segs ?b = segs b - 1"
  proof (cases "pending b \<le> cap b - unat (read_pos b) mod cap b")
    case True
    then show ?thesis using adv(1) k by (simp add: segs_def seg_def)
  next
    case False
    then have seg: "seg b = cap b - unat (read_pos b) mod cap b" by (simp add: seg_def)
    have kw: "unat (of_nat (seg b) :: u32) = seg b"
    proof -
      have "seg b < 2 ^ 32"
        using inv seg_le [of b] unfolding ring_inv_def by linarith
      then show ?thesis by (simp add: unat_of_nat)
    qed
    have "unat (read_pos b + of_nat k) mod cap b = (unat (read_pos b) mod cap b + seg b) mod cap b"
      using inv unat_add_mod_cap [of "cap b" "read_pos b" "of_nat k"] k kw
      by (simp add: ring_inv_def mod_add_left_eq)
    also have "\<dots> = 0" using seg inv by (simp add: ring_inv_def)
    finally show ?thesis
      using False adv k seg inv by (auto simp: segs_def ring_inv_def)
  qed
  then show ?thesis using shown adv k by auto
qed (use ne in auto)

lemma peek_all_round:
  assumes inv: "loggers_inv l"
  shows "p = Dev \<and> peek_all p True m l length = Panic \<or>
    (\<exists>l' out. peek_all p True m l length = Ok (l', out) \<and> loggers_inv l' \<and>
       log_contents l = out @ log_contents l' \<and>
       segs (L1 l') + segs (L0 l') = segs (L1 l) + segs (L0 l) - 1)"
proof -
  have i1: "ring_inv (L1 l)" and i0: "ring_inv (L0 l)" using inv by (simp_all add: loggers_inv_def)
  have empty: "pending b = 0 \<Longrightarrow> peek p b (Some length) = Ok (b, [], Some length)" for b
    by (simp add: peek_def pending_def)
  consider "0 < pending (L1 l)" | "pending (L1 l) = 0" "0 < pending (L0 l)"
    | "pending (L1 l) = 0" "pending (L0 l) = 0" by auto
  then show ?thesis
  proof cases
    case 1
    then have "0 < segs (L1 l)" by (simp add: segs_def)
    then show ?thesis
      using peek_all_of_it [OF i1 1, of p] i0
      by (auto simp: peek_all_def peek_None loggers_inv_def log_contents_def)
  next
    case 2
    then have "0 < segs (L0 l)" "segs (L1 l) = 0" by (simp_all add: segs_def)
    then show ?thesis
      using peek_all_of_it [OF i0 2(2), of p] i1 2 empty [of "L1 l"]
      by (auto simp: peek_all_def loggers_inv_def log_contents_def)
  next
    case 3
    then show ?thesis
      using inv by (auto simp: peek_all_def empty log_contents_def segs_def)
  qed
qed

lemma flush_rounds_drain:
  assumes "loggers_inv l" "segs (L1 l) + segs (L0 l) \<le> k"
  shows "p = Dev \<and> flush_rounds k p m l = Panic \<or>
    (\<exists>l'. flush_rounds k p m l = Ok (l', log_contents l) \<and> loggers_inv l' \<and> log_contents l' = [])"
  using assms
proof (induction k arbitrary: l)
  case 0
  then show ?case by (auto simp: segs_zero_iff log_contents_def)
next
  case (Suc k)
  from peek_all_round [OF Suc.prems(1), of p m] show ?case
  proof (elim disjE exE conjE)
    fix l' out
    assume r: "peek_all p True m l length = Ok (l', out)" "loggers_inv l'"
      "log_contents l = out @ log_contents l'"
      "segs (L1 l') + segs (L0 l') = segs (L1 l) + segs (L0 l) - 1"
    then have "segs (L1 l') + segs (L0 l') \<le> k" using Suc.prems(2) by linarith
    from Suc.IH [OF r(2) this] show ?thesis using r by auto
  qed auto
qed

section \<open>The logger as a byte queue\<close>

text \<open>
  What the users of a logger rely on: an invariant, the queue it stands for, a push that
  appends whatever fits, and a peek that shows a prefix and drops what was consumed.
\<close>

locale byte_queue =
  fixes enq :: "'q \<Rightarrow> bytes \<Rightarrow> (unit, 'q) outcome"
    and view :: "'q \<Rightarrow> (bytes \<Rightarrow> nat) \<Rightarrow> (unit, 'q \<times> bytes) outcome"
    and abs :: "'q \<Rightarrow> bytes"
    and inv :: "'q \<Rightarrow> bool"
    and room :: "'q \<Rightarrow> nat \<Rightarrow> bool"
  assumes enq_abs: "inv q \<Longrightarrow> room q (length bs) \<Longrightarrow> enq q bs = Ok q' \<Longrightarrow> abs q' = abs q @ bs"
    and enq_inv: "inv q \<Longrightarrow> enq q bs = Ok q' \<Longrightarrow> inv q'"
    and view_abs: "inv q \<Longrightarrow> view q f = Ok (q', sh) \<Longrightarrow>
      sh = take (length sh) (abs q) \<and> abs q' = drop (min (f sh) (length sh)) (abs q)"
    and view_inv: "inv q \<Longrightarrow> view q f = Ok (q', sh) \<Longrightarrow> inv q'"
begin

text \<open>Bytes that a reader accepts are the oldest ones, and none is lost or repeated.\<close>

lemma view_split:
  assumes "inv q" "view q f = Ok (q', sh)" "f sh \<le> length sh"
  shows "abs q = take (f sh) sh @ abs q'"
proof -
  have "take (f sh) (abs q) = take (f sh) sh"
    using view_abs [OF assms(1,2)] assms(3) by (metis min.absorb1 take_take)
  then show ?thesis
    using view_abs [OF assms(1,2)] assms(3) by (metis append_take_drop_id min.absorb1)
qed

lemma enq_view_order:
  assumes "inv q" "room q (length bs)" "enq q bs = Ok q'" "view q' f = Ok (q'', sh)"
  shows "abs q'' = drop (min (f sh) (length sh)) (abs q @ bs)"
  using assms enq_abs enq_inv view_abs by metis

end

definition ring_view :: "profile \<Rightarrow> buffer \<Rightarrow> (bytes \<Rightarrow> nat) \<Rightarrow> (unit, buffer \<times> bytes) outcome" where
  "ring_view p b f = obind (peek p b (Some f)) (\<lambda>(b', sh, _). Ok (b', sh))"

interpretation ring: byte_queue "push p" "ring_view p" contents ring_inv fits for p
proof unfold_locales
  fix q f q' sh
  assume inv: "ring_inv q" and ok: "ring_view p q f = Ok (q', sh)"
  then obtain fo where "peek p q (Some f) = Ok (q', sh, fo)"
    by (auto simp: ring_view_def obind_Ok_iff)
  note * = peek_shown [OF inv this]
  show "sh = take (length sh) (contents q) \<and> contents q' = drop (min (f sh) (length sh)) (contents q)"
    using *(1,2) by (simp add: min_def)
  show "ring_inv q'" by (rule *(3))
qed (auto intro: push_contents push_ring_inv)

section \<open>Properties\<close>

lemma push_Release_Ok:
  "ring_inv b \<Longrightarrow> pending b + length bs \<le> cap b \<Longrightarrow> \<exists>b'. push Release b bs = Ok b'"
  using diff_le_mono [of "pending b + length bs" "cap b" "pending b"]
  by (simp add: push_def free_space prof_add_def Let_def)



text \<open>
  Where a push wraps and the part before the end of the ring is less than half of its
  bytes, the split copy runs past the buffer: the source takes \<^verbatim>\<open>cursor + n - cap\<close> for the
  length of the first part, which is the length of the second. Exactly the bytes of memory
  between \<open>cap\<close> and \<open>2 * cursor + n - cap\<close> behind the buffer are overwritten.
\<close>

lemma push_overrun:
  assumes "ring_inv b" "push p b bs = Ok b'" "2 * (cap b - cursor b) < length bs"
  shows "cap b < 2 * cursor b + length bs - cap b \<and>
    (\<forall>i. cap b \<le> i \<longrightarrow> mem b' i =
       (if i < 2 * cursor b + length bs - cap b then bs ! (i - cursor b) else mem b i))"
proof -
  have lt: "cursor b < cap b" using assms(1) by (simp add: cursor_def ring_inv_def)
  then show ?thesis
    using push_Ok [OF assms(1,2)] assms(3) by (auto simp: copy_to_def)
qed

lemma push_overrun_witness:
  "\<exists>b'. push Dev \<lparr>mem = \<lambda>_. 0, cap = 8, read_pos = 6, write_pos = 6\<rparr> [1, 2, 3, 4, 5] = Ok b' \<and>
     mem b' 8 = 3"
proof -
  let ?b = "\<lparr>mem = \<lambda>_. 0, cap = 8, read_pos = 6, write_pos = 6\<rparr>"
  have i: "ring_inv ?b" by (simp add: ring_inv_def pending_def)
  obtain b' where ok: "push Dev ?b [1, 2, 3, 4, 5] = Ok b'"
    by (simp add: push_def prof_add_def checked_add_def Let_def)
  have "mem b' 8 = 3" using push_overrun [OF i ok] by (simp add: cursor_def)
  with ok show ?thesis by blast
qed

text \<open>
  The four rounds of \<^verbatim>\<open>memlog_flush_and_reset\<close> are enough: whatever the two loggers
  hold, wrapped or not, is printed completely, interrupt messages first, each buffer in
  order, and both are empty afterwards. In the dev profile the alternative is an overflow
  panic of a position counter.
\<close>

lemma memlog_flush_drains:
  assumes "loggers_inv l"
  shows "p = Dev \<and> memlog_flush p m l = Panic \<or>
    (\<exists>l'. memlog_flush p m l = Ok (l', contents (L1 l) @ contents (L0 l)) \<and>
       contents (L1 l') = [] \<and> contents (L0 l') = [])"
proof -
  have "segs (L1 l) + segs (L0 l) \<le> 4" by (simp add: segs_def)
  from flush_rounds_drain [OF assms this, of p m] show ?thesis
    by (auto simp: memlog_flush_def log_contents_def)
qed

lemma memlog_flush_drains_witness:
  "\<exists>l'. memlog_flush Release True
      \<lparr>L0 = \<lparr>mem = (\<lambda>_. 0)(7 := 1, 0 := 2), cap = 8, read_pos = 7, write_pos = 9\<rparr>,
       L1 = \<lparr>mem = (\<lambda>_. 0)(0 := 5), cap = 8, read_pos = 0, write_pos = 1\<rparr>\<rparr> = Ok (l', [5, 1, 2])"
proof -
  let ?l = "\<lparr>L0 = \<lparr>mem = (\<lambda>_. 0 :: u8)(7 := 1, 0 := 2), cap = 8, read_pos = 7, write_pos = 9\<rparr>,
       L1 = \<lparr>mem = (\<lambda>_. 0)(0 := 5), cap = 8, read_pos = 0, write_pos = 1\<rparr>\<rparr>"
  have "loggers_inv ?l" by (simp add: loggers_inv_def ring_inv_def pending_def)
  moreover have "contents (L1 ?l) @ contents (L0 ?l) = [5, 1, 2]"
    by (simp add: contents_def pending_def upt_rec)
  ultimately show ?thesis using memlog_flush_drains [of ?l Release True] by auto
qed

text \<open>
  C8. A peek shows the closure bytes of the queue and consumes only what the closure reports:
  with an honest report the accepted bytes followed by what is left are exactly the queue
  before, so a slow serial port loses and repeats nothing.
\<close>

theorem peek_lossless:
  assumes "ring_inv b" "ring_view p b f = Ok (b', sh)" "f sh \<le> length sh"
  shows "contents b = take (f sh) sh @ contents b' \<and> ring_inv b'"
  using ring.view_split [OF assms] ring.view_inv [OF assms(1,2)] by blast

theorem peek_lossless_witness:
  "\<exists>b' sh. ring_view Release \<lparr>mem = (\<lambda>_. 7), cap = 8, read_pos = 0, write_pos = 3\<rparr> (\<lambda>_. 2) = Ok (b', sh) \<and>
     contents \<lparr>mem = (\<lambda>_. 7), cap = 8, read_pos = 0, write_pos = 3\<rparr> = take 2 sh @ contents b'"
proof -
  let ?b = "\<lparr>mem = (\<lambda>_. 7), cap = 8, read_pos = 0, write_pos = 3\<rparr>"
  have i: "ring_inv ?b" by (simp add: ring_inv_def pending_def)
  have ok: "ring_view Release ?b (\<lambda>_. 2) = Ok (?b\<lparr>read_pos := 2\<rparr>, [7, 7, 7])"
    by (simp add: ring_view_def peek_def prof_add_def Let_def read_from_def upt_rec)
  show ?thesis using ok peek_lossless [OF i ok] by auto
qed

end
