(* ===== verification/Serial.thy ===== *)
theory Serial
  imports Memlog Gic Clock
begin

text \<open>
  \<^verbatim>\<open>firmware/usbarmory/src/serial.rs\<close>, \<^verbatim>\<open>led.rs\<close> and \<^verbatim>\<open>lib.rs\<close>: the serial port, the LEDs, and how the in-memory
  logger is emptied over the serial port. (Taking and releasing the handles is in theory Handle.)
\<close>

section \<open>The serial port\<close>

definition UART_USR1_TRDY :: u32 where "UART_USR1_TRDY = push_bit 13 1"
definition UART_USR1_RRDY :: u32 where "UART_USR1_RRDY = push_bit 9 1"
definition UART_USR2_TXDC :: u32 where "UART_USR2_TXDC = push_bit 3 1"

definition serial_flush :: "hw \<Rightarrow> ('e, unit) io" where
  "serial_flush hw = await hw (Uart USR2) (\<lambda>v. v AND UART_USR2_TXDC \<noteq> 0)"

definition serial_listen :: "hw \<Rightarrow> ('e, unit) io" where
  "serial_listen hw = abind (rd hw (Uart UCR2)) (\<lambda>old. wr (Uart UCR1) (old OR push_bit 9 1))"

definition serial_try_read :: "hw \<Rightarrow> ('e, u8 option) io" where
  "serial_try_read hw =
     abind (rd hw (Uart USR1)) (\<lambda>s.
     if s AND UART_USR1_RRDY = 0 then aret None
     else abind (rd hw (Uart URXD)) (\<lambda>v. aret (Some (ucast v))))"

text \<open>\<^verbatim>\<open>try_write_all\<close>, with the number of bytes written so far.\<close>

fun try_write_from :: "hw \<Rightarrow> bytes \<Rightarrow> nat \<Rightarrow> ('e, nat) io" where
  "try_write_from hw [] n = aret n"
| "try_write_from hw (b # bs) n =
     abind (rd hw (Uart USR1)) (\<lambda>s.
     if s AND UART_USR1_TRDY = 0 then aret n
     else abind (wr (Uart UTXD) (ucast b)) (\<lambda>_. try_write_from hw bs (n + 1)))"

definition try_write_all :: "hw \<Rightarrow> bytes \<Rightarrow> ('e, nat) io" where
  "try_write_all hw bs = try_write_from hw bs 0"

definition serial_write :: "hw \<Rightarrow> u8 \<Rightarrow> ('e, unit) io" where
  "serial_write hw b =
     abind (await hw (Uart USR1) (\<lambda>s. s AND UART_USR1_TRDY \<noteq> 0)) (\<lambda>_. wr (Uart UTXD) (ucast b))"

definition write_all :: "hw \<Rightarrow> bytes \<Rightarrow> ('e, unit) io" where
  "write_all hw bs = afor bs (serial_write hw)"

text \<open>What was sent over the port, the oldest byte first.\<close>

fun uart_sent :: "trace \<Rightarrow> bytes" where
  "uart_sent [] = []"
| "uart_sent (Wr (Uart UTXD) v # tr) = uart_sent tr @ [ucast v]"
| "uart_sent (_ # tr) = uart_sent tr"

lemma sent_effects: "uart_sent (effects tr) = uart_sent tr"
  by (induction tr rule: uart_sent.induct) auto

lemma silent_sent: "silent m \<Longrightarrow> m tr = (r, tr') \<Longrightarrow> uart_sent tr' = uart_sent tr"
  by (metis silentD sent_effects)

lemma sent_wr [simp]: "uart_sent (Wr r v # tr) = (if r = Uart UTXD then uart_sent tr @ [ucast v] else uart_sent tr)"
  by (cases "(Wr r v # tr)" rule: uart_sent.cases) auto

lemma sent_rd [simp]: "uart_sent (Rd r v # tr) = uart_sent tr"
  by simp

lemma ucast_byte: "ucast (ucast (b :: u8) :: u32) = b"
  by (rule bit_word_eqI) (auto simp: bit_simps)

lemma try_write_from_result:
  "\<exists>k tr'. (try_write_from hw bs n tr :: ('e, nat) outcome \<times> trace) = (Ok (n + k), tr') \<and> k \<le> length bs \<and>
     uart_sent tr' = uart_sent tr @ take k bs"
proof (induction bs arbitrary: n tr)
  case (Cons b bs)
  let ?s = "answer hw tr (Uart USR1)"
  let ?tr = "Wr (Uart UTXD) (ucast b) # Rd (Uart USR1) ?s # tr"
  show ?case
  proof (cases "?s AND UART_USR1_TRDY = 0")
    case True
    then show ?thesis by (auto simp: rd_def abind_def intro!: exI [of _ 0])
  next
    case False
    obtain k tr' where IH: "(try_write_from hw bs (n + 1) ?tr :: ('e, nat) outcome \<times> trace) = (Ok (n + 1 + k), tr')"
        "k \<le> length bs" "uart_sent tr' = uart_sent ?tr @ take k bs"
      using Cons by blast
    then have "(try_write_from hw (b # bs) n tr :: ('e, nat) outcome \<times> trace) = (Ok (n + Suc k), tr')"
      using False by (simp add: rd_def wr_def abind_def)
    moreover have "uart_sent tr' = uart_sent tr @ take (Suc k) (b # bs)" using IH(3) by (simp add: ucast_byte)
    ultimately show ?thesis using IH(2) by (metis Suc_le_mono length_Cons)
  qed
qed auto

lemma serial_write_sent:
  assumes "(serial_write hw b tr :: ('e, unit) outcome \<times> trace) = (Ok (), tr')"
  shows "uart_sent tr' = uart_sent tr @ [b]"
proof -
  from assms obtain tr1 where aw: "(await hw (Uart USR1) (\<lambda>s. s AND UART_USR1_TRDY \<noteq> 0) tr :: ('e, unit) outcome \<times> trace) = (Ok (), tr1)"
      and tr': "tr' = Wr (Uart UTXD) (ucast b) # tr1"
    by (auto simp: serial_write_def abind_Ok_iff wr_def)
  show ?thesis using silent_sent [OF silent_await aw] tr' by (simp add: ucast_byte)
qed

lemma write_all_sent:
  "(write_all hw bs tr :: ('e, unit) outcome \<times> trace) = (Ok (), tr') \<Longrightarrow> uart_sent tr' = uart_sent tr @ bs"
proof (induction bs arbitrary: tr)
  case (Cons b bs)
  then obtain tr1 where "(serial_write hw b tr :: ('e, unit) outcome \<times> trace) = (Ok (), tr1)"
      "(write_all hw bs tr1 :: ('e, unit) outcome \<times> trace) = (Ok (), tr')"
    by (auto simp: write_all_def abind_Ok_iff)
  then show ?case using Cons.IH serial_write_sent by fastforce
qed (simp add: write_all_def)

text \<open>The only ways \<^verbatim>\<open>write_all\<close> can end: it returns, or the transmitter never becomes ready.\<close>

lemma await_results: "(await hw r p tr :: ('e, unit) outcome \<times> trace) = (res, tr') \<Longrightarrow> res = Ok () \<or> res = Hang"
proof -
  assume a: "(await hw r p tr :: ('e, unit) outcome \<times> trace) = (res, tr')"
  show ?thesis
  proof (cases "res = Hang")
    case False
    from a [unfolded await_def] False show ?thesis
      by (rule aloop_last [where P = "\<lambda>_ _. True"]) (auto simp: abind_def rd_def split: if_splits)
  qed simp
qed

lemma write_all_results:
  "(write_all hw bs tr :: ('e, unit) outcome \<times> trace) = (res, tr') \<Longrightarrow> res = Ok () \<or> res = Hang"
proof (induction bs arbitrary: tr)
  case (Cons b bs)
  obtain r1 tr1 where aw: "(await hw (Uart USR1) (\<lambda>s. s AND UART_USR1_TRDY \<noteq> 0) tr :: ('e, unit) outcome \<times> trace) = (r1, tr1)"
    by fastforce
  show ?case
    using await_results [OF aw] Cons by (auto simp: write_all_def serial_write_def abind_def aw wr_def)
qed (simp add: write_all_def)

section \<open>The LEDs\<close>

text \<open>Both LEDs are on when their bit is clear; the data register also has pins that are not LEDs.\<close>

definition BLUE :: u32 where "BLUE = push_bit 22 1"
definition WHITE :: u32 where "WHITE = push_bit 21 1"

definition led_off :: "hw \<Rightarrow> u32 \<Rightarrow> ('e, unit) io" where
  "led_off hw led = abind (rd hw (Gpio GPIO_DR)) (\<lambda>old. wr (Gpio GPIO_DR) (old OR led))"

definition led_on :: "hw \<Rightarrow> u32 \<Rightarrow> ('e, unit) io" where
  "led_on hw led = abind (rd hw (Gpio GPIO_DR)) (\<lambda>old. wr (Gpio GPIO_DR) (old AND NOT led))"

definition led_toggle :: "hw \<Rightarrow> u32 \<Rightarrow> ('e, unit) io" where
  "led_toggle hw led =
     abind (rd hw (Gpio GPIO_DR)) (\<lambda>old.
     if old AND led = 0 then wr (Gpio GPIO_DR) (old OR led) else wr (Gpio GPIO_DR) (old AND NOT led))"

lemma led_bits:
  assumes "led = BLUE \<or> led = WHITE"
  shows "led_toggle hw led tr =
    (Ok (), Wr (Gpio GPIO_DR) (answer hw tr (Gpio GPIO_DR) XOR led) # Rd (Gpio GPIO_DR) (answer hw tr (Gpio GPIO_DR)) # tr)"
proof -
  obtain n where n: "led = push_bit n 1" using assms unfolding BLUE_def WHITE_def by blast
  have bit_led: "bit led i \<longleftrightarrow> i = n \<and> i < 32" for i
    unfolding n by (auto simp: bit_exp_iff)
  have "(if old AND led = 0 then old OR led else old AND NOT led) = old XOR led" for old :: u32
  proof (cases "bit old n")
    case True
    then have "old AND led \<noteq> 0" unfolding n and_push_bit_test .
    moreover have "old AND NOT led = old XOR led"
      using True by (intro bit_word_eqI) (auto simp: bit_and_iff bit_not_iff bit_xor_iff bit_led)
    ultimately show ?thesis by simp
  next
    case False
    then have "old AND led = 0" using and_push_bit_test [of old n] unfolding n by blast
    moreover have "old OR led = old XOR led" using False by (intro bit_word_eqI) (auto simp: bit_or_iff bit_xor_iff bit_led)
    ultimately show ?thesis by simp
  qed
  then show ?thesis by (simp add: led_toggle_def rd_def wr_def abind_def split: if_splits) metis
qed

section \<open>Emptying the logger\<close>

text \<open>
  \<^verbatim>\<open>Buffer::peek\<close> with a closure that accesses the hardware (theory Memlog has it for a pure one); the
  second result is whether the closure is still there.
\<close>

definition peek_io ::
  "profile \<Rightarrow> buffer \<Rightarrow> (bytes \<Rightarrow> (unit, nat) io) \<Rightarrow> bool \<Rightarrow> (unit, buffer \<times> bool) io" where
  "peek_io p b f unused =
     (let n = min (unat (write_pos b - read_pos b)) (cap b - unat (read_pos b) mod cap b);
          cursor = unat (read_pos b) mod cap b
      in if n \<noteq> 0 then
           (if unused then
              abind (f (read_from (mem b) cursor n)) (\<lambda>bytes_read.
              abind (alift (prof_add p (read_pos b) (of_nat (min bytes_read n)))) (\<lambda>r.
              aret (b\<lparr>read_pos := r\<rparr>, False)))
            else aret (b, False))
         else aret (b, unused))"

definition in_main :: "hw \<Rightarrow> (unit, bool) io" where
  "in_main hw = abind (gic_read hw gicc ''RPR'' 0) (\<lambda>v. aret (v = 0xFF))"

definition peek_loggers ::
  "hw \<Rightarrow> profile \<Rightarrow> bool \<Rightarrow> (bytes \<Rightarrow> (unit, nat) io) \<Rightarrow> loggers \<Rightarrow> (unit, loggers) io" where
  "peek_loggers hw p all f l =
     abind (if all then aret True else in_main hw) (\<lambda>go.
     if go then
       abind (peek_io p (L1 l) f True) (\<lambda>(b1, unused).
       abind (peek_io p (L0 l) f unused) (\<lambda>(b0, _). aret (l\<lparr>L1 := b1, L0 := b0\<rparr>)))
     else aret l)"

definition memlog_try_flush :: "hw \<Rightarrow> profile \<Rightarrow> loggers \<Rightarrow> (unit, loggers) io" where
  "memlog_try_flush hw p l =
     abind (in_main hw) (\<lambda>main.
     if main then peek_loggers hw p False (try_write_all hw) l else aret l)"

definition WDOG_WCR_SRS :: u32 where "WDOG_WCR_SRS = push_bit 4 1"

text \<open>\<^verbatim>\<open>reset\<close> waits for the watchdog in a loop without end.\<close>

definition soc_reset :: "hw \<Rightarrow> (unit, 'a) io" where
  "soc_reset hw =
     abind (rd hw (Soc WCR)) (\<lambda>old.
     abind (wr (Soc WCR) (old AND NOT WDOG_WCR_SRS)) (\<lambda>_. alift Reset))"

fun flush_times :: "nat \<Rightarrow> hw \<Rightarrow> profile \<Rightarrow> loggers \<Rightarrow> (unit, loggers) io" where
  "flush_times 0 hw p l = aret l"
| "flush_times (Suc k) hw p l =
     abind (peek_loggers hw p True (\<lambda>s. abind (write_all hw s) (\<lambda>_. aret (length s))) l) (flush_times k hw p)"

definition char_bytes :: "string \<Rightarrow> bytes" where
  "char_bytes = map of_char"

text \<open>Decimal digits, as \<^verbatim>\<open>write!\<close> prints a number.\<close>

fun decimal :: "nat \<Rightarrow> bytes" where
  "decimal n = (if n < 10 then [48 + of_nat n] else decimal (n div 10) @ [48 + of_nat (n mod 10)])"

declare decimal.simps [simp del]

definition memlog_flush_and_reset :: "hw \<Rightarrow> profile \<Rightarrow> bytes \<Rightarrow> u32 \<Rightarrow> loggers \<Rightarrow> (unit, 'a) io" where
  "memlog_flush_and_reset hw p file line l =
     abind (flush_times 4 hw p l) (\<lambda>_.
     abind (afor [[10, 13] @ char_bytes ''memlog_flush_and_reset @ '', file, char_bytes '':'', decimal (unat line), [10, 13]]
       (write_all hw)) (\<lambda>_.
     abind (serial_flush hw) (\<lambda>_.
     soc_reset hw)))"

text \<open>The macro \<^verbatim>\<open>memlog!\<close>: log a line, then try to send some of the log.\<close>

definition memlog_line :: "hw \<Rightarrow> profile \<Rightarrow> bytes \<Rightarrow> loggers \<Rightarrow> (unit, loggers) io" where
  "memlog_line hw p s l =
     abind (in_main hw) (\<lambda>main.
     abind (alift (log p main l (s @ [10]))) (memlog_try_flush hw p))"

section \<open>Limiting the time of a closure\<close>

definition debug_timebox :: "hw \<Rightarrow> profile \<Rightarrow> duration \<Rightarrow> ('e, 'a) io \<Rightarrow> ('e, 'a) io" where
  "debug_timebox hw p timeout f =
     (case p of
        Release \<Rightarrow> f
      | Dev \<Rightarrow>
          abind (instant_now hw) (\<lambda>start.
          abind f (\<lambda>r.
          abind (instant_now hw) (\<lambda>finish.
          abind (alift (duration_since finish start)) (\<lambda>d.
          abind (alift (oassert (d < timeout))) (\<lambda>_. aret r))))))"

end
