(* ===== verification/SerialProps.thy ===== *)
theory SerialProps
  imports Serial
begin

text \<open>
  What emptying the logger over the serial port guarantees: nothing is lost or sent twice, the flush outside
  of a reset never waits, and the one before a reset sends everything.
\<close>

section \<open>One buffer\<close>

text \<open>
  A closure that sends a prefix of what it is shown and reports its length (a full one all of it), or waits
  forever if it may. The transmitter is always ready when it never makes the firmware wait.
\<close>

definition uart_ready :: "hw \<Rightarrow> bool" where
  "uart_ready hw \<longleftrightarrow> (\<forall>tr. answer hw tr (Uart USR1) AND UART_USR1_TRDY \<noteq> 0 \<and> answer hw tr (Uart USR2) AND UART_USR2_TXDC \<noteq> 0)"

lemma write_all_ready:
  assumes "uart_ready hw" "(write_all hw bs tr :: ('e, unit) outcome \<times> trace) = (r, tr')"
  shows "r = Ok ()"
  using assms(2)
proof (induction bs arbitrary: tr)
  case (Cons b bs)
  then show ?case
    using assms(1) by (simp add: write_all_def serial_write_def await_now uart_ready_def abind_def wr_def)
qed (simp add: write_all_def)

definition reader :: "bool \<Rightarrow> bool \<Rightarrow> (bytes \<Rightarrow> (unit, nat) io) \<Rightarrow> bool" where
  "reader full may f \<longleftrightarrow> (\<forall>s tr. \<exists>r tr1. f s tr = (r, tr1) \<and>
     (case r of Ok k \<Rightarrow> k \<le> length s \<and> (full \<longrightarrow> k = length s) \<and> uart_sent tr1 = uart_sent tr @ take k s
      | _ \<Rightarrow> may \<and> r = Hang))"

lemma reader_try: "reader False False (try_write_all hw)"
  unfolding reader_def try_write_all_def
proof (intro allI)
  fix s tr
  obtain k tr' where "(try_write_from hw s 0 tr :: (unit, nat) outcome \<times> trace) = (Ok (0 + k), tr')"
      "k \<le> length s" "uart_sent tr' = uart_sent tr @ take k s"
    using try_write_from_result by blast
  then show "\<exists>r tr1. (try_write_from hw s 0 tr :: (unit, nat) outcome \<times> trace) = (r, tr1) \<and>
     (case r of Ok k \<Rightarrow> k \<le> length s \<and> (False \<longrightarrow> k = length s) \<and> uart_sent tr1 = uart_sent tr @ take k s
      | _ \<Rightarrow> False \<and> r = Hang)"
    by (intro exI [of _ "Ok k"] exI [of _ tr']) simp
qed

lemma reader_all: "reader True (\<not> uart_ready hw) (\<lambda>s. abind (write_all hw s) (\<lambda>_. aret (length s)))"
  unfolding reader_def
proof (intro allI)
  fix s tr
  obtain r tr1 where w: "(write_all hw s tr :: (unit, unit) outcome \<times> trace) = (r, tr1)" by fastforce
  show "\<exists>r tr1. abind (write_all hw s) (\<lambda>_. aret (length s)) tr = (r :: (unit, nat) outcome, tr1) \<and>
     (case r of Ok k \<Rightarrow> k \<le> length s \<and> (True \<longrightarrow> k = length s) \<and> uart_sent tr1 = uart_sent tr @ take k s
      | _ \<Rightarrow> \<not> uart_ready hw \<and> r = Hang)"
    using write_all_results [OF w] write_all_ready [OF _ w] write_all_sent [of hw s tr tr1] w by (auto simp: abind_def)
qed

lemma peek_io_skip:
  "pending b = 0 \<Longrightarrow> peek_io p b f u = aret (b, u)" "peek_io p b f False = aret (b, False)"
  by (simp_all add: peek_io_def pending_def Let_def)

lemma peek_io_eq:
  assumes "ring_inv b" "0 < pending b" "f (take (seg b) (contents b)) tr = (Ok k, tr1)"
  shows "peek_io p b f True tr = (obind (peek p b (Some (\<lambda>_. k))) (\<lambda>(b', _, _). Ok (b', False)), tr1)"
proof -
  have "unat (read_pos b) mod cap b < cap b" using assms(1) by (simp add: ring_inv_def)
  then have "seg b \<noteq> 0" using assms(2) by (simp add: seg_def)
  then show ?thesis
    using assms(3)
    by (cases "prof_add p (read_pos b) (of_nat (min k (seg b))) :: (unit, u32) outcome")
      (simp_all add: peek_io_def peek_def Let_def pending_def [symmetric] seg_def [symmetric] shown_eq abind_def)
qed

lemma peek_io_stop:
  assumes "ring_inv b" "0 < pending b" "f (take (seg b) (contents b)) tr = (Hang, tr1)"
  shows "peek_io p b f True tr = (Hang, tr1)"
proof -
  have "unat (read_pos b) mod cap b < cap b" using assms(1) by (simp add: ring_inv_def)
  then have "seg b \<noteq> 0" using assms(2) by (simp add: seg_def)
  then show ?thesis
    using assms(3)
    by (simp add: peek_io_def Let_def pending_def [symmetric] seg_def [symmetric] shown_eq abind_def)
qed

text \<open>What is sent and what is still in the buffer are together what was there before.\<close>

definition passed_on :: "bool \<Rightarrow> profile \<Rightarrow> ('a \<Rightarrow> bytes \<Rightarrow> bool) \<Rightarrow> bytes \<Rightarrow> (unit, 'a) outcome \<times> trace \<Rightarrow> bool" where
  "passed_on may p Q before = (\<lambda>(r, tr).
     case r of Ok x \<Rightarrow> \<exists>left. Q x left \<and> uart_sent tr @ left = before
     | _ \<Rightarrow> r = Hang \<and> may \<or> r = Panic \<and> p = Dev)"

lemma peek_io_passes:
  assumes f: "reader full may f" and inv: "ring_inv b" and ne: "0 < pending b"
  shows "passed_on may p (\<lambda>(b', u) left. \<not> u \<and> ring_inv b' \<and> left = contents b' \<and> (full \<longrightarrow> segs b' = segs b - 1))
    (uart_sent tr @ contents b) (peek_io p b f True tr)"
proof -
  let ?s = "take (seg b) (contents b)"
  obtain r tr1 where r: "f ?s tr = (r, tr1)"
      "case r of Ok k \<Rightarrow> k \<le> length ?s \<and> (full \<longrightarrow> k = length ?s) \<and> uart_sent tr1 = uart_sent tr @ take k ?s
       | _ \<Rightarrow> may \<and> r = Hang"
    using f unfolding reader_def by blast
  show ?thesis
  proof (cases r)
    case (Ok k)
    then have k: "k \<le> seg b" "full \<Longrightarrow> k = seg b" "uart_sent tr1 = uart_sent tr @ take k (contents b)"
      using r(2) by (auto simp: min_absorb2)
    note eq = peek_io_eq [OF inv ne, of f tr k tr1 p]
    show ?thesis
      using inv
    proof (cases rule: peek_Some_cases [where p = p and f = "\<lambda>_. k"])
      case (shown k')
      then have k': "k' = k" using k(1) by simp
      let ?b = "b\<lparr>read_pos := read_pos b + of_nat k\<rparr>"
      have "k \<le> pending b" using k(1) seg_le [of b] by linarith
      note adv = advance_contents [OF inv this]
      have "full \<Longrightarrow> segs ?b = segs b - 1"
      proof -
        assume full
        then have "peek p b (Some length) = Ok (?b, ?s, None)"
          using shown(3) k(2) k' by (simp add: peek_def Let_def shown_eq split: if_splits)
            (simp add: pending_def [symmetric] seg_def [symmetric] read_from_def obind_Ok_iff)
        then show ?thesis using peek_all_of_it [OF inv ne, of p] by auto
      qed
      then show ?thesis
        using eq r(1) Ok shown(3) k' k(3) adv(2,3) by (auto simp: passed_on_def)
    qed (use eq r(1) Ok ne in \<open>auto simp: passed_on_def\<close>)
  next
    case Hang
    then show ?thesis using peek_io_stop [OF inv ne, of f tr tr1] r by (simp add: passed_on_def)
  qed (use r(2) in auto)
qed

section \<open>Both loggers\<close>

lemma passed_on_Ok: "passed_on may p Q before (Ok x, tr) \<longleftrightarrow> (\<exists>left. Q x left \<and> uart_sent tr @ left = before)"
  by (simp add: passed_on_def)

lemma passed_on_stop: "passed_on may p Q before (r, tr) \<Longrightarrow> (\<And>x. r \<noteq> Ok x) \<Longrightarrow> r = Hang \<and> may \<or> r = Panic \<and> p = Dev"
  by (cases r) (auto simp: passed_on_def)

definition loggers_round :: "profile \<Rightarrow> (bytes \<Rightarrow> (unit, nat) io) \<Rightarrow> loggers \<Rightarrow> (unit, loggers) io" where
  "loggers_round p f l =
     abind (peek_io p (L1 l) f True) (\<lambda>(b1, unused).
     abind (peek_io p (L0 l) f unused) (\<lambda>(b0, _). aret (l\<lparr>L1 := b1, L0 := b0\<rparr>)))"

lemma loggers_round_passes:
  assumes f: "reader full may f" and inv: "loggers_inv l"
  shows "passed_on may p (\<lambda>l' left. loggers_inv l' \<and> left = log_contents l' \<and>
      (full \<longrightarrow> segs (L1 l') + segs (L0 l') = segs (L1 l) + segs (L0 l) - 1))
    (uart_sent tr @ log_contents l) (loggers_round p f l tr)"
proof -
  have i1: "ring_inv (L1 l)" and i0: "ring_inv (L0 l)" using inv by (simp_all add: loggers_inv_def)
  consider "0 < pending (L1 l)" | "pending (L1 l) = 0" "0 < pending (L0 l)"
    | "pending (L1 l) = 0" "pending (L0 l) = 0" by auto
  then show ?thesis
  proof cases
    case 1
    then have seg: "0 < segs (L1 l)" by (simp add: segs_def)
    obtain r tr1 where r: "peek_io p (L1 l) f True tr = (r, tr1)" by fastforce
    note P = peek_io_passes [OF f i1 1, of p tr, unfolded r]
    show ?thesis
    proof (cases r)
      case (Ok x)
      obtain b u where x: "x = (b, u)" by fastforce
      then have b: "\<not> u" "ring_inv b" "uart_sent tr1 @ contents b = uart_sent tr @ contents (L1 l)"
          "full \<Longrightarrow> segs b = segs (L1 l) - 1"
        using P Ok by (auto simp: passed_on_Ok)
      have "loggers_round p f l tr = (Ok (l\<lparr>L1 := b\<rparr>), tr1)"
        using r Ok x b(1) by (simp add: loggers_round_def peek_io_skip(2) abind_def)
      then show ?thesis using b i0 seg by (simp add: passed_on_Ok loggers_inv_def log_contents_def)
    qed (use passed_on_stop [OF P] r in \<open>auto simp: loggers_round_def abind_def passed_on_def\<close>)
  next
    case 2
    then have seg: "0 < segs (L0 l)" "segs (L1 l) = 0" by (simp_all add: segs_def)
    obtain r tr1 where r: "peek_io p (L0 l) f True tr = (r, tr1)" by fastforce
    note P = peek_io_passes [OF f i0 2(2), of p tr, unfolded r]
    show ?thesis
    proof (cases r)
      case (Ok x)
      obtain b u where x: "x = (b, u)" by fastforce
      then have b: "\<not> u" "ring_inv b" "uart_sent tr1 @ contents b = uart_sent tr @ contents (L0 l)"
          "full \<Longrightarrow> segs b = segs (L0 l) - 1"
        using P Ok by (auto simp: passed_on_Ok)
      have "loggers_round p f l tr = (Ok (l\<lparr>L0 := b\<rparr>), tr1)"
        using r Ok x b(1) 2(1) by (simp add: loggers_round_def peek_io_skip(1) abind_def)
      then show ?thesis using b i1 seg 2(1) by (simp add: passed_on_Ok loggers_inv_def log_contents_def)
    qed (use passed_on_stop [OF P] r 2(1) in
        \<open>auto simp: loggers_round_def peek_io_skip(1) abind_def passed_on_def\<close>)
  next
    case 3
    then have "loggers_round p f l tr = (Ok l, tr)"
      by (simp add: loggers_round_def peek_io_skip(1) abind_def)
    then show ?thesis using 3 inv by (simp add: passed_on_Ok segs_def)
  qed
qed

lemma flush_times_passes:
  assumes "loggers_inv l" "segs (L1 l) + segs (L0 l) \<le> k"
  shows "passed_on (\<not> uart_ready hw) p (\<lambda>l' left. left = [] \<and> log_contents l' = []) (uart_sent tr @ log_contents l)
    (flush_times k hw p l tr)"
  using assms
proof (induction k arbitrary: l tr)
  case 0
  then show ?case by (auto simp: passed_on_Ok segs_zero_iff log_contents_def)
next
  case (Suc k)
  let ?f = "\<lambda>s. abind (write_all hw s) (\<lambda>_. aret (length s)) :: (unit, nat) io"
  have step: "peek_loggers hw p True ?f l = loggers_round p ?f l"
    by (simp add: peek_loggers_def loggers_round_def)
  obtain r tr1 where r: "loggers_round p ?f l tr = (r, tr1)" by fastforce
  note P = loggers_round_passes [OF reader_all [of hw] Suc.prems(1), of p tr, unfolded r]
  show ?case
  proof (cases r)
    case (Ok l')
    then have l': "loggers_inv l'" "uart_sent tr1 @ log_contents l' = uart_sent tr @ log_contents l"
        "segs (L1 l') + segs (L0 l') = segs (L1 l) + segs (L0 l) - 1"
      using P by (auto simp: passed_on_Ok)
    then have "segs (L1 l') + segs (L0 l') \<le> k" using Suc.prems(2) by linarith
    from Suc.IH [OF l'(1) this, of tr1] show ?thesis using r Ok l'(2) step by (simp add: abind_def)
  qed (use passed_on_stop [OF P] r step in \<open>auto simp: abind_def passed_on_def\<close>)
qed

section \<open>The two flushes\<close>

lemma in_main_eq:
  "in_main hw tr = (Ok (answer hw tr (Reg 0xA02014) = 0xFF), Rd (Reg 0xA02014) (answer hw tr (Reg 0xA02014)) # tr)"
  by (simp add: in_main_def gic_read_def gicc_registers rd_def abind_def)

text \<open>Two loggers, the main one wrapped; a port that takes two bytes, and one that is always ready.\<close>

definition some_loggers :: loggers where
  "some_loggers =
     \<lparr>L0 = \<lparr>mem = (\<lambda>_. 0)(7 := 1, 0 := 2), cap = 8, read_pos = 7, write_pos = 9\<rparr>,
      L1 = \<lparr>mem = (\<lambda>_. 0)(0 := 5), cap = 8, read_pos = 0, write_pos = 1\<rparr>\<rparr>"

definition slow_uart :: hw where
  "slow_uart = \<lparr>answer = (\<lambda>tr r. if r = Reg 0xA02014 then 0xFF else if length tr < 6 then 0xFFFF else 0),
     dma_memory = (\<lambda>_ _ n. replicate n 0)\<rparr>"

definition fast_uart :: hw where
  "fast_uart = \<lparr>answer = (\<lambda>_ _. 0xFFFF), dma_memory = (\<lambda>_ _ n. replicate n 0)\<rparr>"

lemma some_loggers_inv: "loggers_inv some_loggers" "log_contents some_loggers = [5, 1, 2]"
  by (simp_all add: some_loggers_def loggers_inv_def ring_inv_def pending_def log_contents_def contents_def upt_rec)



lemma afor_write_all_sent:
  "(afor ps (write_all hw) tr :: ('e, unit) outcome \<times> trace) = (Ok (), tr') \<Longrightarrow> uart_sent tr' = uart_sent tr @ concat ps"
proof (induction ps arbitrary: tr)
  case (Cons b bs)
  then obtain tr1 where "(write_all hw b tr :: ('e, unit) outcome \<times> trace) = (Ok (), tr1)"
      "(afor bs (write_all hw) tr1 :: ('e, unit) outcome \<times> trace) = (Ok (), tr')"
    by (auto simp: abind_Ok_iff)
  then show ?case using Cons.IH write_all_sent by fastforce
qed simp

lemma afor_write_all_results:
  "(afor ps (write_all hw) tr :: ('e, unit) outcome \<times> trace) = (res, tr') \<Longrightarrow>
   res = Ok () \<or> res = Hang \<and> \<not> uart_ready hw"
proof (induction ps arbitrary: tr)
  case (Cons b bs)
  obtain r1 tr1 where w: "(write_all hw b tr :: ('e, unit) outcome \<times> trace) = (r1, tr1)" by fastforce
  show ?case using write_all_results [OF w] write_all_ready [OF _ w] Cons w by (auto simp: abind_def)
qed simp

definition flush_message :: "bytes \<Rightarrow> u32 \<Rightarrow> bytes" where
  "flush_message file line =
     concat [[10, 13] @ char_bytes ''memlog_flush_and_reset @ '', file, char_bytes '':'', decimal (unat line), [10, 13]]"

text \<open>How a flush before a reset can end.\<close>

lemma flush_and_reset_ends:
  assumes "loggers_inv l" "(memlog_flush_and_reset hw p file line l tr :: (unit, 'a) outcome \<times> trace) = (r, tr')"
  shows "r = Reset \<and> uart_sent tr' = uart_sent tr @ log_contents l @ flush_message file line \<and>
      (\<exists>old tr1 tr2 v. tr' = Wr (Soc WCR) (old AND NOT WDOG_WCR_SRS) # Rd (Soc WCR) old # Rd (Uart USR2) v # tr1 \<and>
         v AND UART_USR2_TXDC \<noteq> 0) \<or>
    r = Hang \<and> \<not> uart_ready hw \<or> r = Panic \<and> p = Dev"
proof -
  define ps where "ps = [[10, 13] @ char_bytes ''memlog_flush_and_reset @ '', file, char_bytes '':'', decimal (unat line), [10, 13]]"
  have flush: "(memlog_flush_and_reset hw p file line l :: (unit, 'a) io) =
      abind (flush_times 4 hw p l) (\<lambda>_. abind (afor ps (write_all hw)) (\<lambda>_. abind (serial_flush hw) (\<lambda>_. soc_reset hw)))"
    by (simp only: memlog_flush_and_reset_def ps_def)
  have message: "concat ps = flush_message file line" by (simp only: flush_message_def ps_def)
  have "segs (L1 l) + segs (L0 l) \<le> 4" by (simp add: segs_def)
  note P = flush_times_passes [OF assms(1) this, of hw p tr]
  obtain r1 tr1 where 1: "flush_times 4 hw p l tr = (r1, tr1)" by fastforce
  show ?thesis
  proof (cases r1)
    case (Ok l')
    then have s1: "uart_sent tr1 = uart_sent tr @ log_contents l" using P 1 by (auto simp: passed_on_Ok)
    obtain r2 tr2 where 2: "(afor ps (write_all hw) tr1 :: (unit, unit) outcome \<times> trace) = (r2, tr2)" by fastforce
    from afor_write_all_results [OF 2] show ?thesis
    proof
      assume r2: "r2 = Ok ()"
      obtain r3 tr3 where 3: "(serial_flush hw tr2 :: (unit, unit) outcome \<times> trace) = (r3, tr3)" by fastforce
      from await_results [OF 3 [unfolded serial_flush_def]] show ?thesis
      proof
        assume r3: "r3 = Ok ()"
        from 3 [unfolded serial_flush_def r3] obtain t v where t: "v AND UART_USR2_TXDC \<noteq> 0"
            "tr3 = Rd (Uart USR2) v # t" "effects t = effects tr2"
          by (rule await_Ok)
        have "uart_sent t = uart_sent tr2" using t(3) by (metis sent_effects)
        moreover have "uart_sent tr2 = uart_sent tr1 @ flush_message file line"
          using afor_write_all_sent [OF 2 [unfolded r2]] message by simp
        moreover have "(r, tr') = (Reset, Wr (Soc WCR) (answer hw tr3 (Soc WCR) AND NOT WDOG_WCR_SRS) #
            Rd (Soc WCR) (answer hw tr3 (Soc WCR)) # tr3)"
          using assms(2) 1 2 3 Ok r2 r3 by (simp add: flush soc_reset_def abind_def rd_def wr_def)
        ultimately show ?thesis using s1 t(1,2) by auto
      next
        assume r3: "r3 = Hang"
        have "\<not> uart_ready hw"
        proof
          assume "uart_ready hw"
          then have "answer hw tr2 (Uart USR2) AND UART_USR2_TXDC \<noteq> 0" by (simp add: uart_ready_def)
          then have "(serial_flush hw tr2 :: (unit, unit) outcome \<times> trace) = (Ok (), Rd (Uart USR2) (answer hw tr2 (Uart USR2)) # tr2)"
            unfolding serial_flush_def by (rule await_now)
          with 3 r3 show False by simp
        qed
        then show ?thesis using assms(2) 1 2 3 Ok r2 r3 by (simp add: flush abind_def)
      qed
    next
      assume "r2 = Hang \<and> \<not> uart_ready hw"
      then show ?thesis using assms(2) 1 2 Ok by (simp add: flush abind_def)
    qed
  next
    case Hang
    then have "r = Hang" using 1 assms(2) by (simp add: flush abind_def)
    then show ?thesis using passed_on_stop [OF P [unfolded 1]] Hang by simp
  next
    case Panic
    then have "r = Panic" using 1 assms(2) by (simp add: flush abind_def)
    then show ?thesis using passed_on_stop [OF P [unfolded 1]] Panic by simp
  qed (use passed_on_stop [OF P [unfolded 1]] in auto)
qed



end
