(* ===== verification/Cpu.thy ===== *)
theory Cpu
  imports SerialProps Handle
begin

text \<open>
  The processor's interrupt mask and delays (\<^verbatim>\<open>firmware/cortex-a\<close>), and the code that runs when something went wrong:
  \<^verbatim>\<open>firmware/panic-serial\<close> and \<^verbatim>\<open>firmware/exception-reset\<close>; and the macros \<^verbatim>\<open>print!\<close> and \<^verbatim>\<open>println!\<close> of
  \<^verbatim>\<open>firmware/usbarmory/src/macros.rs\<close>.
\<close>

section \<open>Interrupt mask\<close>

text \<open>The status register of the processor, and the accesses to the peripherals.\<close>

record cpu =
  cpsr :: u32
  accesses :: trace

definition on_bus :: "('e, 'a) io \<Rightarrow> (cpu, 'e, 'a) act" where
  "on_bus m = (\<lambda>c. case m (accesses c) of (r, tr) \<Rightarrow> (r, c\<lparr>accesses := tr\<rparr>))"

definition IRQ_MASK :: u32 where "IRQ_MASK = push_bit 7 1"

definition masked :: "cpu \<Rightarrow> bool" where
  "masked c \<longleftrightarrow> cpsr c AND IRQ_MASK \<noteq> 0"

definition read_cpsr :: "(cpu, 'e, u32) act" where
  "read_cpsr = (\<lambda>c. (Ok (cpsr c), c))"

definition disable_irq :: "(cpu, 'e, unit) act" where
  "disable_irq = (\<lambda>c. (Ok (), c\<lparr>cpsr := cpsr c OR IRQ_MASK\<rparr>))"

definition enable_irq :: "(cpu, 'e, unit) act" where
  "enable_irq = (\<lambda>c. (Ok (), c\<lparr>cpsr := cpsr c AND NOT IRQ_MASK\<rparr>))"

definition no_interrupts :: "(cpu, 'e, 'a) act \<Rightarrow> (cpu, 'e, 'a) act" where
  "no_interrupts f =
     abind read_cpsr (\<lambda>old.
     abind disable_irq (\<lambda>_.
     abind f (\<lambda>r.
     abind (if old AND IRQ_MASK = 0 then enable_irq else aret ()) (\<lambda>_.
     aret r))))"

lemma masked_iff: "masked c \<longleftrightarrow> bit (cpsr c) 7"
  unfolding masked_def IRQ_MASK_def by (rule and_push_bit_test)

lemma mask_bit: "bit IRQ_MASK 7"
  unfolding IRQ_MASK_def by simp

lemma masked_simps [simp]:
  "masked (c\<lparr>cpsr := cpsr c OR IRQ_MASK\<rparr>)" "\<not> masked (c\<lparr>cpsr := cpsr c AND NOT IRQ_MASK\<rparr>)"
  "masked (c\<lparr>accesses := tr\<rparr>) = masked c"
  by (simp_all add: masked_iff bit_or_iff bit_and_iff bit_not_iff mask_bit)

text \<open>
  A critical section that returns leaves interrupts as it found them (also when it is nested in another), and its body, which
  must leave the mask alone, runs with interrupts off.
\<close>

lemma no_interrupts_restores:
  assumes f: "\<And>c r c'. f c = (r, c') \<Longrightarrow> masked c \<Longrightarrow> masked c'" and "no_interrupts f c = (Ok a, c')"
  shows "masked c' = masked c \<and> (\<exists>c0 c1. masked c0 \<and> accesses c0 = accesses c \<and> f c0 = (Ok a, c1) \<and> accesses c' = accesses c1)"
proof -
  define c0 where "c0 = c\<lparr>cpsr := cpsr c OR IRQ_MASK\<rparr>"
  from assms(2) obtain c1 where c1: "f c0 = (Ok a, c1)"
      and c': "c' = (if cpsr c AND IRQ_MASK = 0 then c1\<lparr>cpsr := cpsr c1 AND NOT IRQ_MASK\<rparr> else c1)"
    by (auto simp: no_interrupts_def read_cpsr_def disable_irq_def enable_irq_def abind_Ok_iff c0_def split: if_splits)
  have "masked c0" by (simp add: c0_def)
  then have "masked c1" using f c1 by blast
  then have "masked c' = masked c" using c' by (simp add: masked_def [of c])
  moreover have "accesses c0 = accesses c" "accesses c' = accesses c1" by (simp_all add: c0_def c')
  ultimately show ?thesis using \<open>masked c0\<close> c1 by blast
qed

section \<open>Delays\<close>

text \<open>
  The number of instructions that \<^verbatim>\<open>delay\<close> executes (\<^verbatim>\<open>__delay\<close> in \<^verbatim>\<open>asm.s\<close>): the loop has four, and counts a quarter of
  the argument down.
\<close>

function delay_loop :: "u32 \<Rightarrow> nat" where
  "delay_loop r0 = 4 + (if r0 - 1 = 0 then 0 else delay_loop (r0 - 1))"
  by auto
termination
proof (relation "measure (\<lambda>r. unat (r - 1))")
  fix r0 :: u32
  assume "r0 - 1 \<noteq> 0"
  then have "unat (r0 - 1 - 1) = unat (r0 - 1) - 1" "0 < unat (r0 - 1)"
    by (simp_all only: unat_minus_one unat_gt_0 not_False_eq_True)
  then show "(r0 - 1, r0) \<in> measure (\<lambda>r. unat (r - 1))" by simp
qed simp

declare delay_loop.simps [simp del]

definition delay_instructions :: "u32 \<Rightarrow> nat" where
  "delay_instructions n = (let r0 = drop_bit 2 n in if r0 = 0 then 3 else 3 + delay_loop r0 + 1)"

lemma delay_loop_eq: "r0 \<noteq> 0 \<Longrightarrow> delay_loop r0 = 4 * unat r0"
proof (induction r0 rule: delay_loop.induct)
  case (1 r0)
  then have u: "unat (r0 - 1) = unat r0 - 1" "0 < unat r0" by (simp_all add: unat_minus_one unat_gt_0)
  show ?case
  proof (cases "r0 - 1 = 0")
    case True
    then have "r0 = 1" by simp
    then show ?thesis by (simp add: delay_loop.simps)
  next
    case False
    then show ?thesis using "1.IH" u by (subst delay_loop.simps) simp
  qed
qed

lemma delay_long_enough: "unat n \<le> delay_instructions n \<and> delay_instructions n \<le> unat n + 4"
proof -
  have d: "unat (drop_bit 2 n) = unat n div 4" by (simp add: drop_bit_eq_div unat_div_distrib)
  show ?thesis
  proof (cases "drop_bit 2 n = 0")
    case True
    then have "unat n div 4 = 0" using d by simp
    then show ?thesis using True by (simp add: delay_instructions_def) 
  next
    case False
    then show ?thesis using d by (simp add: delay_instructions_def delay_loop_eq)
  qed
qed

section \<open>Printing\<close>

text \<open>
  \<^verbatim>\<open>print!\<close> and \<^verbatim>\<open>println!\<close> with the pieces that formatting writes, the newline of \<^verbatim>\<open>println!\<close> included: nothing is
  printed when the handle of the serial port is taken.
\<close>

definition print_pieces :: "hw \<Rightarrow> bytes list \<Rightarrow> (singleton \<times> trace, unit, unit) act" where
  "print_pieces hw pieces = (\<lambda>(s, tr).
     case take_alone s of (s', ok) \<Rightarrow>
       if ok then
         (case afor pieces (write_all hw) tr of (r, tr') \<Rightarrow> (r, (if r = Ok () then release s' else s', tr')))
       else (Ok (), (s', tr)))"

definition println_pieces :: "hw \<Rightarrow> bytes list \<Rightarrow> (singleton \<times> trace, unit, unit) act" where
  "println_pieces hw pieces = print_pieces hw (pieces @ [[10]])"

text \<open>
  A line is printed as a whole or not at all, and the handle is free again; nothing is printed exactly when the handle could
  not be taken.
\<close>

lemma println_whole:
  assumes "println_pieces hw pieces (s, tr) = (Ok (), (s', tr'))"
  shows "(if snd (take_alone s) then uart_sent tr' = uart_sent tr @ concat pieces @ [10] \<and> cell_state s' = FREE
    else s' = fst (take_alone s) \<and> tr' = tr)"
proof -
  define ps where "ps = pieces @ [[10]]"
  obtain s1 ok where take: "take_alone s = (s1, ok)" by fastforce
  obtain r tr1 where w: "(afor ps (write_all hw) tr :: (unit, unit) outcome \<times> trace) = (r, tr1)" by fastforce
  have call: "println_pieces hw pieces (s, tr) =
      (if ok then (r, (if r = Ok () then release s1 else s1, tr1)) else (Ok (), (s1, tr)))"
    by (simp only: println_pieces_def print_pieces_def ps_def [symmetric] prod.case take w)
  show ?thesis
  proof (cases ok)
    case True
    then have ok: "r = Ok ()" using assms unfolding call by simp
    then have "s' = release s1" "tr' = tr1" using assms True unfolding call by simp_all
    then show ?thesis using afor_write_all_sent [OF w [unfolded ok]] True take by (simp add: release_def ps_def)
  next
    case False
    then show ?thesis using assms take unfolding call by simp
  qed
qed

section \<open>Fatal errors\<close>

text \<open>\<^verbatim>\<open>memlog_flush_and_reset\<close> with its interrupt mask.\<close>

definition flush_log_and_reset :: "hw \<Rightarrow> profile \<Rightarrow> bytes \<Rightarrow> u32 \<Rightarrow> loggers \<Rightarrow> (cpu, unit, 'a) act" where
  "flush_log_and_reset hw p file line l =
     abind disable_irq (\<lambda>_. on_bus (memlog_flush_and_reset hw p file line l))"

definition panic_rule :: bytes where
  "panic_rule = [10, 13] @ char_bytes ''----'' @ [10, 13]"

text \<open>The panic handler; \<open>info\<close> are the pieces that formatting the panic information writes.\<close>

definition panic_handler ::
  "hw \<Rightarrow> profile \<Rightarrow> bytes \<Rightarrow> u32 \<Rightarrow> bytes list \<Rightarrow> loggers \<Rightarrow> (cpu, unit, 'a) act" where
  "panic_handler hw p file line info l =
     abind disable_irq (\<lambda>_.
     abind (on_bus (abind (afor ([panic_rule] @ info @ [panic_rule]) (write_all hw)) (\<lambda>_. serial_flush hw))) (\<lambda>_.
     flush_log_and_reset hw p file line l))"

definition exception_message :: bytes where
  "exception_message = [10] @ char_bytes ''unhandled exception'' @ [10]"

text \<open>The handler of exceptions, \<^verbatim>\<open>DefaultHandler\<close>; \<^verbatim>\<open>reset\<close> masks interrupts itself, too.\<close>

definition exception_handler :: "hw \<Rightarrow> (cpu, unit, 'a) act" where
  "exception_handler hw =
     abind disable_irq (\<lambda>_.
     abind (on_bus (abind (write_all hw exception_message) (\<lambda>_. serial_flush hw))) (\<lambda>_.
     abind disable_irq (\<lambda>_.
     on_bus (soc_reset hw))))"

section \<open>What is reported\<close>

lemma serial_flush_ends:
  assumes "(serial_flush hw tr :: ('e, unit) outcome \<times> trace) = (r, tr')"
  shows "r = Ok () \<and> uart_sent tr' = uart_sent tr \<or> r = Hang \<and> \<not> uart_ready hw"
proof (cases "uart_ready hw")
  case True
  then have "(serial_flush hw tr :: ('e, unit) outcome \<times> trace) = (Ok (), Rd (Uart USR2) (answer hw tr (Uart USR2)) # tr)"
    unfolding serial_flush_def by (intro await_now) (simp add: uart_ready_def)
  then show ?thesis using assms by simp
next
  case False
  then show ?thesis
    using await_results [OF assms [unfolded serial_flush_def]] silent_sent [OF silent_await assms [unfolded serial_flush_def]] by blast
qed

lemma message_ends:
  assumes "(abind (afor ps (write_all hw)) (\<lambda>_. serial_flush hw) tr :: ('e, unit) outcome \<times> trace) = (r, tr')"
  shows "r = Ok () \<and> uart_sent tr' = uart_sent tr @ concat ps \<or> r = Hang \<and> \<not> uart_ready hw"
proof -
  obtain r1 tr1 where 1: "(afor ps (write_all hw) tr :: ('e, unit) outcome \<times> trace) = (r1, tr1)" by fastforce
  from afor_write_all_results [OF 1] show ?thesis
  proof
    assume ok: "r1 = Ok ()"
    then have "(serial_flush hw tr1 :: ('e, unit) outcome \<times> trace) = (r, tr')" using 1 assms by (simp add: abind_def)
    from serial_flush_ends [OF this] afor_write_all_sent [OF 1 [unfolded ok]] show ?thesis by auto
  next
    assume "r1 = Hang \<and> \<not> uart_ready hw"
    then show ?thesis using 1 assms by (auto simp: abind_def)
  qed
qed


definition running_cpu :: cpu where
  "running_cpu = \<lparr>cpsr = 0, accesses = []\<rparr>"


text \<open>An exception, too, is reported before the reset, but what the loggers hold is lost.\<close>

lemma exception_reported:
  assumes "(exception_handler hw c :: (unit, 'a) outcome \<times> cpu) = (r, c')"
  shows "masked c' \<and>
    (r = Reset \<and> uart_sent (accesses c') = uart_sent (accesses c) @ exception_message \<or> r = Hang \<and> \<not> uart_ready hw)"
proof -
  define c0 where "c0 = c\<lparr>cpsr := cpsr c OR IRQ_MASK\<rparr>"
  have c0: "masked c0" "accesses c0 = accesses c" by (simp_all add: c0_def)
  define report :: "(unit, unit) io" where "report = abind (write_all hw exception_message) (\<lambda>_. serial_flush hw)"
  obtain r1 tr1 where 1: "report (accesses c0) = (r1, tr1)" by fastforce
  have "afor [exception_message] (write_all hw) = (write_all hw exception_message :: (unit, unit) io)"
    by (rule ext) (simp add: abind_def aret_def split: prod.split outcome.split)
  then have ends: "r1 = Ok () \<and> uart_sent tr1 = uart_sent (accesses c0) @ exception_message \<or> r1 = Hang \<and> \<not> uart_ready hw"
    using message_ends [of "[exception_message]" hw "accesses c0" r1 tr1] 1 by (simp only: report_def) simp
  have call: "(exception_handler hw c :: (unit, 'a) outcome \<times> cpu) =
      abind (on_bus report) (\<lambda>_. abind disable_irq (\<lambda>_. on_bus (soc_reset hw))) c0"
    unfolding exception_handler_def report_def by (simp add: abind_def disable_irq_def c0_def)
  from ends show ?thesis
  proof
    assume ok: "r1 = Ok () \<and> uart_sent tr1 = uart_sent (accesses c0) @ exception_message"
    then have "(r, c') = (Reset, c0\<lparr>cpsr := cpsr c0 OR IRQ_MASK,
        accesses := Wr (Soc WCR) (answer hw tr1 (Soc WCR) AND NOT WDOG_WCR_SRS) # Rd (Soc WCR) (answer hw tr1 (Soc WCR)) # tr1\<rparr>)"
      using assms 1 unfolding call by (simp add: on_bus_def abind_def soc_reset_def rd_def wr_def disable_irq_def)
    then show ?thesis using ok c0(2) by (simp add: masked_iff bit_or_iff mask_bit)
  next
    assume hang: "r1 = Hang \<and> \<not> uart_ready hw"
    then have "(r, c') = (Hang, c0\<lparr>accesses := tr1\<rparr>)"
      using assms 1 unfolding call by (simp add: abind_def on_bus_def)
    then show ?thesis using hang c0(1) by simp
  qed
qed

end
