(* ===== verification/MemlogIrq.thy ===== *)
theory MemlogIrq
  imports Memlog
begin

text \<open>
  \<^verbatim>\<open>firmware/memlog\<close> with interrupts: the logger of the interrupt handlers (\<^verbatim>\<open>L1\<close>) is filled by handlers while
  \<^verbatim>\<open>main\<close> empties it. The loads, the accesses to the memory and the store of \<^verbatim>\<open>peek\<close> are separate steps, between which
  handlers push. Handlers that preempt each other are in the last section.
\<close>

section \<open>A peek that is interrupted\<close>

text \<open>
  Where \<^verbatim>\<open>peek\<close> is: before the load of \<^verbatim>\<open>read\<close>, after it, or in the closure, which has seen the bytes \<open>got\<close> of the \<open>n\<close>
  bytes it may see. \<open>pushed\<close> and \<open>taken\<close> are not in the code: all that was pushed, and taken, so far.
\<close>

datatype peek_stage = PeekStart | PeekLoaded u32 | PeekReading u32 nat bytes

record irq_log =
  ring :: buffer
  stage :: peek_stage
  pushed :: bytes
  taken :: bytes

definition peek_length :: "buffer \<Rightarrow> u32 \<Rightarrow> nat" where
  "peek_length b r = min (unat (write_pos b - r)) (cap b - unat r mod cap b)"

inductive irq_step :: "profile \<Rightarrow> irq_log \<Rightarrow> irq_log \<Rightarrow> bool" for p where
  handler_pushes: "fits (ring s) (length bs) \<Longrightarrow> push p (ring s) bs = Ok b' \<Longrightarrow>
    irq_step p s (s\<lparr>ring := b', pushed := pushed s @ bs\<rparr>)"
| load_read: "stage s = PeekStart \<Longrightarrow> irq_step p s (s\<lparr>stage := PeekLoaded (read_pos (ring s))\<rparr>)"
| load_write: "stage s = PeekLoaded r \<Longrightarrow>
    irq_step p s (s\<lparr>stage := if peek_length (ring s) r \<noteq> 0 then PeekReading r (peek_length (ring s) r) [] else PeekStart\<rparr>)"
| show_byte: "stage s = PeekReading r n got \<Longrightarrow> length got < n \<Longrightarrow>
    irq_step p s (s\<lparr>stage := PeekReading r n (got @ [mem (ring s) (unat r mod cap (ring s) + length got)])\<rparr>)"
| store_read: "stage s = PeekReading r n got \<Longrightarrow> prof_add p r (of_nat (length got)) = (Ok r' :: (unit, u32) outcome) \<Longrightarrow>
    irq_step p s (s\<lparr>ring := ring s\<lparr>read_pos := r'\<rparr>, stage := PeekStart, taken := taken s @ got\<rparr>)"

definition irq_start :: "nat \<Rightarrow> (nat \<Rightarrow> u8) \<Rightarrow> irq_log" where
  "irq_start c m = \<lparr>ring = buffer_new c m, stage = PeekStart, pushed = [], taken = []\<rparr>"

inductive irq_reach :: "profile \<Rightarrow> nat \<Rightarrow> irq_log \<Rightarrow> bool" for p c where
  start: "irq_reach p c (irq_start c m)"
| step: "irq_reach p c s \<Longrightarrow> irq_step p s s' \<Longrightarrow> irq_reach p c s'"

definition irq_inv :: "irq_log \<Rightarrow> bool" where
  "irq_inv s \<longleftrightarrow> ring_inv (ring s) \<and> taken s @ contents (ring s) = pushed s \<and>
     (case stage s of
        PeekStart \<Rightarrow> True
      | PeekLoaded r \<Rightarrow> r = read_pos (ring s)
      | PeekReading r n got \<Rightarrow>
          r = read_pos (ring s) \<and> n \<le> seg (ring s) \<and> length got \<le> n \<and> got = take (length got) (contents (ring s)))"

lemma push_seg:
  assumes "ring_inv b" "push p b bs = Ok b'"
  shows "seg b \<le> seg b'"
  using pending_push [OF assms] push_frame [OF assms] by (simp add: seg_def)

lemma peek_length_seg: "peek_length b (read_pos b) = seg b"
  by (simp add: peek_length_def seg_def pending_def)

lemma nth_shown:
  assumes "i < seg b"
  shows "mem b (unat (read_pos b) mod cap b + i) = contents b ! i"
proof -
  have "read_from (mem b) (unat (read_pos b) mod cap b) (seg b) ! i = take (seg b) (contents b) ! i"
    by (simp only: shown_eq)
  then show ?thesis using assms by (simp add: read_from_def)
qed

lemma irq_step_inv:
  assumes I: "irq_inv s" and "irq_step p s s'"
  shows "irq_inv s'"
  using assms(2)
proof cases
  case (handler_pushes bs b')
  have inv: "ring_inv (ring s)" using I by (simp add: irq_inv_def)
  note c = push_contents [OF inv handler_pushes(3,2)] and fr = push_frame [OF inv handler_pushes(3)]
  show ?thesis
  proof (cases "stage s")
    case (PeekReading r n got)
    then have got: "r = read_pos (ring s)" "n \<le> seg (ring s)" "length got \<le> n" "got = take (length got) (contents (ring s))"
      using I by (simp_all add: irq_inv_def)
    have "length got \<le> length (contents (ring s))"
      using got(4) by (metis length_take min.cobounded1)
    then have "got = take (length got) (contents b')" using got(4) c by simp
    moreover have "n \<le> seg b'" using got(2) push_seg [OF inv handler_pushes(3)] by simp
    ultimately show ?thesis
      using I handler_pushes(1) c fr got push_ring_inv [OF inv handler_pushes(3)] PeekReading by (simp add: irq_inv_def)
  qed (use I handler_pushes(1) c fr push_ring_inv [OF inv handler_pushes(3)] in \<open>auto simp: irq_inv_def\<close>)
next
  case load_read
  then show ?thesis using I by (simp add: irq_inv_def)
next
  case (load_write r)
  then show ?thesis using I by (simp add: irq_inv_def peek_length_seg)
next
  case (show_byte r n got)
  then have got: "r = read_pos (ring s)" "n \<le> seg (ring s)" "got = take (length got) (contents (ring s))"
    using I by (simp_all add: irq_inv_def)
  have lt: "length got < seg (ring s)" using show_byte(3) got(2) by simp
  then have "length got < length (contents (ring s))"
    using seg_le [of "ring s"] unfolding length_contents by linarith
  then have "take (Suc (length got)) (contents (ring s)) = got @ [mem (ring s) (unat r mod cap (ring s) + length got)]"
    using got(1,3) nth_shown [OF lt] by (simp add: take_Suc_conv_app_nth)
  then show ?thesis using I show_byte got by (simp add: irq_inv_def)
next
  case (store_read r n got r')
  then have got: "r = read_pos (ring s)" "length got \<le> seg (ring s)" "got = take (length got) (contents (ring s))"
      and inv: "ring_inv (ring s)"
    using I by (simp_all add: irq_inv_def)
  have "length got \<le> pending (ring s)" using got(2) seg_le [of "ring s"] by linarith
  note adv = advance_contents [OF inv this]
  have "r' = read_pos (ring s) + of_nat (length got)" using prof_add_Ok [OF store_read(3)] got(1) by simp
  moreover have "got @ drop (length got) (contents (ring s)) = contents (ring s)"
    using got(3) by (metis append_take_drop_id)
  ultimately show ?thesis using I store_read(1) adv by (simp add: irq_inv_def)
qed

lemma irq_reach_inv:
  assumes "irq_reach p c s" "0 < c" "c < 2 ^ 32" "c dvd 2 ^ 32"
  shows "irq_inv s"
  using assms(1)
proof (induction rule: irq_reach.induct)
  case (start m)
  then show ?case using ring_inv_new [OF assms(2-4)] by (simp add: irq_inv_def irq_start_def)
next
  case (step s s')
  then show ?case using irq_step_inv by blast
qed


text \<open>A handler has pushed three bytes, of which the closure has seen one when the next handler pushes two more.\<close>

definition interrupted :: irq_log where
  "interrupted =
     \<lparr>ring = \<lparr>mem = (\<lambda>_. 0)(0 := 7, 1 := 8, 2 := 9, 3 := 1, 4 := 2), cap = 8, read_pos = 0, write_pos = 5\<rparr>,
      stage = PeekReading 0 3 [7], pushed = [7, 8, 9, 1, 2], taken = []\<rparr>"

lemma copy_to_list:
  "copy_to m i [] = m" "copy_to m i (x # xs) = copy_to (m(i := x)) (i + 1) xs"
  by (auto simp: copy_to_def fun_eq_iff nth_Cons')

lemma interrupted_reached: "irq_reach Release 8 interrupted"
proof -
  let ?m = "(\<lambda>_. 0 :: u8)(0 := 7, 1 := 8, 2 := 9)"
  let ?b0 = "buffer_new 8 (\<lambda>_. 0)"
  let ?b1 = "\<lparr>mem = ?m, cap = 8, read_pos = 0, write_pos = 3\<rparr>"
  have "copy_to (\<lambda>_. 0) 0 [7, 8, 9] = ?m" by (simp add: copy_to_list numeral_2_eq_2)
  then have "push Release ?b0 [7, 8, 9] = Ok ?b1"
    by (simp add: push_def buffer_new_def prof_add_def Let_def)
  moreover have "fits ?b0 (length [7, 8, 9 :: u8])" by (simp add: fits_def pending_def buffer_new_def cursor_def)
  ultimately have 1: "irq_reach Release 8 \<lparr>ring = ?b1, stage = PeekStart, pushed = [7, 8, 9], taken = []\<rparr>"
    using irq_reach.step [OF irq_reach.start handler_pushes [of "irq_start 8 (\<lambda>_. 0)" "[7, 8, 9]"]]
    by (simp add: irq_start_def)
  have 2: "irq_reach Release 8 \<lparr>ring = ?b1, stage = PeekLoaded 0, pushed = [7, 8, 9], taken = []\<rparr>"
    using irq_reach.step [OF 1 load_read] by simp
  have 3: "irq_reach Release 8 \<lparr>ring = ?b1, stage = PeekReading 0 3 [], pushed = [7, 8, 9], taken = []\<rparr>"
    using irq_reach.step [OF 2 load_write] by (simp add: peek_length_def)
  have 4: "irq_reach Release 8 \<lparr>ring = ?b1, stage = PeekReading 0 3 [7], pushed = [7, 8, 9], taken = []\<rparr>"
    using irq_reach.step [OF 3 show_byte] by simp
  have "push Release ?b1 [1, 2] = Ok (ring interrupted)"
    by (simp add: push_def prof_add_def Let_def copy_to_list interrupted_def)
  moreover have "fits ?b1 (length [1, 2 :: u8])" by (simp add: fits_def pending_def cursor_def)
  ultimately show ?thesis
    using irq_reach.step [OF 4 handler_pushes [of _ "[1, 2]"]] by (simp add: interrupted_def)
qed


section \<open>Handlers that preempt each other\<close>

text \<open>\<^verbatim>\<open>push\<close> of a handler that was preempted after it loaded the position \<open>w\<close> (and had checked that there is room).\<close>

definition push_resumed :: "profile \<Rightarrow> u32 \<Rightarrow> buffer \<Rightarrow> bytes \<Rightarrow> (unit, buffer) outcome" where
  "push_resumed p w b bs =
     (let n = length bs; cursor = unat w mod cap b;
          m = (if cursor + n > cap b
               then (let pivot = cursor + n - cap b in
                     copy_to (copy_to (mem b) cursor (take pivot bs)) 0 (drop pivot bs))
               else copy_to (mem b) cursor bs)
      in obind (prof_add p w (of_nat n)) (\<lambda>w'. Ok (b\<lparr>mem := m, write_pos := w'\<rparr>)))"

lemma push_not_preempted:
  "length bs \<le> unat (read_pos b + of_nat (cap b) - write_pos b) \<Longrightarrow> push p b bs = push_resumed p (write_pos b) b bs"
  by (simp add: push_def push_resumed_def Let_def)

lemma copy_to_over: "length xs \<le> length ys \<Longrightarrow> copy_to (copy_to m i xs) i ys = copy_to m i ys"
  by (auto simp: copy_to_def fun_eq_iff)

text \<open>
  Both handlers write to the same logger, and \<^verbatim>\<open>push\<close> is not atomic: when a handler is preempted between the load and
  the store of \<^verbatim>\<open>write\<close> by one that logs a message that is not longer, the buffer ends up as if the second message had never
  been logged.
\<close>

lemma nested_push_lost:
  assumes "ring_inv b" "push p b other = Ok b2" "length other \<le> length bs"
    and "pending b + length bs \<le> cap b" "cursor b + length bs \<le> cap b"
  shows "push_resumed p (write_pos b) b2 bs = push p b bs"
proof -
  note b2 = push_Ok(2) [OF assms(1,2)]
  have "mem b2 = copy_to (mem b) (cursor b) other" "cap b2 = cap b"
    using b2 assms(3,5) by simp_all
  moreover have "push p b bs = push_resumed p (write_pos b) b bs"
    using free_space [OF assms(1)] assms(4) by (intro push_not_preempted) simp
  moreover have "b2\<lparr>mem := m, write_pos := w\<rparr> = b\<lparr>mem := m, write_pos := w\<rparr>" for m w
    using b2 by simp
  ultimately show ?thesis
    using assms(3,5) by (simp add: push_resumed_def Let_def cursor_def copy_to_over)
qed

lemma nested_push_lost_witness:
  "\<exists>b2. push Release (buffer_new 8 (\<lambda>_. 0)) [1] = Ok b2 \<and>
     push_resumed Release 0 b2 [2, 3] = push Release (buffer_new 8 (\<lambda>_. 0)) [2, 3]"
proof -
  let ?b = "buffer_new 8 (\<lambda>_. 0)"
  have i: "ring_inv ?b" "pending ?b = 0" "cursor ?b = 0"
    by (simp_all add: ring_inv_def pending_def buffer_new_def cursor_def)
  obtain b2 where "push Release ?b [1] = Ok b2"
    using push_Release_Ok [OF i(1), of "[1]"] i(2) by (auto simp: buffer_new_def)
  then show ?thesis
    using nested_push_lost [OF i(1), of Release "[1]" b2 "[2, 3]"] i by (simp add: buffer_new_def)
qed

end
