(* ===== verification/Rng.thy ===== *)
theory Rng
  imports Codegen Mmio
begin

text \<open>
  \<^verbatim>\<open>firmware/usbarmory/src/rng.rs\<close>: the random number generator. Words leave it through the register \<^verbatim>\<open>OUT\<close>,
  in front of a FIFO whose level the status register shows.
\<close>

section \<open>Operations\<close>

definition CMD_SR :: u32 where "CMD_SR = push_bit 6 1"
definition CR_AR :: u32 where "CR_AR = push_bit 4 1"
definition SR_STATPF_OFFSET :: nat where "SR_STATPF_OFFSET = 24"
definition SR_STATPF_MASK :: u32 where "SR_STATPF_MASK = 0xFF"
definition SR_SDN :: u32 where "SR_SDN = push_bit 5 1"
definition SR_FIFO_LVL_MASK :: u32 where "SR_FIFO_LVL_MASK = 15"
definition SR_FIFO_LVL_OFFSET :: nat where "SR_FIFO_LVL_OFFSET = 8"
definition FIFO_SIZE :: nat where "FIFO_SIZE = 5"

record stats =
  monobit_test_failed :: bool
  length_1_run_test_failed :: bool
  length_2_run_test_failed :: bool
  length_3_run_test_failed :: bool
  length_4_run_test_failed :: bool
  length_5_run_test_failed :: bool
  length_6_plus_run_test_failed :: bool
  long_run_test :: bool

definition auto_seed :: "('e, unit) io" where
  "auto_seed = wr (Rng RNG_CR) CR_AR"

definition rng_software_reset :: "('e, unit) io" where
  "rng_software_reset = wr (Rng RNG_CMD) CMD_SR"

text \<open>\<^verbatim>\<open>initialize\<close>, with the flag of the singleton; the second result is the flag afterwards.\<close>

definition rng_initialize :: "bool \<Rightarrow> ('e, bool \<times> bool) io" where
  "rng_initialize taken =
     (let (got, taken') = take_singleton taken
      in if got then abind auto_seed (\<lambda>_. aret (True, taken')) else aret (False, taken'))"

definition wait_for_initial_seed :: "hw \<Rightarrow> ('e, unit) io" where
  "wait_for_initial_seed hw = await hw (Rng RNG_SR) (\<lambda>v. v AND SR_SDN \<noteq> 0)"

definition stats_of :: "u32 \<Rightarrow> stats" where
  "stats_of statpf =
     \<lparr>monobit_test_failed = statpf AND 1 \<noteq> 0,
      length_1_run_test_failed = statpf AND push_bit 1 1 \<noteq> 0,
      length_2_run_test_failed = statpf AND push_bit 2 1 \<noteq> 0,
      length_3_run_test_failed = statpf AND push_bit 3 1 \<noteq> 0,
      length_4_run_test_failed = statpf AND push_bit 4 1 \<noteq> 0,
      length_5_run_test_failed = statpf AND push_bit 5 1 \<noteq> 0,
      length_6_plus_run_test_failed = statpf AND push_bit 6 1 \<noteq> 0,
      long_run_test = statpf AND push_bit 7 1 \<noteq> 0\<rparr>"

definition rng_stats :: "hw \<Rightarrow> ('e, stats) io" where
  "rng_stats hw =
     abind (wait_for_initial_seed hw) (\<lambda>_.
     abind (rd hw (Rng RNG_SR)) (\<lambda>sr.
     aret (stats_of (drop_bit SR_STATPF_OFFSET sr AND SR_STATPF_MASK))))"

definition level_in :: "u32 \<Rightarrow> u8" where
  "level_in sr = ucast (drop_bit SR_FIFO_LVL_OFFSET sr AND SR_FIFO_LVL_MASK)"

definition fifo_level :: "hw \<Rightarrow> ('e, u8) io" where
  "fifo_level hw = abind (rd hw (Rng RNG_SR)) (\<lambda>sr. aret (level_in sr))"

definition level_round :: "hw \<Rightarrow> u8 \<Rightarrow> unit \<Rightarrow> ('e, unit + u8) io" where
  "level_round hw words _ =
     abind (fifo_level hw) (\<lambda>level. aret (if words \<le> level then Inr level else Inl ()))"

definition wait_for_fifo_level :: "hw \<Rightarrow> u8 \<Rightarrow> ('e, u8) io" where
  "wait_for_fifo_level hw words =
     abind (alift (oassert (words \<le> of_nat FIFO_SIZE))) (\<lambda>_.
     abind (rd hw (Rng RNG_ESR)) (\<lambda>esr.
     abind (if esr \<noteq> 0 then abind rng_software_reset (\<lambda>_. abind auto_seed (\<lambda>_. wait_for_initial_seed hw)) else aret ()) (\<lambda>_.
     aloop (level_round hw words) ())))"

definition rng_next_u32 :: "hw \<Rightarrow> ('e, u32) io" where
  "rng_next_u32 hw = abind (wait_for_fifo_level hw 1) (\<lambda>_. rd hw (Rng RNG_OUT))"

text \<open>Reading the next \<open>n\<close> words.\<close>

fun read_words :: "hw \<Rightarrow> nat \<Rightarrow> ('e, u32 list) io" where
  "read_words hw 0 = aret []"
| "read_words hw (Suc n) = abind (rd hw (Rng RNG_OUT)) (\<lambda>w. abind (read_words hw n) (\<lambda>ws. aret (w # ws)))"

text \<open>\<^verbatim>\<open>write\<close> fills a part of the buffer and returns that part; the result is the buffer and its length.\<close>

definition rng_write :: "hw \<Rightarrow> u32 list \<Rightarrow> ('e, u32 list \<times> nat) io" where
  "rng_write hw buf =
     abind (wait_for_fifo_level hw 1) (\<lambda>level.
     (let n = min (unat level) (length buf) in
      abind (read_words hw n) (\<lambda>ws. aret (ws @ drop n buf, n))))"

definition rng_generate :: "hw \<Rightarrow> ('e, u32 list) io" where
  "rng_generate hw =
     abind (wait_for_fifo_level hw (of_nat FIFO_SIZE)) (\<lambda>_. read_words hw FIFO_SIZE)"

section \<open>Words are only read when there are some\<close>

text \<open>
  The words that are in the FIFO for sure: those the status register showed last, without those read since; none after a
  reset. \<open>underruns\<close> counts the reads of \<^verbatim>\<open>OUT\<close> without one, \<open>words_read\<close> are the words read, the first one first.
\<close>

fun credit :: "trace \<Rightarrow> nat" where
  "credit [] = 0"
| "credit (Rd (Rng RNG_SR) v # tr) = unat (level_in v)"
| "credit (Rd (Rng RNG_OUT) v # tr) = credit tr - 1"
| "credit (Wr (Rng RNG_CMD) v # tr) = 0"
| "credit (_ # tr) = credit tr"

fun underruns :: "trace \<Rightarrow> nat" where
  "underruns [] = 0"
| "underruns (Rd (Rng RNG_OUT) v # tr) = (if credit tr = 0 then Suc (underruns tr) else underruns tr)"
| "underruns (_ # tr) = underruns tr"

fun words_read :: "trace \<Rightarrow> u32 list" where
  "words_read [] = []"
| "words_read (Rd (Rng RNG_OUT) v # tr) = words_read tr @ [v]"
| "words_read (_ # tr) = words_read tr"

definition drawn :: "trace \<Rightarrow> u32 list \<Rightarrow> trace \<Rightarrow> bool" where
  "drawn tr ws tr' \<longleftrightarrow> underruns tr' = underruns tr \<and> words_read tr' = words_read tr @ ws"

lemma drawn_trans: "drawn tr xs t \<Longrightarrow> drawn t ys u \<Longrightarrow> drawn tr (xs @ ys) u"
  by (simp add: drawn_def)

text \<open>What does not read \<^verbatim>\<open>OUT\<close> draws nothing.\<close>

lemma undrawn_event:
  assumes "\<And>v. e \<noteq> Rd (Rng RNG_OUT) v"
  shows "drawn tr [] (e # tr)"
proof -
  have "underruns (e # tr) = underruns tr \<and> words_read (e # tr) = words_read tr"
    using assms by (cases "e # tr" rule: underruns.cases; cases "e # tr" rule: words_read.cases) auto
  then show ?thesis by (simp add: drawn_def)
qed

definition draws_nothing :: "trace \<Rightarrow> trace \<Rightarrow> bool" where
  "draws_nothing tr tr' \<longleftrightarrow> drawn tr [] tr'"

lemma draws_nothing_preorder: "trace_preorder draws_nothing"
  by (auto simp: trace_preorder_def draws_nothing_def drawn_def)

lemma keeps_rd: "r \<noteq> Rng RNG_OUT \<Longrightarrow> keeps draws_nothing (rd hw r)"
  by (auto simp: keeps_def draws_nothing_def rd_def intro!: undrawn_event)

lemma keeps_wr: "keeps draws_nothing (wr r v)"
  by (auto simp: keeps_def draws_nothing_def wr_def intro!: undrawn_event)

lemma wait_keeps: "keeps draws_nothing (wait_for_fifo_level hw words)"
proof -
  have poll: "keeps draws_nothing (await hw (Rng RNG_SR) q)" for q
    unfolding await_def
    by (intro keeps_aloop keeps_abind draws_nothing_preorder keeps_rd keeps_pure) simp
  have level: "keeps draws_nothing (level_round hw words b)" for b
    unfolding level_round_def fifo_level_def
    by (intro keeps_abind draws_nothing_preorder keeps_rd keeps_pure) simp
  have recover: "keeps draws_nothing
      (if esr \<noteq> 0 then abind rng_software_reset (\<lambda>_. abind auto_seed (\<lambda>_. wait_for_initial_seed hw)) else aret ())" for esr :: u32
    unfolding rng_software_reset_def auto_seed_def wait_for_initial_seed_def
    by (auto intro!: keeps_abind draws_nothing_preorder keeps_wr keeps_pure poll)
  show ?thesis
    unfolding wait_for_fifo_level_def
    by (intro keeps_abind keeps_aloop draws_nothing_preorder keeps_rd keeps_pure recover level) simp
qed

lemma level_round_results:
  "level_round hw words b tr = (let v = answer hw tr (Rng RNG_SR) in
     (Ok (if words \<le> level_in v then Inr (level_in v) else Inl ()), Rd (Rng RNG_SR) v # tr))"
  by (simp add: level_round_def fifo_level_def rd_def abind_def Let_def)

lemma wait_level:
  assumes "(wait_for_fifo_level hw words tr :: ('e, u8) outcome \<times> trace) = (Ok level, tr')"
  shows "credit tr' = unat level" "words \<le> level" "drawn tr [] tr'" "words \<le> of_nat FIFO_SIZE"
proof -
  show "drawn tr [] tr'" using keepsD [OF wait_keeps assms] by (simp add: draws_nothing_def)
  from assms obtain t where loop: "(aloop (level_round hw words) () t :: ('e, u8) outcome \<times> trace) = (Ok level, tr')"
    and words: "words \<le> of_nat FIFO_SIZE"
    by (auto simp: wait_for_fifo_level_def abind_Ok_iff oassert_def split: if_splits)
  show "words \<le> of_nat FIFO_SIZE" by (rule words)
  from loop obtain t1 r1 where "(level_round hw words () t1 :: ('e, unit + u8) outcome \<times> trace) = (r1, tr')"
      "Ok level = loop_result r1" "\<And>b. r1 \<noteq> Ok (Inl b)"
    by (rule aloop_last [where P = "\<lambda>_ _. True"]) auto
  then show "credit tr' = unat level" "words \<le> level"
    by (auto simp: level_round_results Let_def split: if_splits)
qed

lemma read_words_drawn:
  assumes "n \<le> credit tr"
  shows "\<exists>ws tr'. (read_words hw n tr :: ('e, u32 list) outcome \<times> trace) = (Ok ws, tr') \<and> length ws = n \<and> drawn tr ws tr'"
  using assms
proof (induction n arbitrary: tr)
  case (Suc n)
  let ?v = "answer hw tr (Rng RNG_OUT)"
  let ?t = "Rd (Rng RNG_OUT) ?v # tr"
  obtain ws tr' where IH: "(read_words hw n ?t :: ('e, u32 list) outcome \<times> trace) = (Ok ws, tr')" "length ws = n"
      "drawn ?t ws tr'"
  proof -
    have "n \<le> credit ?t" using Suc.prems by simp
    then show ?thesis using Suc.IH [of ?t] that by blast
  qed
  have "drawn tr [?v] ?t" using Suc.prems by (simp add: drawn_def)
  then have "drawn tr (?v # ws) tr'" using drawn_trans IH(3) by fastforce
  moreover have "(read_words hw (Suc n) tr :: ('e, u32 list) outcome \<times> trace) = (Ok (?v # ws), tr')"
    using IH(1) by (simp add: rd_def abind_def)
  ultimately show ?case using IH(2) by auto
qed (simp add: drawn_def)

text \<open>
  C20. Random words are only read when the generator has them: no read of \<^verbatim>\<open>OUT\<close> exceeds the level shown before, also after
  the reset that follows an error, and what is returned are exactly the words read. \<^verbatim>\<open>write\<close> fills at least one word of a
  buffer that is not empty and leaves the rest unchanged, \<^verbatim>\<open>generate\<close> returns five words.
\<close>

theorem rng_words_available:
  "(rng_write hw buf tr = (Ok (buf', n) :: (unit, u32 list \<times> nat) outcome, tr1) \<longrightarrow>
      drawn tr (take n buf') tr1 \<and> drop n buf' = drop n buf \<and> length buf' = length buf \<and> n \<le> length buf \<and>
      (buf \<noteq> [] \<longrightarrow> 1 \<le> n)) \<and>
   (rng_generate hw tr = (Ok ws :: (unit, u32 list) outcome, tr2) \<longrightarrow> drawn tr ws tr2 \<and> length ws = 5) \<and>
   (rng_next_u32 hw tr = (Ok w :: (unit, u32) outcome, tr3) \<longrightarrow> drawn tr [w] tr3)"
proof (intro conjI impI)
  assume "rng_next_u32 hw tr = (Ok w :: (unit, u32) outcome, tr3)"
  then obtain level t where l: "(wait_for_fifo_level hw 1 tr :: (unit, u8) outcome \<times> trace) = (Ok level, t)"
      and t: "tr3 = Rd (Rng RNG_OUT) w # t"
    by (auto simp: rng_next_u32_def abind_Ok_iff rd_def)
  note W = wait_level [OF l]
  have "0 < credit t" using W(1,2) by (simp add: word_le_nat_alt)
  then have "drawn t [w] tr3" using t by (simp add: drawn_def)
  then show "drawn tr [w] tr3" using drawn_trans [OF W(3)] by simp
next
  assume "rng_generate hw tr = (Ok ws :: (unit, u32 list) outcome, tr2)"
  then obtain level t where l: "(wait_for_fifo_level hw (of_nat FIFO_SIZE) tr :: (unit, u8) outcome \<times> trace) = (Ok level, t)"
      and r: "(read_words hw FIFO_SIZE t :: (unit, u32 list) outcome \<times> trace) = (Ok ws, tr2)"
    by (auto simp: rng_generate_def abind_Ok_iff)
  note W = wait_level [OF l]
  have "FIFO_SIZE \<le> credit t" using W(1,2) by (simp add: word_le_nat_alt FIFO_SIZE_def)
  from read_words_drawn [OF this, of hw, where 'e = unit] r have "length ws = FIFO_SIZE" "drawn t ws tr2" by auto
  then show "drawn tr ws tr2" "length ws = 5" using drawn_trans [OF W(3)] by (simp_all add: FIFO_SIZE_def)
next
  assume "rng_write hw buf tr = (Ok (buf', n) :: (unit, u32 list \<times> nat) outcome, tr1)"
  then obtain level t ws where l: "(wait_for_fifo_level hw 1 tr :: (unit, u8) outcome \<times> trace) = (Ok level, t)"
      and n: "n = min (unat level) (length buf)"
      and r: "(read_words hw n t :: (unit, u32 list) outcome \<times> trace) = (Ok ws, tr1)" and buf': "buf' = ws @ drop n buf"
    by (auto simp: rng_write_def abind_Ok_iff Let_def)
  note W = wait_level [OF l]
  have "n \<le> credit t" using W(1) n by simp
  from read_words_drawn [OF this, of hw, where 'e = unit] r have ws: "length ws = n" "drawn t ws tr1" by auto
  then show "drawn tr (take n buf') tr1" using drawn_trans [OF W(3)] buf' by simp
  show "drop n buf' = drop n buf" "length buf' = length buf" "n \<le> length buf" using ws(1) buf' n by simp_all
  have "1 \<le> unat level" using W(2) by (simp add: word_le_nat_alt)
  then show "1 \<le> n" if "buf \<noteq> []" using n that by (simp add: Suc_le_eq)
qed

text \<open>A generator with five words in the FIFO.\<close>

definition full_fifo :: hw where
  "full_fifo = \<lparr>answer = (\<lambda>tr r. if r = Rng RNG_SR then 0x520 else if r = Rng RNG_OUT then of_nat (length tr) else 0),
     dma_memory = (\<lambda>_ _ n. replicate n 0)\<rparr>"

lemma full_fifo_level: "words \<le> 5 \<Longrightarrow> wait_for_fifo_level full_fifo words tr =
    (Ok 5 :: (unit, u8) outcome, Rd (Rng RNG_SR) 0x520 # Rd (Rng RNG_ESR) 0 # tr)"
proof -
  assume w: "words \<le> 5"
  have "aloop (level_round full_fifo words) () t = (Ok 5 :: (unit, u8) outcome, Rd (Rng RNG_SR) 0x520 # t)" for t
    by (rule aloop_break) (use w in \<open>simp add: level_round_results full_fifo_def level_in_def SR_FIFO_LVL_OFFSET_def SR_FIFO_LVL_MASK_def\<close>)
  then show ?thesis
    using w by (simp add: wait_for_fifo_level_def FIFO_SIZE_def rd_def abind_def full_fifo_def)
qed

theorem rng_words_available_witness:
  "\<exists>tr. rng_generate full_fifo [] = (Ok [2, 3, 4, 5, 6] :: (unit, u32 list) outcome, tr) \<and>
     words_read tr = [2, 3, 4, 5, 6] \<and> underruns tr = 0"
proof -
  have "\<exists>tr. rng_generate full_fifo [] = (Ok [2, 3, 4, 5, 6] :: (unit, u32 list) outcome, tr)"
    by (simp add: rng_generate_def FIFO_SIZE_def full_fifo_level abind_def)
      (simp add: eval_nat_numeral rd_def abind_def full_fifo_def)
  then show ?thesis
    using rng_words_available [of full_fifo _ "[]"] by (auto simp: drawn_def)
qed

end
