(* ===== verification/I2c.thy ===== *)
theory I2c
  imports Mmio
begin

text \<open>
  \<^verbatim>\<open>firmware/usbarmory-rt/src/i2c.rs\<close>: the I2C transfers that enable the USB-C receptacle during start-up. The
  registers of the controller are 16 bits wide.
\<close>

section \<open>Transfers\<close>

text \<open>The error has no further information.\<close>

datatype i2c_error = I2cError

datatype flag_state = Set | Clear

definition TIMEOUT :: u32 where "TIMEOUT = 33"
definition RNW_WRITE :: u8 where "RNW_WRITE = 0"
definition RNW_READ :: u8 where "RNW_READ = 1"
definition I2CR_IEN :: u16 where "I2CR_IEN = push_bit 7 1"
definition I2CR_MSTA :: u16 where "I2CR_MSTA = push_bit 5 1"
definition I2CR_MTX :: u16 where "I2CR_MTX = push_bit 4 1"
definition I2CR_TXAK :: u16 where "I2CR_TXAK = push_bit 3 1"
definition I2CR_RSTA :: u16 where "I2CR_RSTA = push_bit 2 1"
definition I2SR_IBB :: u16 where "I2SR_IBB = push_bit 5 1"
definition I2SR_IAL :: u16 where "I2SR_IAL = push_bit 4 1"
definition I2SR_IIF :: u16 where "I2SR_IIF = push_bit 1 1"
definition I2SR_RXAK :: u16 where "I2SR_RXAK = 1"

definition rd16 :: "hw \<Rightarrow> i2c_reg \<Rightarrow> (i2c_error, u16) io" where
  "rd16 hw r = abind (rd hw (I2c r)) (\<lambda>v. aret (ucast v))"

definition wr16 :: "i2c_reg \<Rightarrow> u16 \<Rightarrow> (i2c_error, unit) io" where
  "wr16 r v = wr (I2c r) (ucast v)"

definition rmw16 :: "hw \<Rightarrow> i2c_reg \<Rightarrow> (u16 \<Rightarrow> u16) \<Rightarrow> (i2c_error, unit) io" where
  "rmw16 hw r f = abind (rd16 hw r) (\<lambda>v. wr16 r (f v))"

text \<open>\<^verbatim>\<open>rtc::init\<close> and \<^verbatim>\<open>rtc::now\<close>.\<close>

definition rtc_init :: "('e, unit) io" where
  "rtc_init = wr (Snvs HPCR) 1"

definition rtc_now :: "hw \<Rightarrow> ('e, u32) io" where
  "rtc_now hw = rd hw (Snvs RTCLR)"

definition sr_round :: "hw \<Rightarrow> profile \<Rightarrow> u16 \<Rightarrow> flag_state \<Rightarrow> u32 \<Rightarrow> unit \<Rightarrow> (i2c_error, unit + u16) io" where
  "sr_round hw p flag state start _ =
     abind (rd16 hw I2SR) (\<lambda>sr.
     if sr AND I2SR_IAL \<noteq> 0 then alift (Err I2cError)
     else if sr AND flag = (case state of Set \<Rightarrow> flag | Clear \<Rightarrow> 0) then aret (Inr sr)
     else
       abind (rtc_now hw) (\<lambda>now.
       abind (alift (prof_add p start TIMEOUT)) (\<lambda>limit.
       if limit \<le> now then alift (Err I2cError) else aret (Inl ()))))"

definition i2c_wait_for_sr :: "hw \<Rightarrow> profile \<Rightarrow> u16 \<Rightarrow> flag_state \<Rightarrow> (i2c_error, u16) io" where
  "i2c_wait_for_sr hw p flag state =
     abind (rtc_now hw) (\<lambda>start.
     abind (aloop (sr_round hw p flag state start) ()) (\<lambda>sr.
     abind (if flag = I2SR_IIF \<and> state = Set then wr16 I2SR 0 else aret ()) (\<lambda>_.
     aret sr)))"

definition i2c_start :: "hw \<Rightarrow> profile \<Rightarrow> (i2c_error, unit) io" where
  "i2c_start hw p =
     abind (wr16 I2SR 0) (\<lambda>_.
     abind (wr16 I2CR I2CR_IEN) (\<lambda>_.
     abind (i2c_wait_for_sr hw p I2SR_IBB Clear) (\<lambda>_.
     abind (rmw16 hw I2CR (\<lambda>i2cr. i2cr OR I2CR_MSTA OR I2CR_MTX)) (\<lambda>_.
     abind (i2c_wait_for_sr hw p I2SR_IBB Set) (\<lambda>_. aret ())))))"

definition i2c_restart :: "hw \<Rightarrow> (i2c_error, unit) io" where
  "i2c_restart hw = rmw16 hw I2CR (\<lambda>i2cr. i2cr OR I2CR_RSTA)"

definition i2c_stop :: "hw \<Rightarrow> profile \<Rightarrow> (i2c_error, unit) io" where
  "i2c_stop hw p =
     abind (rmw16 hw I2CR (\<lambda>i2cr. (i2cr AND NOT I2CR_MSTA) AND NOT I2CR_MTX)) (\<lambda>_.
     abind (i2c_wait_for_sr hw p I2SR_IBB Clear) (\<lambda>_. aret ()))"

definition i2c_tx :: "hw \<Rightarrow> profile \<Rightarrow> u8 \<Rightarrow> (i2c_error, unit) io" where
  "i2c_tx hw p byte =
     abind (wr16 I2DR (ucast byte)) (\<lambda>_.
     abind (i2c_wait_for_sr hw p I2SR_IIF Set) (\<lambda>sr.
     if sr AND I2SR_RXAK \<noteq> 0 then alift (Err I2cError) else aret ()))"

definition i2c_write :: "hw \<Rightarrow> profile \<Rightarrow> u8 \<Rightarrow> u8 \<Rightarrow> u8 \<Rightarrow> (i2c_error, unit) io" where
  "i2c_write hw p devaddr regaddr val =
     abind (i2c_start hw p) (\<lambda>_.
     abind (afor [push_bit 1 devaddr OR RNW_WRITE, regaddr, val] (i2c_tx hw p)) (\<lambda>_.
     i2c_stop hw p))"

definition i2c_write_then_read :: "hw \<Rightarrow> profile \<Rightarrow> u8 \<Rightarrow> u8 \<Rightarrow> (i2c_error, u8) io" where
  "i2c_write_then_read hw p devaddr regaddr =
     abind (i2c_start hw p) (\<lambda>_.
     abind (afor [push_bit 1 devaddr OR RNW_WRITE, regaddr] (i2c_tx hw p)) (\<lambda>_.
     abind (i2c_restart hw) (\<lambda>_.
     abind (i2c_tx hw p (push_bit 1 devaddr OR RNW_READ)) (\<lambda>_.
     abind (rmw16 hw I2CR (\<lambda>i2cr. (i2cr AND NOT I2CR_MTX) OR I2CR_TXAK)) (\<lambda>_.
     abind (rd16 hw I2DR) (\<lambda>_.
     abind (i2c_wait_for_sr hw p I2SR_IIF Set) (\<lambda>_.
     abind (i2c_stop hw p) (\<lambda>_.
     abind (rd16 hw I2DR) (\<lambda>v. aret (ucast v))))))))))"

definition init_fusb303 :: "hw \<Rightarrow> profile \<Rightarrow> (i2c_error, unit) io" where
  "init_fusb303 hw p =
     abind (i2c_write hw p 0x31 0x05 0xBB) (\<lambda>_.
     abind (i2c_write_then_read hw p 0x31 0x05) (\<lambda>v.
     if v = 0xBB then aret () else alift (Err I2cError)))"

text \<open>Pins, clock and controller.\<close>

definition i2c_init :: "hw \<Rightarrow> (i2c_error, unit) io" where
  "i2c_init hw =
     abind (wr (Reg 0x20E0064) 0x10) (\<lambda>_.
     abind (wr (Reg 0x20E02F0) 0x1B8B1) (\<lambda>_.
     abind (wr (Soc I2C1_SCL_SELECT_INPUT) 0) (\<lambda>_.
     abind (wr (Reg 0x20E0068) 0x10) (\<lambda>_.
     abind (wr (Reg 0x20E02F4) 0x1B8B1) (\<lambda>_.
     abind (wr (Soc I2C1_SDA_SELECT_INPUT) 1) (\<lambda>_.
     abind (rmw hw (Soc CCGR2) (\<lambda>ccgr. ccgr OR push_bit 6 3)) (\<lambda>_.
     abind (wr16 IFDR 0x39) (\<lambda>_.
     wr16 I2CR 0))))))))"

section \<open>What a transfer does on the bus\<close>

text \<open>
  The control register reads back what was written, but the repeat-start bit always reads as zero.
\<close>

definition i2cr_reads_back :: "hw \<Rightarrow> bool" where
  "i2cr_reads_back hw \<longleftrightarrow> (\<forall>tr v. last_wr (I2c I2CR) tr = Some v \<longrightarrow> answer hw tr (I2c I2CR) = v AND NOT (ucast I2CR_RSTA))"

lemma sr_round_silent: "silent (sr_round hw p flag state start b)"
  unfolding sr_round_def rd16_def rtc_now_def by (auto intro!: trace_rules)

lemma wait_effects:
  assumes "i2c_wait_for_sr hw p flag state tr = (Ok sr, tr')"
  shows "effects tr' = (if flag = I2SR_IIF \<and> state = Set then [Wr (I2c I2SR) 0] else []) @ effects tr"
    and "sr AND flag = (case state of Set \<Rightarrow> flag | Clear \<Rightarrow> 0)" "sr AND I2SR_IAL = 0"
proof -
  from assms obtain start t1 where loop: "aloop (sr_round hw p flag state start) () (Rd (Snvs RTCLR) start # tr) = (Ok sr, t1)"
      and tr': "tr' = (if flag = I2SR_IIF \<and> state = Set then [Wr (I2c I2SR) 0] else []) @ t1"
    by (auto simp: i2c_wait_for_sr_def rtc_now_def rd_def abind_Ok_iff wr16_def wr_def split: if_splits)
  have "effects t1 = effects tr"
    using silentD [OF silent_aloop [OF sr_round_silent] loop] by simp
  then show "effects tr' = (if flag = I2SR_IIF \<and> state = Set then [Wr (I2c I2SR) 0] else []) @ effects tr"
    using tr' by simp
  from loop obtain t r1 where "sr_round hw p flag state start () t = (r1, t1)" "Ok sr = loop_result r1"
      "\<And>b. r1 \<noteq> Ok (Inl b)"
    by (rule aloop_last [where P = "\<lambda>_ _. True"]) auto
  then have "sr AND flag = (case state of Set \<Rightarrow> flag | Clear \<Rightarrow> 0) \<and> sr AND I2SR_IAL = 0"
    by (auto simp: sr_round_def rd16_def rd_def rtc_now_def abind_def prof_add_def split: if_splits option.splits profile.splits)
  then show "sr AND flag = (case state of Set \<Rightarrow> flag | Clear \<Rightarrow> 0)" "sr AND I2SR_IAL = 0" by simp_all
qed

text \<open>\<open>did tr es tr'\<close>: from \<open>tr\<close> to \<open>tr'\<close> the accesses that are not reads are \<open>es\<close>, the first one first.\<close>

definition did :: "trace \<Rightarrow> event list \<Rightarrow> trace \<Rightarrow> bool" where
  "did tr es tr' \<longleftrightarrow> effects tr' = rev es @ effects tr"

lemma did_trans: "did tr es t \<Longrightarrow> did t fs u \<Longrightarrow> did tr (es @ fs) u"
  by (simp add: did_def)

lemma last_wr_append:
  "last_wr r (es @ tr) = (case last_wr r es of None \<Rightarrow> last_wr r tr | Some v \<Rightarrow> Some v)"
  by (induction es rule: effects.induct) auto

lemma did_last: "did tr es tr' \<Longrightarrow> last_wr r (rev es) = Some v \<Longrightarrow> last_wr r tr' = Some v"
  using last_effects(1) [of r tr'] by (simp add: did_def last_wr_append)

lemma did_keeps_last: "did tr es tr' \<Longrightarrow> last_wr r (rev es) = None \<Longrightarrow> last_wr r tr' = last_wr r tr"
  using last_effects(1) [of r tr'] last_effects(1) [of r tr] by (simp add: did_def last_wr_append)

definition start_events :: "event list" where
  "start_events = [Wr (I2c I2SR) 0, Wr (I2c I2CR) 0x80, Wr (I2c I2CR) 0xB0]"

definition tx_events :: "u8 \<Rightarrow> event list" where
  "tx_events b = [Wr (I2c I2DR) (ucast b), Wr (I2c I2SR) 0]"

definition write_events :: "u8 \<Rightarrow> u8 \<Rightarrow> u8 \<Rightarrow> event list" where
  "write_events d r v = start_events @ concat (map tx_events [push_bit 1 d, r, v]) @ [Wr (I2c I2CR) 0x80]"

definition read_events :: "u8 \<Rightarrow> u8 \<Rightarrow> event list" where
  "read_events d r =
     start_events @ concat (map tx_events [push_bit 1 d, r]) @ [Wr (I2c I2CR) 0xB4] @
     tx_events (push_bit 1 d OR 1) @ [Wr (I2c I2CR) 0xA8, Wr (I2c I2SR) 0, Wr (I2c I2CR) 0x88]"

lemmas i2c_flags = I2CR_IEN_def I2CR_MSTA_def I2CR_MTX_def I2CR_TXAK_def I2CR_RSTA_def I2SR_IBB_def I2SR_IIF_def

lemma ucast_ucast16: "ucast (ucast (b :: u8) :: u16) = (ucast b :: u32)"
  by (rule bit_word_eqI) (auto simp: bit_simps dest: bit_imp_le_length)

lemma tx_did: "i2c_tx hw p b tr = (Ok (), tr') \<Longrightarrow> did tr (tx_events b) tr'"
proof -
  assume "i2c_tx hw p b tr = (Ok (), tr')"
  then obtain sr where "i2c_wait_for_sr hw p I2SR_IIF Set (Wr (I2c I2DR) (ucast b) # tr) = (Ok sr, tr')"
    by (auto simp: i2c_tx_def abind_Ok_iff wr16_def wr_def ucast_ucast16 split: if_splits)
  from wait_effects(1) [OF this] show ?thesis by (simp add: did_def tx_events_def)
qed

lemma txs_did: "afor bs (i2c_tx hw p) tr = (Ok (), tr') \<Longrightarrow> did tr (concat (map tx_events bs)) tr'"
proof (induction bs arbitrary: tr)
  case (Cons b bs)
  then obtain t where "i2c_tx hw p b tr = (Ok (), t)" "afor bs (i2c_tx hw p) t = (Ok (), tr')"
    by (auto simp: abind_Ok_iff)
  then show ?case using did_trans [OF tx_did Cons.IH] by simp
qed (simp add: did_def)

lemma txs_last: "last_wr (I2c I2CR) (rev (concat (map tx_events bs))) = None"
  by (induction bs) (auto simp: last_wr_append tx_events_def)

lemma rmw16_did:
  assumes "i2cr_reads_back hw" "last_wr (I2c I2CR) tr = Some v" "rmw16 hw I2CR f tr = (Ok (), tr')"
  shows "did tr [Wr (I2c I2CR) (ucast (f (ucast (v AND NOT (ucast I2CR_RSTA)))))] tr'"
  using assms by (auto simp: i2cr_reads_back_def rmw16_def rd16_def wr16_def rd_def wr_def abind_Ok_iff did_def)

lemma start_did:
  assumes "i2cr_reads_back hw" "i2c_start hw p tr = (Ok (), tr')"
  shows "did tr start_events tr'" "last_wr (I2c I2CR) tr' = Some 0xB0"
proof -
  let ?t1 = "Wr (I2c I2CR) 0x80 # Wr (I2c I2SR) 0 # tr"
  from assms(2) obtain sr t2 t3 sr2 where 2: "i2c_wait_for_sr hw p I2SR_IBB Clear ?t1 = (Ok sr, t2)"
      and 3: "rmw16 hw I2CR (\<lambda>i2cr. i2cr OR I2CR_MSTA OR I2CR_MTX) t2 = (Ok (), t3)"
      and 4: "i2c_wait_for_sr hw p I2SR_IBB Set t3 = (Ok sr2, tr')"
    by (auto simp: i2c_start_def abind_Ok_iff wr16_def wr_def I2CR_IEN_def)
  have a: "did tr [Wr (I2c I2SR) 0, Wr (I2c I2CR) 0x80] t2"
    using wait_effects(1) [OF 2] by (simp add: did_def)
  then have "last_wr (I2c I2CR) t2 = Some 0x80" by (rule did_last) simp
  then have b: "did t2 [Wr (I2c I2CR) 0xB0] t3" using rmw16_did [OF assms(1) _ 3] by (simp add: i2c_flags)
  have c: "did t3 [] tr'" using wait_effects(1) [OF 4] by (simp add: did_def i2c_flags)
  show "did tr start_events tr'" using did_trans [OF did_trans [OF a b] c] by (simp add: start_events_def)
  then show "last_wr (I2c I2CR) tr' = Some 0xB0" by (rule did_last) (simp add: start_events_def)
qed

lemma stop_did:
  assumes "i2cr_reads_back hw" "last_wr (I2c I2CR) tr = Some v" "i2c_stop hw p tr = (Ok (), tr')"
  shows "did tr [Wr (I2c I2CR) (ucast ((ucast (v AND NOT (ucast I2CR_RSTA)) AND NOT I2CR_MSTA) AND NOT I2CR_MTX))] tr'"
proof -
  from assms(3) obtain t sr where 1: "rmw16 hw I2CR (\<lambda>i2cr. (i2cr AND NOT I2CR_MSTA) AND NOT I2CR_MTX) tr = (Ok (), t)"
      and 2: "i2c_wait_for_sr hw p I2SR_IBB Clear t = (Ok sr, tr')"
    by (auto simp: i2c_stop_def abind_Ok_iff)
  have "did t [] tr'" using wait_effects(1) [OF 2] by (simp add: did_def)
  then show ?thesis using did_trans [OF rmw16_did [OF assms(1,2) 1]] by simp
qed

lemma write_did:
  assumes "i2cr_reads_back hw" "i2c_write hw p d r v tr = (Ok (), tr')"
  shows "did tr (write_events d r v) tr'"
proof -
  from assms(2) obtain t1 t2 where 1: "i2c_start hw p tr = (Ok (), t1)"
      and 2: "afor [push_bit 1 d, r, v] (i2c_tx hw p) t1 = (Ok (), t2)" and 3: "i2c_stop hw p t2 = (Ok (), tr')"
    by (auto simp: i2c_write_def abind_Ok_iff RNW_WRITE_def simp del: afor.simps)
  note s = start_did [OF assms(1) 1] and x = txs_did [OF 2]
  have "last_wr (I2c I2CR) t2 = Some 0xB0" using s(2) did_keeps_last [OF x txs_last] by simp
  from stop_did [OF assms(1) this 3] have "did t2 [Wr (I2c I2CR) 0x80] tr'" by (simp add: i2c_flags)
  from did_trans [OF did_trans [OF s(1) x] this] show ?thesis by (simp add: write_events_def)
qed

lemma read_did:
  assumes "i2cr_reads_back hw" "i2c_write_then_read hw p d r tr = (Ok v, tr')"
  shows "did tr (read_events d r) tr' \<and> (\<exists>w t. tr' = Rd (I2c I2DR) w # t \<and> v = ucast (ucast w :: u16))"
proof -
  let ?receive = "\<lambda>i2cr. (i2cr AND NOT I2CR_MTX) OR I2CR_TXAK"
  from assms(2) obtain t1 t2 t3 t4 t5 t6 t7 t8 a sr w where 1: "i2c_start hw p tr = (Ok (), t1)"
      and 2: "afor [push_bit 1 d, r] (i2c_tx hw p) t1 = (Ok (), t2)"
      and 3: "i2c_restart hw t2 = (Ok (), t3)" and 4: "i2c_tx hw p (push_bit 1 d OR 1) t3 = (Ok (), t4)"
      and 5: "rmw16 hw I2CR ?receive t4 = (Ok (), t5)" and 6: "rd16 hw I2DR t5 = (Ok a, t6)"
      and 7: "i2c_wait_for_sr hw p I2SR_IIF Set t6 = (Ok sr, t7)" and 8: "i2c_stop hw p t7 = (Ok (), t8)"
      and 9: "rd16 hw I2DR t8 = (Ok w, tr')" "v = ucast w"
    by (auto simp: i2c_write_then_read_def abind_Ok_iff RNW_WRITE_def RNW_READ_def simp del: afor.simps)
  note s = start_did [OF assms(1) 1] and x = txs_did [OF 2]
  have l2: "last_wr (I2c I2CR) t2 = Some 0xB0" using s(2) did_keeps_last [OF x txs_last] by simp
  have r3: "did t2 [Wr (I2c I2CR) 0xB4] t3"
    using rmw16_did [OF assms(1) l2 3 [unfolded i2c_restart_def]] by (simp add: i2c_flags)
  note x4 = tx_did [OF 4]
  from did_trans [OF r3 x4] have l4: "last_wr (I2c I2CR) t4 = Some 0xB4" by (rule did_last) (simp add: tx_events_def)
  have r5: "did t4 [Wr (I2c I2CR) 0xA8] t5" using rmw16_did [OF assms(1) l4 5] by (simp add: i2c_flags)
  have "did t5 [] t6" using 6 by (auto simp: rd16_def rd_def abind_Ok_iff did_def)
  moreover have "did t6 [Wr (I2c I2SR) 0] t7" using wait_effects(1) [OF 7] by (simp add: did_def)
  ultimately have r7: "did t5 [Wr (I2c I2SR) 0] t7" using did_trans by fastforce
  from did_trans [OF r5 r7] have l7: "last_wr (I2c I2CR) t7 = Some 0xA8" by (rule did_last) simp
  have r8: "did t7 [Wr (I2c I2CR) 0x88] t8" using stop_did [OF assms(1) l7 8] by (simp add: i2c_flags)
  have 10: "did t8 [] tr'" "\<exists>x t. tr' = Rd (I2c I2DR) x # t \<and> v = ucast (ucast x :: u16)"
    using 9 by (auto simp: rd16_def rd_def abind_Ok_iff did_def)
  note all = did_trans [OF s(1) did_trans [OF x did_trans [OF r3 did_trans [OF x4 did_trans [OF r5
      did_trans [OF r7 did_trans [OF r8 10(1)]]]]]]]
  show ?thesis using all 10(2) by (simp add: read_events_def)
qed


text \<open>A controller whose device acknowledges every byte and sends the value back.\<close>

definition good_bus :: hw where
  "good_bus = \<lparr>answer = (\<lambda>tr r.
       let cr = (case last_wr (I2c I2CR) tr of None \<Rightarrow> 0 | Some v \<Rightarrow> v)
       in if r = I2c I2CR then cr AND NOT (ucast I2CR_RSTA)
          else if r = I2c I2SR then (if cr AND 0x20 \<noteq> 0 then 0x22 else 2)
          else if r = I2c I2DR then 0xBB else 0),
     dma_memory = (\<lambda>_ _ n. replicate n 0)\<rparr>"

lemma sr_now:
  fixes sr :: u16
  assumes "sr = ucast (answer hw (Rd (Snvs RTCLR) (answer hw tr (Snvs RTCLR)) # tr) (I2c I2SR))"
    and "sr AND I2SR_IAL = 0" "sr AND flag = (case state of Set \<Rightarrow> flag | Clear \<Rightarrow> 0)"
  shows "\<exists>es. i2c_wait_for_sr hw p flag state tr = (Ok sr, es @ tr) \<and> last_wr (I2c I2CR) es = None"
proof -
  let ?n = "answer hw tr (Snvs RTCLR)"
  let ?t = "Rd (Snvs RTCLR) ?n # tr"
  let ?w = "if flag = I2SR_IIF \<and> state = Set then [Wr (I2c I2SR) 0] else []"
  have "aloop (sr_round hw p flag state ?n) () ?t = (Ok sr, Rd (I2c I2SR) (answer hw ?t (I2c I2SR)) # ?t)"
    by (rule aloop_break) (use assms in \<open>simp add: sr_round_def rd16_def rd_def abind_def\<close>)
  then have "i2c_wait_for_sr hw p flag state tr = (Ok sr, (?w @ [Rd (I2c I2SR) (answer hw ?t (I2c I2SR)), Rd (Snvs RTCLR) ?n]) @ tr)"
    by (simp add: i2c_wait_for_sr_def rtc_now_def rd_def abind_def wr16_def wr_def)
  then show ?thesis by (intro exI conjI) (assumption, simp)
qed

definition on_bus :: "trace \<Rightarrow> u32 \<Rightarrow> bool" where
  "on_bus tr v \<longleftrightarrow> last_wr (I2c I2CR) tr = Some v"

lemma on_bus_append: "on_bus tr v \<Longrightarrow> last_wr (I2c I2CR) es = None \<Longrightarrow> on_bus (es @ tr) v"
  by (simp add: on_bus_def last_wr_append)

lemma good_status:
  "on_bus tr v \<Longrightarrow> answer good_bus (Rd (Snvs RTCLR) x # tr) (I2c I2SR) = (if v AND 0x20 \<noteq> 0 then 0x22 else 2)"
  by (simp add: good_bus_def on_bus_def Let_def)

lemma good_wait:
  assumes "on_bus tr v" "v AND 0x20 \<noteq> 0 \<and> state = Set \<or> v AND 0x20 = 0 \<and> flag = I2SR_IBB \<and> state = Clear"
    "flag = I2SR_IBB \<or> flag = I2SR_IIF"
  shows "\<exists>tr'. i2c_wait_for_sr good_bus p flag state tr = (Ok (if v AND 0x20 \<noteq> 0 then 0x22 else 2), tr') \<and> on_bus tr' v"
proof -
  have "\<exists>es. i2c_wait_for_sr good_bus p flag state tr = (Ok (if v AND 0x20 \<noteq> 0 then 0x22 else 2), es @ tr) \<and>
      last_wr (I2c I2CR) es = None"
    by (rule sr_now) (use assms in \<open>auto simp: good_status I2SR_IAL_def I2SR_IBB_def I2SR_IIF_def\<close>)
  then show ?thesis using on_bus_append [OF assms(1)] by blast
qed

lemma good_rmw:
  assumes "on_bus tr v"
  shows "\<exists>tr'. rmw16 good_bus I2CR f tr = (Ok (), tr') \<and> on_bus tr' (ucast (f (ucast (v AND NOT (ucast I2CR_RSTA)))))"
  using assms by (simp add: rmw16_def rd16_def wr16_def rd_def wr_def abind_def good_bus_def on_bus_def)

lemma good_txs:
  assumes "on_bus tr v" "v AND 0x20 \<noteq> 0"
  shows "\<exists>tr'. afor bs (i2c_tx good_bus p) tr = (Ok (), tr') \<and> on_bus tr' v"
  using assms(1)
proof (induction bs arbitrary: tr)
  case (Cons b bs)
  have "on_bus (Wr (I2c I2DR) (ucast b) # tr) v" using Cons.prems by (simp add: on_bus_def)
  from good_wait [OF this, of Set I2SR_IIF p] obtain t
    where "i2c_wait_for_sr good_bus p I2SR_IIF Set (Wr (I2c I2DR) (ucast b) # tr) = (Ok 0x22, t)" "on_bus t v"
    using assms(2) by auto
  then have "i2c_tx good_bus p b tr = (Ok (), t)"
    by (simp add: i2c_tx_def wr16_def wr_def abind_def ucast_ucast16 I2SR_RXAK_def)
  then show ?case using Cons.IH [OF \<open>on_bus t v\<close>] by auto
qed auto

lemma good_start: "\<exists>tr'. i2c_start good_bus p tr = (Ok (), tr') \<and> on_bus tr' 0xB0"
proof -
  let ?t = "Wr (I2c I2CR) 0x80 # Wr (I2c I2SR) 0 # tr"
  have "on_bus ?t 0x80" by (simp add: on_bus_def)
  from good_wait [OF this, of Clear I2SR_IBB p] obtain t1
    where 1: "i2c_wait_for_sr good_bus p I2SR_IBB Clear ?t = (Ok 2, t1)" "on_bus t1 0x80" by auto
  from good_rmw [OF 1(2), of "\<lambda>i2cr. i2cr OR I2CR_MSTA OR I2CR_MTX"] obtain t2
    where 2: "rmw16 good_bus I2CR (\<lambda>i2cr. i2cr OR I2CR_MSTA OR I2CR_MTX) t1 = (Ok (), t2)" "on_bus t2 0xB0"
    by (auto simp: i2c_flags)
  from good_wait [OF 2(2), of Set I2SR_IBB p] obtain t3
    where 3: "i2c_wait_for_sr good_bus p I2SR_IBB Set t2 = (Ok 0x22, t3)" "on_bus t3 0xB0" by auto
  show ?thesis using 1 2 3 by (simp add: i2c_start_def wr16_def wr_def abind_def I2CR_IEN_def)
qed

lemma good_stop:
  assumes "on_bus tr v" "v = 0xB0 \<or> v = 0xA8"
  shows "\<exists>tr'. i2c_stop good_bus p tr = (Ok (), tr')"
proof -
  let ?f = "\<lambda>i2cr. (i2cr AND NOT I2CR_MSTA) AND NOT I2CR_MTX"
  from good_rmw [OF assms(1), of ?f] obtain t1 w where 1: "rmw16 good_bus I2CR ?f tr = (Ok (), t1)" "on_bus t1 w"
      and w: "w = 0x80 \<or> w = 0x88"
    using assms(2) by (auto simp: i2c_flags)
  from good_wait [OF 1(2), of Clear I2SR_IBB p] obtain t2
    where "i2c_wait_for_sr good_bus p I2SR_IBB Clear t1 = (Ok 2, t2)" using w by auto
  then show ?thesis using 1 by (simp add: i2c_stop_def abind_def)
qed

lemma good_init: "\<exists>tr. init_fusb303 good_bus p [] = (Ok (), tr)"
proof -
  obtain t1 where 1: "i2c_start good_bus p [] = (Ok (), t1)" "on_bus t1 0xB0" using good_start by blast
  obtain t2 where 2: "afor [0x62, 5, 0xBB] (i2c_tx good_bus p) t1 = (Ok (), t2)" "on_bus t2 0xB0"
    using good_txs [OF 1(2)] by fastforce
  obtain t3 where 3: "i2c_stop good_bus p t2 = (Ok (), t3)" using good_stop [OF 2(2)] by blast
  have w: "i2c_write good_bus p 0x31 5 0xBB [] = (Ok (), t3)"
    using 1 2 3 by (simp add: i2c_write_def abind_def RNW_WRITE_def del: afor.simps)
  obtain u1 where u1: "i2c_start good_bus p t3 = (Ok (), u1)" "on_bus u1 0xB0" using good_start by blast
  obtain u2 where u2: "afor [0x62, 5] (i2c_tx good_bus p) u1 = (Ok (), u2)" "on_bus u2 0xB0"
    using good_txs [OF u1(2)] by fastforce
  obtain u3 where u3: "i2c_restart good_bus u2 = (Ok (), u3)" "on_bus u3 0xB4"
    using good_rmw [OF u2(2)] unfolding i2c_restart_def by (fastforce simp: i2c_flags)
  obtain u4 where u4: "afor [0x63] (i2c_tx good_bus p) u3 = (Ok (), u4)" "on_bus u4 0xB4"
    using good_txs [OF u3(2)] by fastforce
  have tx: "i2c_tx good_bus p 0x63 u3 = (Ok (), u4)"
    using u4(1) by (auto simp: abind_def split: prod.splits outcome.splits)
  obtain u5 where u5: "rmw16 good_bus I2CR (\<lambda>i2cr. (i2cr AND NOT I2CR_MTX) OR I2CR_TXAK) u4 = (Ok (), u5)" "on_bus u5 0xA8"
    using good_rmw [OF u4(2), of "\<lambda>i2cr. (i2cr AND NOT I2CR_MTX) OR I2CR_TXAK"] by (auto simp: i2c_flags)
  have dr: "rd16 good_bus I2DR t = (Ok 0xBB, Rd (I2c I2DR) 0xBB # t)" for t
    by (simp add: rd16_def rd_def abind_def good_bus_def)
  have "on_bus (Rd (I2c I2DR) 0xBB # u5) 0xA8" using u5(2) by (simp add: on_bus_def)
  from good_wait [OF this, of Set I2SR_IIF p] obtain u6
    where u6: "i2c_wait_for_sr good_bus p I2SR_IIF Set (Rd (I2c I2DR) 0xBB # u5) = (Ok 0x22, u6)" "on_bus u6 0xA8" by auto
  obtain u7 where u7: "i2c_stop good_bus p u6 = (Ok (), u7)" using good_stop [OF u6(2)] by blast
  have "i2c_write_then_read good_bus p 0x31 5 t3 = (Ok 0xBB, Rd (I2c I2DR) 0xBB # u7)"
    using u1 u2 u3 tx u5 dr u6 u7
    by (simp add: i2c_write_then_read_def abind_def RNW_WRITE_def RNW_READ_def del: afor.simps)
  then show ?thesis using w by (simp add: init_fusb303_def abind_def)
qed


end
