(* ===== verification/Rt.thy ===== *)
theory Rt
  imports I2c Serial
begin

text \<open>
  \<^verbatim>\<open>firmware/usbarmory-rt\<close>: what happens before \<^verbatim>\<open>main\<close> (\<^verbatim>\<open>start\<close> in \<^verbatim>\<open>src/lib.rs\<close>, \<^verbatim>\<open>leds.rs\<close>, \<^verbatim>\<open>serial.rs\<close>, \<^verbatim>\<open>rtc.rs\<close>). Clearing
  \<^verbatim>\<open>.bss\<close> and copying \<^verbatim>\<open>.data\<close> is the library r0 and not modelled.
\<close>

section \<open>The steps of the start-up\<close>

definition rt_leds_init :: "hw \<Rightarrow> ('e, unit) io" where
  "rt_leds_init hw = abind (rd hw (Gpio GDIR)) (\<lambda>old. wr (Gpio GDIR) (old OR BLUE OR WHITE))"

definition leds_value :: "bool \<Rightarrow> bool \<Rightarrow> u32 \<Rightarrow> u32" where
  "leds_value blue white dr =
     (let dr = (if blue then dr AND NOT BLUE else dr OR BLUE)
      in if white then dr AND NOT WHITE else dr OR WHITE)"

definition rt_leds_set :: "hw \<Rightarrow> bool \<Rightarrow> bool \<Rightarrow> ('e, unit) io" where
  "rt_leds_set hw blue white =
     abind (rd hw (Gpio GPIO_DR)) (\<lambda>dr. wr (Gpio GPIO_DR) (leds_value blue white dr))"

definition baud_rate :: "bool \<Rightarrow> u32 \<times> u32" where
  "baud_rate host_is_macos = (if host_is_macos then (2, 4) else (0xF, 20 - 1))"

definition rt_serial_init :: "hw \<Rightarrow> bool \<Rightarrow> ('e, unit) io" where
  "rt_serial_init hw host_is_macos =
     abind (afor [(0x20E0094, 0), (0x20E0320, 0x1B0B1), (0x20E0098, 0), (0x20E0324, 0x1B0B1), (0x20E062C, 1)]
       (\<lambda>(a, v). wr (Reg a) v)) (\<lambda>_.
     abind (rmw hw (Soc CCGR0) (\<lambda>ccgr. ccgr OR push_bit 28 3)) (\<lambda>_.
     abind (await hw (Uart UTS) (\<lambda>v. v AND push_bit 6 1 \<noteq> 0)) (\<lambda>_.
     abind (wr (Uart UCR1) 0) (\<lambda>_.
     abind (wr (Uart UCR2) 0) (\<lambda>_.
     abind (await hw (Uart UCR2) (\<lambda>v. v AND 1 \<noteq> 0)) (\<lambda>_.
     afor [(UCR2, 0x4027), (UCR3, 0x0784), (UCR4, 0x8000), (UFCR, 0x0A81), (UBIR, fst (baud_rate host_is_macos)),
           (UBMR, snd (baud_rate host_is_macos)), (UMCR, 0), (UCR1, 1)] (\<lambda>(r, v). wr (Uart r) v)))))))"

text \<open>\<^verbatim>\<open>fatal\<close>: both LEDs on, then a loop without end.\<close>

definition rt_fatal :: "hw \<Rightarrow> ('e, 'a) io" where
  "rt_fatal hw = abind (rt_leds_set hw True True) (\<lambda>_. alift Hang)"

definition delay_round :: "hw \<Rightarrow> profile \<Rightarrow> u32 \<Rightarrow> unit \<Rightarrow> (i2c_error, unit + unit) io" where
  "delay_round hw p start _ =
     abind (rtc_now hw) (\<lambda>now.
     abind (alift (prof_add p start 6554)) (\<lambda>limit.
     aret (if now < limit then Inl () else Inr ())))"

definition rt_start :: "hw \<Rightarrow> profile \<Rightarrow> bool \<Rightarrow> (i2c_error, unit) io \<Rightarrow> (i2c_error, unit) io" where
  "rt_start hw p host_is_macos main =
     abind rtc_init (\<lambda>_.
     abind (rt_leds_init hw) (\<lambda>_.
     abind (rt_leds_set hw False True) (\<lambda>_.
     abind (i2c_init hw) (\<lambda>_.
     abind (\<lambda>tr. case init_fusb303 hw p tr of (Err e, tr') \<Rightarrow> rt_fatal hw tr' | x \<Rightarrow> x) (\<lambda>_.
     abind (rt_serial_init hw host_is_macos) (\<lambda>_.
     abind (rtc_now hw) (\<lambda>start.
     abind (aloop (delay_round hw p start) ()) (\<lambda>_. main))))))))"

section \<open>Facts\<close>

text \<open>Setting the LEDs changes no other pin, and each LED is as asked for.\<close>

lemma led_bit [simp]: "bit BLUE i \<longleftrightarrow> i = 22" "bit WHITE i \<longleftrightarrow> i = 21"
proof -
  have b: "BLUE = 2 ^ 22" "WHITE = 2 ^ 21" by (simp_all add: BLUE_def WHITE_def)
  have "bit (2 ^ m :: u32) i \<longleftrightarrow> i < 32 \<and> m = i" for m by (auto simp: bit_exp_iff)
  from this [of 22] this [of 21] show "bit BLUE i \<longleftrightarrow> i = 22" "bit WHITE i \<longleftrightarrow> i = 21"
    unfolding b by auto
qed

lemma leds_value_bits:
  "bit (leds_value blue white dr) i =
     (if i = 22 then \<not> blue else if i = 21 then \<not> white else bit dr i)"
proof (cases "i < 32")
  case True
  then show ?thesis by (auto simp: leds_value_def Let_def bit_simps)
next
  case False
  then have "\<not> bit w i" for w :: u32 using bit_imp_le_length by fastforce
  then show ?thesis using False by simp
qed

text \<open>Both baud rates of the 80 MHz clock: 80 MHz (UBIR + 1) / (16 (UBMR + 1)).\<close>

lemma baud_rate_4M: "baud_rate False = (b, m) \<Longrightarrow> 80000000 * (unat b + 1) = 4000000 * (16 * (unat m + 1))"
  by (auto simp: baud_rate_def)

lemma baud_rate_3M: "baud_rate True = (b, m) \<Longrightarrow> 80000000 * (unat b + 1) = 3000000 * (16 * (unat m + 1))"
  by (auto simp: baud_rate_def)

text \<open>Without the receptacle the start-up ends with both LEDs on; \<^verbatim>\<open>main\<close> is not called.\<close>

lemma start_without_receptacle:
  assumes "init_fusb303 hw p t = (Err e, t1)"
    "abind rtc_init (\<lambda>_. abind (rt_leds_init hw) (\<lambda>_. abind (rt_leds_set hw False True) (\<lambda>_. i2c_init hw))) tr = (Ok (), t)"
  shows "rt_start hw p mac main tr =
    (Hang, Wr (Gpio GPIO_DR) (leds_value True True (answer hw t1 (Gpio GPIO_DR))) # Rd (Gpio GPIO_DR) (answer hw t1 (Gpio GPIO_DR)) # t1)"
proof -
  have f: "(case init_fusb303 hw p t of (Err e, tr') \<Rightarrow> rt_fatal hw tr' | x \<Rightarrow> x) =
      (Hang, Wr (Gpio GPIO_DR) (leds_value True True (answer hw t1 (Gpio GPIO_DR))) # Rd (Gpio GPIO_DR) (answer hw t1 (Gpio GPIO_DR)) # t1)"
    by (simp add: assms(1) rt_fatal_def rt_leds_set_def rd_def wr_def abind_def)
  define rest where "rest = abind (rt_serial_init hw mac) (\<lambda>_. abind (rtc_now hw) (\<lambda>start.
      abind (aloop (delay_round hw p start) ()) (\<lambda>_. main)))"
  define prefix where "prefix = (abind rtc_init (\<lambda>_. abind (rt_leds_init hw) (\<lambda>_. abind (rt_leds_set hw False True) (\<lambda>_. i2c_init hw)))
      :: (i2c_error, unit) io)"
  have "prefix tr = (Ok (), t)" using assms(2) by (simp only: prefix_def)
  moreover have "rt_start hw p mac main =
      abind prefix (\<lambda>_. abind (\<lambda>tr. case init_fusb303 hw p tr of (Err e, tr') \<Rightarrow> rt_fatal hw tr' | x \<Rightarrow> x) (\<lambda>_. rest))"
    by (simp only: rt_start_def prefix_def abind_assoc rest_def)
  ultimately show ?thesis using f by (simp add: abind_def)
qed

end
