(* ===== verification/Interrupts.thy ===== *)
theory Interrupts
  imports RegTable Gic
begin

text \<open>
  \<^verbatim>\<open>firmware/usbarmory-rt\<close>: interrupts. The build script (\<^verbatim>\<open>build.rs\<close>) makes the table of handlers from
  \<^verbatim>\<open>interrupts.txt\<close>; the entry point \<^verbatim>\<open>IRQ\<close> (\<^verbatim>\<open>src/lib.rs\<close>) acknowledges an interrupt, calls its handler and ends it.
\<close>

section \<open>The build script\<close>

datatype build_error = ExpectedNumber | BadNumber | UnexpectedEof | ExpectedDescription | WrongCount | WrongLength

record interrupt =
  iname :: string
  irq_number :: u16
  idescription :: string

text \<open>\<^verbatim>\<open>splitn(2, char::is_whitespace)\<close>.\<close>

definition splitn2_space :: "string \<Rightarrow> string \<times> string option" where
  "splitn2_space s =
     (takeWhile (\<lambda>c. \<not> is_space c) s,
      if \<exists>c \<in> set s. is_space c then Some (tl (dropWhile (\<lambda>c. \<not> is_space c) s)) else None)"

definition interrupt_line :: "string \<Rightarrow> (build_error, interrupt) outcome" where
  "interrupt_line line =
     (case splitn2_space line of (number, rest) \<Rightarrow>
      case from_str_radix 16 10 number of
        None \<Rightarrow> Err BadNumber
      | Some irq \<Rightarrow>
          (case rest of
             None \<Rightarrow> Err UnexpectedEof
           | Some r \<Rightarrow>
               (case splitn2_space (trim r) of
                  (name, None) \<Rightarrow> Err ExpectedDescription
                | (name, Some d) \<Rightarrow> Ok \<lparr>iname = name, irq_number = of_nat irq, idescription = trim d\<rparr>)))"

fun interrupt_lines :: "string list \<Rightarrow> (build_error, interrupt list) outcome" where
  "interrupt_lines [] = Ok []"
| "interrupt_lines (l # ls) = obind (interrupt_line l) (\<lambda>i. obind (interrupt_lines ls) (\<lambda>is'. Ok (i # is')))"

definition NIRQS :: nat where "NIRQS = 128"
definition IRQ_START :: u16 where "IRQ_START = 32"

definition lower :: "char \<Rightarrow> char" where
  "lower c = (let n = of_char c :: nat in if 65 \<le> n \<and> n \<le> 90 then char_of (n + 32) else c)"

definition reserved :: "interrupt \<Rightarrow> bool" where
  "reserved i \<longleftrightarrow> map lower (iname i) = ''reserved''"

definition read_interrupts :: "string \<Rightarrow> (build_error, interrupt list) outcome" where
  "read_interrupts txt =
     obind (interrupt_lines (txt_lines (trim txt))) (\<lambda>entries.
     if length entries \<noteq> NIRQS then Err WrongCount
     else Ok (filter (\<lambda>i. \<not> reserved i) entries))"

text \<open>The inner loop of the array: reserved entries until the position is that of the interrupt.\<close>

function fill :: "profile \<Rightarrow> u16 \<Rightarrow> u16 \<Rightarrow> (build_error, nat) outcome" where
  "fill p pos irq =
     (if pos = irq then Ok 0
      else if prof_add p pos 1 = (Panic :: (build_error, u16) outcome) then Panic
      else obind (fill p (pos + 1) irq) (\<lambda>n. Ok (n + 1)))"
  by auto

termination fill
proof (relation "measure (\<lambda>(p, pos, irq). unat (irq - pos))")
  fix pos irq :: u16
  assume "pos \<noteq> irq"
  then have "irq - pos \<noteq> 0" by simp
  moreover have "irq - (pos + 1) = irq - pos - 1" by simp
  ultimately have "unat (irq - (pos + 1)) < unat (irq - pos)"
    by (metis unat_gt_0 unat_minus_one diff_less zero_less_one)
  then show "((p, pos + 1, irq), p, pos, irq) \<in> measure (\<lambda>(p, pos, irq). unat (irq - pos))" for p
    by simp
qed simp

declare fill.simps [simp del]

text \<open>The elements of \<^verbatim>\<open>SPIS\<close>: the name of a handler, or none for \<^verbatim>\<open>DefaultHandler\<close>.\<close>

fun spis_elements :: "profile \<Rightarrow> u16 \<Rightarrow> interrupt list \<Rightarrow> (build_error, string option list) outcome" where
  "spis_elements p pos [] = Ok []"
| "spis_elements p pos (i # is') =
     obind (fill p pos (irq_number i)) (\<lambda>n.
     obind (prof_add p (irq_number i) 1) (\<lambda>pos'.
     obind (spis_elements p pos' is') (\<lambda>es.
     Ok (replicate n None @ Some (iname i) # es))))"

text \<open>The generated array has the type \<^verbatim>\<open>[_; 128]\<close>; with another number of elements it does not compile.\<close>

definition spis_table :: "profile \<Rightarrow> interrupt list \<Rightarrow> (build_error, string option list) outcome" where
  "spis_table p is' =
     obind (spis_elements p IRQ_START is') (\<lambda>es. if length es = NIRQS then Ok es else Err WrongLength)"

section \<open>The entry point\<close>

text \<open>What an interrupt number stands for; the array is accessed unchecked, so an index may be outside of it.\<close>

datatype irq_source = Spurious | Sgi nat | Spi nat | Outside nat | Unknown

definition irq_source_of :: "profile \<Rightarrow> u16 \<Rightarrow> (unit, irq_source) outcome" where
  "irq_source_of p iid =
     (if iid = 1023 then Ok Spurious
      else if iid < 16 then Ok (Sgi (unat iid))
      else if iid < 32 + 128 then
        obind (prof_sub p iid 32) (\<lambda>i. Ok (if unat i < NIRQS then Spi (unat i) else Outside (unat i)))
      else Ok Unknown)"

text \<open>\<open>call\<close> calls a handler. The \<^verbatim>\<open>DefaultHandler\<close> for unknown numbers is followed by \<^verbatim>\<open>fatal\<close>, which never returns.\<close>

definition IRQ :: "hw \<Rightarrow> profile \<Rightarrow> (irq_source \<Rightarrow> (unit, unit) io) \<Rightarrow> (unit, unit) io" where
  "IRQ hw p call =
     abind (gic_read hw gicc ''IAR'' 0) (\<lambda>iar.
     let iid = ucast (iar AND (push_bit 10 1 - 1)) :: u16 in
     abind (alift (irq_source_of p iid)) (\<lambda>src.
     case src of
       Spurious \<Rightarrow> aret ()
     | Unknown \<Rightarrow> abind (call Unknown) (\<lambda>_. alift Hang)
     | _ \<Rightarrow> abind (call src) (\<lambda>_. gic_write gicc ''EOIR'' 0 (ucast iid))))"

text \<open>The handlers by name, through the table.\<close>

fun call_vector ::
  "string option list \<Rightarrow> (string option \<Rightarrow> (unit, unit) io) \<Rightarrow> (nat \<Rightarrow> (unit, unit) io) \<Rightarrow> (unit, unit) io \<Rightarrow>
   irq_source \<Rightarrow> (unit, unit) io" where
  "call_vector spis named sgi undefined_pointer (Spi n) = named (spis ! n)"
| "call_vector spis named sgi undefined_pointer (Sgi n) = sgi n"
| "call_vector spis named sgi undefined_pointer (Outside n) = undefined_pointer"
| "call_vector spis named sgi undefined_pointer _ = named None"

section \<open>The table\<close>

lemma fill_up: "pos \<le> irq \<Longrightarrow> fill p pos irq = Ok (unat irq - unat pos)"
proof (induction p pos irq rule: fill.induct)
  case (1 p pos irq)
  show ?case
  proof (cases "pos = irq")
    case True
    then show ?thesis by (simp add: fill.simps)
  next
    case False
    then have lt: "unat pos < unat irq" using 1(2) by (simp add: word_less_nat_alt [symmetric])
    then have n: "unat pos + 1 < 2 ^ 16" using unat_less_exp [of irq] by simp
    then have ok: "prof_add p pos 1 = (Ok (pos + 1) :: (build_error, u16) outcome)" by (intro prof_add_fits) simp
    have next': "unat (pos + 1) = unat pos + 1" using n by (subst unat_add_small) simp_all
    then have "pos + 1 \<le> irq" using lt by (simp add: word_le_nat_alt)
    from 1(1) [OF False _ this] ok have "fill p (pos + 1) irq = Ok (unat irq - unat (pos + 1))" by simp
    then show ?thesis using False ok lt next' by (subst fill.simps) simp
  qed
qed

definition ordered :: "nat \<Rightarrow> interrupt list \<Rightarrow> bool" where
  "ordered n is' \<longleftrightarrow> sorted_wrt (\<lambda>i j. unat (irq_number i) < unat (irq_number j)) is' \<and>
     (\<forall>i \<in> set is'. n \<le> unat (irq_number i) \<and> unat (irq_number i) < 160)"

text \<open>Position \<open>j\<close> of the array has the handler of the interrupt with this number, if there is one.\<close>

definition handler_at :: "interrupt list \<Rightarrow> nat \<Rightarrow> string option" where
  "handler_at is' n = map_option iname (find (\<lambda>i. unat (irq_number i) = n) is')"

lemma spis_elements_ordered:
  assumes "ordered (unat pos) is'" "unat pos \<le> 160"
  shows "\<exists>es. spis_elements p pos is' = Ok es \<and>
    length es = (if is' = [] then 0 else unat (irq_number (last is')) + 1 - unat pos) \<and>
    (\<forall>j < length es. es ! j = handler_at is' (unat pos + j))"
  using assms
proof (induction is' arbitrary: pos)
  case (Cons i is')
  let ?n = "unat (irq_number i)"
  have i: "unat pos \<le> ?n" "?n < 160" using Cons.prems(1) by (simp_all add: ordered_def)
  then have ok: "prof_add p (irq_number i) 1 = (Ok (irq_number i + 1) :: (build_error, u16) outcome)"
    by (intro prof_add_fits) simp
  have n1: "unat (irq_number i + 1) = ?n + 1" using i(2) by (subst unat_add_small) simp_all
  have "ordered (unat (irq_number i + 1)) is'"
    using Cons.prems(1) by (auto simp: ordered_def n1 Suc_le_eq)
  then obtain es where es: "spis_elements p (irq_number i + 1) is' = Ok es"
      "length es = (if is' = [] then 0 else unat (irq_number (last is')) + 1 - (?n + 1))"
      "\<forall>j < length es. es ! j = handler_at is' (?n + 1 + j)"
    using Cons.IH [of "irq_number i + 1"] i(2) n1 by auto
  let ?es = "replicate (?n - unat pos) None @ Some (iname i) # es"
  have later: "?n < unat (irq_number j)" if "j \<in> set is'" for j
    using Cons.prems(1) that by (simp add: ordered_def)
  have "?es ! j = handler_at (i # is') (unat pos + j)" if j: "j < length ?es" for j
  proof -
    consider "unat pos + j < ?n" | "unat pos + j = ?n" | k where "unat pos + j = ?n + 1 + k"
      by (metis Suc_eq_plus1 add.commute add_Suc_right linorder_neqE_nat less_imp_Suc_add)
    then show ?thesis
    proof cases
      case 1
      then have "find (\<lambda>i. unat (irq_number i) = unat pos + j) is' = None"
        using later by (fastforce simp: find_None_iff)
      moreover have "j < ?n - unat pos" using 1 by linarith
      ultimately show ?thesis using 1 by (simp add: handler_at_def nth_append)
    next
      case 2
      then have "j = ?n - unat pos" by simp
      then show ?thesis using 2 by (simp add: handler_at_def nth_append)
    next
      case (3 k)
      then have jk: "j = (?n - unat pos) + 1 + k" using i(1) by linarith
      then have "k < length es" using j by simp
      then have "es ! k = handler_at is' (?n + 1 + k)" using es(3) by blast
      moreover have "\<not> j < ?n - unat pos" "j - (?n - unat pos) = Suc k" using jk by simp_all
      ultimately show ?thesis using 3 by (simp add: handler_at_def nth_append)
    qed
  qed
  moreover have "length ?es = unat (irq_number (last (i # is'))) + 1 - unat pos"
  proof (cases "is' = []")
    case True
    then show ?thesis using es(2) i(1) by simp
  next
    case False
    then have "?n < unat (irq_number (last is'))" using later by simp
    then show ?thesis using False es(2) i(1) by simp
  qed
  ultimately show ?case
    using es(1) ok fill_up [of pos "irq_number i" p] i(1) by (simp add: word_le_nat_alt)
qed simp

lemma spis_table_handlers:
  assumes "ordered 32 is'" "is' \<noteq> []" "irq_number (last is') = 159"
  shows "\<exists>es. spis_table p is' = Ok es \<and> length es = 128 \<and> (\<forall>j < 128. es ! j = handler_at is' (32 + j))"
proof -
  have "unat IRQ_START = 32" by (simp add: IRQ_START_def)
  then obtain es where es: "spis_elements p IRQ_START is' = Ok es" "length es = 128"
      "\<forall>j < length es. es ! j = handler_at is' (32 + j)"
    using spis_elements_ordered [of IRQ_START is' p] assms by auto
  then show ?thesis by (simp add: spis_table_def NIRQS_def)
qed

lemma iar_number: "unat (ucast (iar AND (push_bit 10 1 - 1) :: u32) :: u16) = unat iar mod 1024"
proof -
  have "(iar AND (push_bit 10 1 - 1) :: u32) = take_bit 10 iar"
    by (simp add: take_bit_eq_mask mask_eq_exp_minus_1)
  moreover have "unat (ucast (take_bit 10 iar :: u32) :: u16) = unat iar mod 1024"
    by (simp add: unsigned_ucast_eq unsigned_take_bit_eq take_bit_take_bit min_def) (simp add: take_bit_eq_mod)
  ultimately show ?thesis by simp
qed

text \<open>
  C19. Every shared interrupt reaches the handler of its name: with the table the build script makes from a list that is in
  order and ends with interrupt 159, \<^verbatim>\<open>IRQ\<close> calls, for the number \<open>n\<close> that the controller reports, the handler of the
  interrupt with that number (the default handler for numbers that are not listed) once, and then ends exactly that interrupt;
  a spurious interrupt is neither handled nor ended.
\<close>

theorem irq_reaches_handler:
  assumes "ordered 32 is'" "is' \<noteq> []" "irq_number (last is') = 159" "spis_table p is' = Ok spis"
  shows "(let iar = answer hw tr (Reg 0xA0200C); n = unat iar mod 1024; tr1 = Rd (Reg 0xA0200C) iar # tr
    in (32 \<le> n \<and> n < 160 \<longrightarrow>
          IRQ hw p (call_vector spis named sgi undefined_pointer) tr =
          abind (named (handler_at is' n)) (\<lambda>_. wr (Reg 0xA02010) (of_nat n)) tr1) \<and>
       (n = 1023 \<longrightarrow> IRQ hw p (call_vector spis named sgi undefined_pointer) tr = (Ok (), tr1)))"
proof -
  define iar where "iar = answer hw tr (Reg 0xA0200C)"
  define iid where "iid = (ucast (iar AND (push_bit 10 1 - 1)) :: u16)"
  define tr1 where "tr1 = Rd (Reg 0xA0200C) iar # tr"
  let ?n = "unat iar mod 1024"
  have n: "unat iid = ?n" by (simp only: iid_def iar_number)
  have read: "gic_read hw gicc ''IAR'' 0 tr = ((Ok iar :: (unit, u32) outcome), tr1)"
    by (simp add: gic_read_def gicc_registers rd_def iar_def tr1_def)
  have irq: "IRQ hw p call tr = abind (alift (irq_source_of p iid)) (\<lambda>src. case src of
       Spurious \<Rightarrow> aret ()
     | Unknown \<Rightarrow> abind (call Unknown) (\<lambda>_. alift Hang)
     | _ \<Rightarrow> abind (call src) (\<lambda>_. gic_write gicc ''EOIR'' 0 (ucast iid))) tr1" for call
    unfolding IRQ_def Let_def iid_def
    by (subst abind_Ok [where m = "gic_read hw gicc ''IAR'' 0", OF read]) (rule refl)
  have "IRQ hw p (call_vector spis named sgi undefined_pointer) tr =
      abind (named (handler_at is' ?n)) (\<lambda>_. wr (Reg 0xA02010) (of_nat ?n)) tr1" if "32 \<le> ?n" "?n < 160"
  proof -
    have ge: "32 \<le> iid" "iid < 160" "\<not> iid < 16" "iid \<noteq> 1023"
      using that by (auto simp: word_le_nat_alt word_less_nat_alt n word_unat_eq_iff)
    have sub: "unat (iid - 32) = ?n - 32" using ge(1) n by (simp add: unat_sub)
    have "irq_source_of p iid = Ok (Spi (?n - 32))"
      using ge that sub by (simp add: irq_source_of_def prof_sub_fits NIRQS_def)
    moreover have "spis ! (?n - 32) = handler_at is' ?n"
      using spis_table_handlers [OF assms(1-3), of p] assms(4) that by auto
    moreover have "ucast iid = (of_nat ?n :: u32)"
      unfolding n [symmetric] by (rule of_nat_unat [symmetric])
    ultimately show ?thesis
      by (simp add: irq gic_write_def gicc_registers)
  qed
  moreover have "IRQ hw p (call_vector spis named sgi undefined_pointer) tr = (Ok (), tr1)" if "?n = 1023"
  proof -
    have "iid = 1023" using n that by (simp add: word_unat_eq_iff)
    then show ?thesis by (simp add: irq irq_source_of_def)
  qed
  ultimately show ?thesis by (simp add: Let_def iar_def tr1_def)
qed

text \<open>Two interrupts; the second is reported.\<close>

definition two_interrupts :: "interrupt list" where
  "two_interrupts =
     [\<lparr>iname = ''IOMUXC'', irq_number = 32, idescription = []\<rparr>, \<lparr>iname = ''PMU'', irq_number = 159, idescription = []\<rparr>]"

definition pmu_fires :: hw where
  "pmu_fires = \<lparr>answer = (\<lambda>_ r. if r = Reg 0xA0200C then 159 else 0), dma_memory = (\<lambda>_ _ n. replicate n 0)\<rparr>"

theorem irq_reaches_handler_witness:
  "\<exists>spis. spis_table Dev two_interrupts = Ok spis \<and>
     IRQ pmu_fires Dev (call_vector spis (\<lambda>name. if name = Some ''PMU'' then wr (Reg 0) 7 else aret ()) (\<lambda>_. aret ()) (aret ())) [] =
       (Ok (), [Wr (Reg 0xA02010) 159, Wr (Reg 0) 7, Rd (Reg 0xA0200C) 159])"
proof -
  have i: "ordered 32 two_interrupts" "two_interrupts \<noteq> []" "irq_number (last two_interrupts) = 159"
    by (simp_all add: ordered_def two_interrupts_def)
  then obtain spis where spis: "spis_table Dev two_interrupts = Ok spis" using spis_table_handlers by blast
  have "handler_at two_interrupts 159 = Some ''PMU''" by (simp add: handler_at_def two_interrupts_def)
  then show ?thesis
    using irq_reaches_handler [OF i spis, of pmu_fires "[]" "\<lambda>name. if name = Some ''PMU'' then wr (Reg 0) 7 else aret ()"
        "\<lambda>_. aret ()" "aret ()"] spis
    by (simp add: pmu_fires_def wr_def abind_def)
qed

text \<open>
  The private interrupts 16 to 31 are taken for shared ones: the subtraction wraps around, and the unchecked access is far
  outside of the table.
\<close>

lemma private_interrupts:
  assumes "16 \<le> iid" "iid < 32"
  shows "irq_source_of Dev iid = Panic" "\<exists>n \<ge> 65520. irq_source_of Release iid = Ok (Outside n)"
proof -
  have i: "16 \<le> unat iid" "unat iid < 32" using assms by (simp_all add: word_le_nat_alt word_less_nat_alt)
  then have b: "\<not> iid < 16" "iid \<noteq> 1023" "iid < 160" "\<not> 32 \<le> iid"
    by (auto simp: word_le_nat_alt word_less_nat_alt word_unat_eq_iff)
  then show "irq_source_of Dev iid = Panic"
    by (simp add: irq_source_of_def prof_sub_def checked_sub_def)
  have "unat (iid - 32) = 2 ^ 16 + unat iid - 32"
    using b(4) i by (simp add: unat_sub_if_size word_le_nat_alt word_size)
  then show "\<exists>n \<ge> 65520. irq_source_of Release iid = Ok (Outside n)"
    using b i by (auto simp: irq_source_of_def prof_sub_def NIRQS_def)
qed

end
